(* ===== verification/Ash_Prelude.thy ===== *)
theory Ash_Prelude
  imports Main "HOL-Library.Word"
begin

section \<open>Shared types, errors and generic lemmas\<close>

text \<open>
  The prelude of the AshCoin development: the machine types of the C++ source, the error
  values that stand for its exceptions, assertion failures and undefined behaviour, the
  result monad that sequences fallible code, the decimal rendering that
  \<^verbatim>\<open>operator<<\<close> gives to integers, and the list lemmas the component theories share.

  The collection \<open>ash_defs\<close> gathers definitions that are unfolded by default in proofs about
  straight-line code, \<open>result_simps\<close> the characterisations of successful results.
\<close>

named_theorems ash_defs
named_theorems result_simps

type_synonym u8 = "8 word"
type_synonym u32 = "32 word"
type_synonym u64 = "64 word"

text \<open>
  \<open>BlockTime\<close> (\<^verbatim>\<open>src/src/Transactions.h\<close>) is a \<^verbatim>\<open>time_point\<close> of milliseconds since the
  epoch, a signed 64-bit count. It is kept as its bit pattern and read with \<open>sint\<close>; the casts
  between \<^verbatim>\<open>std::uint64_t\<close> and the count are then the identity.
\<close>

type_synonym BlockTime = "64 word"

subsection \<open>Errors and the result monad\<close>

text \<open>
  Every way in which the source does not return normally is a value: the standard exceptions
  with their message, a failed \<^verbatim>\<open>assert\<close>, a type or parse error thrown by the JSON library, a failed \<^verbatim>\<open>lexical_cast\<close>, a call of
  \<^verbatim>\<open>std::terminate\<close>, a short
  read, and operations whose behaviour the language leaves undefined (such as
  \<^verbatim>\<open>back()\<close> of an empty vector).
\<close>

datatype error =
    AssertFailed
  | OutOfRange
  | InvalidArgument string
  | LogicError string
  | RuntimeError string
  | JsonTypeError
  | JsonParseError
  | ShortRead
  | BadLexicalCast
  | Terminate
  | UndefinedBehaviour

type_synonym 'a result = "error + 'a"

abbreviation Ok :: "'a \<Rightarrow> 'a result" where
  "Ok \<equiv> Inr"

abbreviation Err :: "error \<Rightarrow> 'a result" where
  "Err \<equiv> Inl"

definition rbind :: "'a result \<Rightarrow> ('a \<Rightarrow> 'b result) \<Rightarrow> 'b result" where
  "rbind m f = (case m of Inl e \<Rightarrow> Inl e | Inr x \<Rightarrow> f x)"

definition massert :: "bool \<Rightarrow> unit result" where
  "massert b = (if b then Ok () else Err AssertFailed)"

fun rmap :: "('a \<Rightarrow> 'b result) \<Rightarrow> 'a list \<Rightarrow> 'b list result" where
  "rmap f [] = Ok []"
| "rmap f (x # xs) = rbind (f x) (\<lambda>y. rbind (rmap f xs) (\<lambda>ys. Ok (y # ys)))"

fun rfold :: "('a \<Rightarrow> 'b \<Rightarrow> 'b result) \<Rightarrow> 'a list \<Rightarrow> 'b \<Rightarrow> 'b result" where
  "rfold f [] s = Ok s"
| "rfold f (x # xs) s = rbind (f x s) (rfold f xs)"

text \<open>\<^verbatim>\<open>std::vector::at\<close>: bounds-checked indexing with a \<^verbatim>\<open>std::size_t\<close>.\<close>

definition vec_at :: "'a list \<Rightarrow> u64 \<Rightarrow> 'a result" where
  "vec_at xs i = (if unat i < length xs then Ok (xs ! unat i) else Err OutOfRange)"

text \<open>\<^verbatim>\<open>front()\<close> and \<^verbatim>\<open>back()\<close> of a vector, undefined on an empty one.\<close>

definition vec_front :: "'a list \<Rightarrow> 'a result" where
  "vec_front xs = (case xs of [] \<Rightarrow> Err UndefinedBehaviour | x # _ \<Rightarrow> Ok x)"

definition vec_back :: "'a list \<Rightarrow> 'a result" where
  "vec_back xs = (if xs = [] then Err UndefinedBehaviour else Ok (last xs))"

text \<open>\<^verbatim>\<open>size()\<close> as a 64-bit \<^verbatim>\<open>std::size_t\<close>.\<close>

definition vec_size :: "'a list \<Rightarrow> u64" where
  "vec_size xs = of_nat (length xs)"

lemma rbind_simps [simp, result_simps]:
  "rbind (Ok x) f = f x"
  "rbind (Err e) f = Err e"
  by (simp_all add: rbind_def)

lemma rbind_Ok_iff [result_simps]:
  "rbind m f = Ok y \<longleftrightarrow> (\<exists>x. m = Ok x \<and> f x = Ok y)"
  by (cases m) auto

lemma rbind_Ok_E [elim]:
  assumes "rbind m f = Ok y"
  obtains x where "m = Ok x" and "f x = Ok y"
  using assms by (auto simp: rbind_Ok_iff)

lemma rbind_assoc: "rbind (rbind m f) g = rbind m (\<lambda>x. rbind (f x) g)"
  by (cases m) auto

lemma rbind_cong [fundef_cong]:
  assumes "m = m'" and "\<And>x. m' = Ok x \<Longrightarrow> f x = f' x"
  shows "rbind m f = rbind m' f'"
  using assms by (cases m') auto

lemma massert_Ok_iff [simp, result_simps]: "massert b = Ok u \<longleftrightarrow> b"
  by (simp add: massert_def)

lemma massert_simps [simp]: "massert True = Ok ()" "massert False = Err AssertFailed"
  by (simp_all add: massert_def)

lemma vec_at_Ok_iff [result_simps]:
  "vec_at xs i = Ok x \<longleftrightarrow> unat i < length xs \<and> xs ! unat i = x"
  by (auto simp: vec_at_def)

lemma vec_back_Ok_iff [result_simps]: "vec_back xs = Ok x \<longleftrightarrow> xs \<noteq> [] \<and> last xs = x"
  by (auto simp: vec_back_def)

lemma vec_front_Ok_iff [result_simps]: "vec_front xs = Ok x \<longleftrightarrow> xs \<noteq> [] \<and> hd xs = x"
  by (auto simp: vec_front_def split: list.splits)

lemma vec_back_snoc [simp]: "vec_back (xs @ [x]) = Ok x"
  by (simp add: vec_back_def)

lemma vec_front_Cons [simp]: "vec_front (x # xs) = Ok x"
  by (simp add: vec_front_def)

lemma unat_of_nat64: "n < 2 ^ 64 \<Longrightarrow> unat (of_nat n :: u64) = n"
  by (simp add: unat_of_nat)

lemma unat_of_nat32: "n < 2 ^ 32 \<Longrightarrow> unat (of_nat n :: u32) = n"
  by (simp add: unat_of_nat)

lemma unat_Suc32: "w + 1 \<noteq> 0 \<Longrightarrow> unat (w + 1) = Suc (unat w)" for w :: u32
  using unat_eq_zero [of "w + 1"] unat_word_ariths(1) [of w 1] unsigned_less [of w, where 'a = nat]
  by (auto simp: mod_Suc split: if_splits)

lemma unat_of_nat64_minus:
  assumes "k \<le> n" and "n < 2 ^ 64"
  shows "unat (of_nat n - of_nat k :: u64) = n - k"
proof -
  have "(of_nat n - of_nat k :: u64) = of_nat (n - k)" using assms(1) by (rule of_nat_diff [symmetric])
  then show ?thesis using assms by (simp add: unat_of_nat64 del: of_nat_diff)
qed

lemma unat_pow2_64: "d < 64 \<Longrightarrow> unat (2 ^ d :: u64) = 2 ^ d"
proof -
  assume "d < 64"
  then have "(2::nat) ^ d < 2 ^ 64" by (intro power_strict_increasing) auto
  then have "unat (of_nat (2 ^ d) :: u64) = 2 ^ d" by (rule unat_of_nat64)
  then show ?thesis by simp
qed

lemma unat_max64: "unat (- 1 :: u64) = 2 ^ 64 - 1"
proof -
  have e: "(- 1 :: u64) = of_nat (2 ^ 64 - 1)" by simp
  show ?thesis unfolding e by (rule unat_of_nat64) simp
qed

lemma unat_vec_size: "length xs < 2 ^ 64 \<Longrightarrow> unat (vec_size xs) = length xs"
  by (simp add: vec_size_def unat_of_nat)

lemma rmap_Ok_iff: "rmap f xs = Ok ys \<longleftrightarrow> list_all2 (\<lambda>x y. f x = Ok y) xs ys"
proof (induction xs arbitrary: ys)
  case Nil
  show ?case by auto
next
  case (Cons x xs)
  show ?case by (cases ys) (auto simp: rbind_Ok_iff Cons.IH)
qed

lemma rmap_all_Ok:
  assumes "\<And>x. x \<in> set xs \<Longrightarrow> f x = Ok (g x)"
  shows "rmap f xs = Ok (map g xs)"
  using assms by (induction xs) auto

lemma rmap_Err:
  assumes "x \<in> set xs" and "f x = Err e" and "\<And>y e'. y \<in> set xs \<Longrightarrow> f y = Err e' \<Longrightarrow> e' = e"
  shows "rmap f xs = Err e"
  using assms
proof (induction xs)
  case (Cons y ys)
  show ?case
  proof (cases "f y")
    case (Inl e')
    then show ?thesis using Cons.prems(3) [of y e'] by simp
  next
    case (Inr z)
    then have "x \<in> set ys" using Cons.prems(1,2) by auto
    then have "rmap f ys = Err e" using Cons.prems by (intro Cons.IH) auto
    with Inr show ?thesis by simp
  qed
qed simp

lemma rmap_cong [fundef_cong]:
  assumes "xs = ys" and "\<And>x. x \<in> set ys \<Longrightarrow> f x = g x"
  shows "rmap f xs = rmap g ys"
  using assms(2) unfolding assms(1) by (induction ys) (auto simp: rbind_def)

lemma rfold_cong [fundef_cong]:
  assumes "xs = ys" and "s = t" and "\<And>x s. x \<in> set ys \<Longrightarrow> f x s = g x s"
  shows "rfold f xs s = rfold g ys t"
  using assms(3) unfolding assms(1,2) by (induction ys arbitrary: t) (auto intro!: rbind_cong)

lemma rfold_append: "rfold f (xs @ ys) s = rbind (rfold f xs s) (rfold f ys)"
  by (induction xs arbitrary: s) (auto simp: rbind_assoc intro: rbind_cong)

lemma rfold_concat: "rfold f (concat xss) s = rfold (\<lambda>xs. rfold f xs) xss s"
  by (induction xss arbitrary: s) (auto simp: rfold_append intro: rbind_cong)

lemma rfold_map: "rfold f (map g xs) s = rfold (\<lambda>x. f (g x)) xs s"
  by (induction xs arbitrary: s) (auto intro: rbind_cong)

lemma rfold_invariant:
  assumes "rfold f xs s = Ok t" and "P s"
    and "\<And>x s t. x \<in> set xs \<Longrightarrow> P s \<Longrightarrow> f x s = Ok t \<Longrightarrow> P t"
  shows "P t"
  using assms
proof (induction xs arbitrary: s)
  case Nil
  then show ?case by simp
next
  case (Cons x xs)
  from Cons.prems(1) obtain s' where s': "f x s = Ok s'" and t: "rfold f xs s' = Ok t"
    by (auto simp: rbind_Ok_iff)
  have "P s'" by (rule Cons.prems(3) [OF _ Cons.prems(2) s']) simp
  with t show ?case by (rule Cons.IH) (rule Cons.prems(3), auto)
qed

subsection \<open>Decimal rendering of integers\<close>

text \<open>
  \<^verbatim>\<open>stream << n\<close> for an unsigned integer writes its decimal digits without padding or
  grouping; for a signed one a leading minus sign when it is negative.
\<close>

definition digit_char :: "nat \<Rightarrow> char" where
  "digit_char d = char_of (48 + d)"

fun show_nat :: "nat \<Rightarrow> string" where
  "show_nat n = (if n < 10 then [digit_char n] else show_nat (n div 10) @ [digit_char (n mod 10)])"

declare show_nat.simps [simp del]

definition show_int :: "int \<Rightarrow> string" where
  "show_int i = (if i < 0 then CHR ''-'' # show_nat (nat (- i)) else show_nat (nat i))"

abbreviation show_u64 :: "u64 \<Rightarrow> string" where
  "show_u64 w \<equiv> show_nat (unat w)"

abbreviation show_time :: "BlockTime \<Rightarrow> string" where
  "show_time t \<equiv> show_int (sint t)"

fun digits_value :: "nat \<Rightarrow> string \<Rightarrow> nat" where
  "digits_value acc [] = acc"
| "digits_value acc (c # cs) = digits_value (acc * 10 + (of_char c - 48)) cs"

lemma digit_char_table:
  "digit_char 0 = CHR ''0''" "digit_char (Suc 0) = CHR ''1''" "digit_char 1 = CHR ''1''"
  "digit_char 2 = CHR ''2''" "digit_char 3 = CHR ''3''" "digit_char 4 = CHR ''4''"
  "digit_char 5 = CHR ''5''" "digit_char 6 = CHR ''6''" "digit_char 7 = CHR ''7''"
  "digit_char 8 = CHR ''8''" "digit_char 9 = CHR ''9''"
  by code_simp+

lemma of_char_digit_char: "d < 10 \<Longrightarrow> (of_char (digit_char d) :: nat) = 48 + d"
  by (simp add: digit_char_def)

lemma digits_value_append: "digits_value a (xs @ ys) = digits_value (digits_value a xs) ys"
  by (induction xs arbitrary: a) auto

lemma digits_value_show_nat: "digits_value 0 (show_nat n) = n"
proof (induction n rule: show_nat.induct)
  case (1 n)
  show ?case
  proof (cases "n < 10")
    case True
    then show ?thesis by (subst show_nat.simps) (simp add: of_char_digit_char)
  next
    case False
    with "1.IH" show ?thesis
      by (subst show_nat.simps) (simp add: digits_value_append of_char_digit_char)
  qed
qed

lemma show_nat_inj: "show_nat m = show_nat n \<longleftrightarrow> m = n"
  by (metis digits_value_show_nat)

lemma show_nat_nonempty [simp]: "show_nat n \<noteq> []"
  by (subst show_nat.simps) simp

subsection \<open>Lists\<close>

lemma replicate_numeral_eq:
  "replicate (numeral k) x = x # replicate (pred_numeral k) x"
  by (simp add: numeral_eq_Suc)

lemma last_take_nth: "0 < n \<Longrightarrow> n \<le> length xs \<Longrightarrow> last (take n xs) = xs ! (n - 1)"
  by (subst last_conv_nth) auto

end
