(* ===== verification/Ash_Double.thy ===== *)
theory Ash_Double
  imports Ash_Prelude
begin

section \<open>The C++ type \<open>double\<close>\<close>

text \<open>
  Amounts of coins are values of type \<^verbatim>\<open>double\<close>. This theory models what the source uses of
  that type, on the IEEE 754 binary64 format: the bit pattern (which \<^verbatim>\<open>ChainDatabase.h\<close> writes
  to disk), addition and subtraction with round-to-nearest-even, multiplication by \<^verbatim>\<open>-1.0\<close>,
  the comparisons, and the rendering of \<^verbatim>\<open>operator<<\<close> with the default precision of six
  significant digits (used for transaction ids).

  A finite double is \<open>(-1)^s * m * 2^e\<close> in units of \<open>2^-1074\<close>, where \<open>m < 2^53\<close> and
  \<open>e \<le> 2045\<close>; \<open>dbl_units\<close> is this value as an integer number of units. The main facts are that
  comparison agrees with the order of units, and that addition and subtraction are exact
  as long as the operands lie on a common binary grid and the result fits 53 bits on it.
\<close>

datatype double = Double (dbits: "64 word")

abbreviation dnat :: "double \<Rightarrow> nat" where
  "dnat d \<equiv> unat (dbits d)"

text \<open>The sign, the biased exponent and the fraction of the bit pattern.\<close>

definition dbl_sign :: "double \<Rightarrow> bool" where
  "dbl_sign d = (2 ^ 63 \<le> dnat d)"

definition dbl_magbits :: "double \<Rightarrow> nat" where
  "dbl_magbits d = dnat d mod 2 ^ 63"

definition dbl_nan :: "double \<Rightarrow> bool" where
  "dbl_nan d = (2047 * 2 ^ 52 < dbl_magbits d)"

definition dbl_inf :: "double \<Rightarrow> bool" where
  "dbl_inf d = (dbl_magbits d = 2047 * 2 ^ 52)"

definition dbl_finite :: "double \<Rightarrow> bool" where
  "dbl_finite d = (dbl_magbits d < 2047 * 2 ^ 52)"

definition mb_mant :: "nat \<Rightarrow> nat" where
  "mb_mant k = (if k div 2 ^ 52 = 0 then k else 2 ^ 52 + k mod 2 ^ 52)"

definition mb_exp :: "nat \<Rightarrow> nat" where
  "mb_exp k = k div 2 ^ 52 - 1"

definition mb_units :: "nat \<Rightarrow> nat" where
  "mb_units k = mb_mant k * 2 ^ mb_exp k"

definition dbl_units :: "double \<Rightarrow> int" where
  "dbl_units d = (if dbl_sign d then - int (mb_units (dbl_magbits d))
                  else int (mb_units (dbl_magbits d)))"

subsection \<open>Rounding and packing\<close>

fun bitlen :: "nat \<Rightarrow> nat" where
  "bitlen n = (if n = 0 then 0 else Suc (bitlen (n div 2)))"

declare bitlen.simps [simp del]

text \<open>\<open>m / 2^s\<close> rounded to the nearest integer, ties to even.\<close>

definition rne :: "nat \<Rightarrow> nat \<Rightarrow> nat" where
  "rne m s = (let q = m div 2 ^ s; r = m mod 2 ^ s; h = 2 ^ s div 2
              in if s = 0 then m
                 else if r < h \<or> (r = h \<and> even q) then q else q + 1)"

text \<open>
  The magnitude bits of \<open>m * 2^e\<close> units rounded to 53 significant bits. With the exponent field
  at bit 52, a carry out of the mantissa moves to the next exponent by itself.
\<close>

definition pack_mag :: "nat \<Rightarrow> nat \<Rightarrow> nat" where
  "pack_mag m e =
     (let n = bitlen m in
      if n + e \<le> 53 then m * 2 ^ e
      else if n \<le> 53 then (e + n - 53) * 2 ^ 52 + m * 2 ^ (53 - n)
      else (e + (n - 53)) * 2 ^ 52 + rne m (n - 53))"

definition pack :: "bool \<Rightarrow> nat \<Rightarrow> nat \<Rightarrow> double" where
  "pack s m e =
     (let k = min (pack_mag m e) (2047 * 2 ^ 52)
      in Double (of_nat ((if s then 2 ^ 63 else 0) + k)))"

text \<open>The default NaN an invalid operation produces, and a quieted NaN operand.\<close>

definition dbl_default_nan :: double where
  "dbl_default_nan = Double 0xFFF8000000000000"

definition dbl_quiet :: "double \<Rightarrow> double" where
  "dbl_quiet d = Double (or (dbits d) 0x0008000000000000)"

subsection \<open>Arithmetic and comparison\<close>

definition signed_mant :: "double \<Rightarrow> nat \<Rightarrow> int" where
  "signed_mant d e =
     (let m = int (mb_mant (dbl_magbits d)) * 2 ^ (mb_exp (dbl_magbits d) - e)
      in if dbl_sign d then - m else m)"

definition add_finite :: "double \<Rightarrow> double \<Rightarrow> double" where
  "add_finite a b =
     (let e = min (mb_exp (dbl_magbits a)) (mb_exp (dbl_magbits b));
          t = signed_mant a e + signed_mant b e
      in if t = 0 then pack (dbl_sign a \<and> dbl_sign b) 0 0
         else pack (t < 0) (nat \<bar>t\<bar>) e)"

definition dbl_add :: "double \<Rightarrow> double \<Rightarrow> double" where
  "dbl_add a b =
     (if dbl_nan a then dbl_quiet a
      else if dbl_nan b then dbl_quiet b
      else if dbl_inf a then (if dbl_inf b \<and> dbl_sign a \<noteq> dbl_sign b then dbl_default_nan else a)
      else if dbl_inf b then b
      else add_finite a b)"

definition dbl_flip :: "double \<Rightarrow> double" where
  "dbl_flip d = Double (dbits d + 2 ^ 63)"

definition dbl_sub :: "double \<Rightarrow> double \<Rightarrow> double" where
  "dbl_sub a b = (if dbl_nan b then dbl_add a b else dbl_add a (dbl_flip b))"

text \<open>\<^verbatim>\<open>d * -1.0\<close>: exact, the sign is flipped; a NaN stays a NaN.\<close>

definition dbl_times_minus1 :: "double \<Rightarrow> double" where
  "dbl_times_minus1 d = (if dbl_nan d then dbl_quiet d else dbl_flip d)"

definition dbl_key :: "double \<Rightarrow> int" where
  "dbl_key d = (if dbl_sign d then - int (dbl_magbits d) else int (dbl_magbits d))"

definition dbl_lt :: "double \<Rightarrow> double \<Rightarrow> bool" where
  "dbl_lt a b = (\<not> dbl_nan a \<and> \<not> dbl_nan b \<and> dbl_key a < dbl_key b)"

definition dbl_ge :: "double \<Rightarrow> double \<Rightarrow> bool" where
  "dbl_ge a b = (\<not> dbl_nan a \<and> \<not> dbl_nan b \<and> dbl_key b \<le> dbl_key a)"

definition dbl_zero :: double where
  "dbl_zero = Double 0"

text \<open>A double literal with an integer value below \<open>2^53\<close>.\<close>

definition dbl_of_nat :: "nat \<Rightarrow> double" where
  "dbl_of_nat n = (if n = 0 then dbl_zero else pack False n 1074)"

text \<open>\<^verbatim>\<open>std::accumulate(begin, end, 0.0, ...)\<close>: a left fold of additions.\<close>

definition dbl_sum :: "double list \<Rightarrow> double" where
  "dbl_sum ds = fold (\<lambda>d acc. dbl_add acc d) ds dbl_zero"


named_theorems dbl_eval

lemmas dbl_eval_defs [dbl_eval] =
  dbl_of_nat_def dbl_zero_def pack_def pack_mag_def Let_def dbl_add_def dbl_sub_def dbl_flip_def
  dbl_nan_def dbl_inf_def dbl_finite_def dbl_magbits_def dbl_sign_def add_finite_def
  signed_mant_def mb_mant_def mb_exp_def rne_def bitlen.simps dbl_lt_def dbl_ge_def dbl_key_def
  dbl_times_minus1_def dbl_sum_def

subsection \<open>Rendering with six significant digits\<close>

text \<open>
  \<^verbatim>\<open>stream << d\<close> with the default precision is the C conversion \<^verbatim>\<open>%g\<close>: the value is
  rounded to six significant decimal digits (ties to even on the exact binary value), written
  in fixed notation when the decimal exponent is between \<open>-4\<close> and \<open>5\<close> and in scientific
  notation otherwise, without trailing zeros.
\<close>

function scale_down :: "nat \<Rightarrow> nat \<Rightarrow> int \<Rightarrow> nat \<times> nat \<times> int" where
  "scale_down num den x =
     (if 0 < den \<and> 10 * den \<le> num then scale_down num (10 * den) (x + 1) else (num, den, x))"
  by pat_completeness auto
termination
  by (relation "measure (\<lambda>(num, den, x). num - den)") auto

function scale_up :: "nat \<Rightarrow> nat \<Rightarrow> int \<Rightarrow> nat \<times> nat \<times> int" where
  "scale_up num den x =
     (if 0 < num \<and> num < den then scale_up (10 * num) den (x - 1) else (num, den, x))"
  by pat_completeness auto
termination
  by (relation "measure (\<lambda>(num, den, x). den - num)") auto

declare scale_down.simps [simp del] scale_up.simps [simp del]

definition rne_div :: "nat \<Rightarrow> nat \<Rightarrow> nat" where
  "rne_div a b = (let q = a div b; r = a mod b
                  in if 2 * r < b \<or> (2 * r = b \<and> even q) then q else q + 1)"

definition g6_digits :: "nat \<Rightarrow> nat \<Rightarrow> nat \<times> int" where
  "g6_digits num den =
     (case scale_down num den 0 of (n1, d1, x1) \<Rightarrow>
        case scale_up n1 d1 x1 of (n2, d2, x2) \<Rightarrow>
          let q = rne_div (n2 * 10 ^ 5) d2
          in if q = 10 ^ 6 then (10 ^ 5, x2 + 1) else (q, x2))"

definition strip_zeros :: "string \<Rightarrow> string" where
  "strip_zeros s = rev (dropWhile (\<lambda>c. c = CHR ''0'') (rev s))"

definition with_point :: "string \<Rightarrow> string \<Rightarrow> string" where
  "with_point ip fp = (let f = strip_zeros fp in if f = [] then ip else ip @ ''.'' @ f)"

definition g6_layout :: "nat \<Rightarrow> int \<Rightarrow> string" where
  "g6_layout q x =
     (let ds = show_nat q in
      if x < -4 \<or> 6 \<le> x
      then with_point (take 1 ds) (drop 1 ds) @ (if x < 0 then ''e-'' else ''e+'')
             @ (if \<bar>x\<bar> < 10 then ''0'' else []) @ show_nat (nat \<bar>x\<bar>)
      else if x < 0 then with_point ''0'' (replicate (nat (- x) - 1) (CHR ''0'') @ ds)
      else with_point (take (nat x + 1) ds) (drop (nat x + 1) ds))"

definition show_double :: "double \<Rightarrow> string" where
  "show_double d =
     (if dbl_sign d then ''-'' else []) @
     (if dbl_nan d then ''nan''
      else if dbl_inf d then ''inf''
      else if dbl_magbits d = 0 then ''0''
      else let m = mb_mant (dbl_magbits d); e = mb_exp (dbl_magbits d);
               (q, x) = (if 1074 \<le> e then g6_digits (m * 2 ^ (e - 1074)) 1
                         else g6_digits m (2 ^ (1074 - e)))
           in g6_layout q x)"

lemmas show_double_eval [dbl_eval] =
  show_double_def g6_layout_def with_point_def strip_zeros_def g6_digits_def rne_div_def
  scale_down.simps scale_up.simps show_nat.simps digit_char_table replicate_numeral_eq

subsection \<open>Bit lengths and rounding\<close>

lemma bitlen_0 [simp]: "bitlen 0 = 0"
  by (simp add: bitlen.simps)

lemma bitlen_bounds: "0 < n \<Longrightarrow> 2 ^ (bitlen n - 1) \<le> n \<and> n < 2 ^ bitlen n"
proof (induction n rule: bitlen.induct)
  case (1 n)
  have len: "bitlen n = Suc (bitlen (n div 2))"
    using "1.prems" by (simp add: bitlen.simps [of n])
  show ?case
  proof (cases "n div 2 = 0")
    case True
    with "1.prems" have "n = 1" by simp
    then show ?thesis by (simp add: bitlen.simps)
  next
    case False
    with "1.IH" "1.prems"
    have lo: "2 ^ (bitlen (n div 2) - 1) \<le> n div 2" and hi: "n div 2 < 2 ^ bitlen (n div 2)"
      by auto
    from False have "0 < bitlen (n div 2)"
      by (simp add: bitlen.simps [of "n div 2"])
    then have "(2::nat) ^ bitlen (n div 2) = 2 * 2 ^ (bitlen (n div 2) - 1)"
      by (simp flip: power_Suc)
    moreover have "n = 2 * (n div 2) \<or> n = 2 * (n div 2) + 1" by presburger
    ultimately show ?thesis using lo hi by (simp add: len) linarith
  qed
qed

lemma bitlen_le: "n < 2 ^ k \<Longrightarrow> bitlen n \<le> k"
proof (rule ccontr)
  assume lt: "n < 2 ^ k" and "\<not> bitlen n \<le> k"
  then have k: "k \<le> bitlen n - 1" and "n \<noteq> 0" by (auto simp: not_le intro: gr0I)
  then have "(2::nat) ^ k \<le> 2 ^ (bitlen n - 1)" by (intro power_increasing) auto
  also have "\<dots> \<le> n" using bitlen_bounds [of n] \<open>n \<noteq> 0\<close> by simp
  finally show False using lt by simp
qed

lemma rne_exact: "2 ^ s dvd m \<Longrightarrow> rne m s = m div 2 ^ s"
  by (cases s) (auto simp: rne_def Let_def mod_eq_0_iff_dvd)

lemma mb_units_small: "k < 2 ^ 53 \<Longrightarrow> mb_units k = k"
proof (cases "k < 2 ^ 52")
  case False
  assume k: "k < 2 ^ 53"
  with False have "k div 2 ^ 52 = 1" by (intro div_nat_eqI) auto
  moreover from this have "k mod 2 ^ 52 = k - 2 ^ 52" by (simp add: modulo_nat_def)
  ultimately show ?thesis using False by (simp add: mb_units_def mb_mant_def mb_exp_def)
qed (simp add: mb_units_def mb_mant_def mb_exp_def)

lemma mb_units_norm:
  assumes "2 ^ 52 \<le> q" and "q < 2 ^ 53"
  shows "mb_units (x * 2 ^ 52 + q) = q * 2 ^ x"
proof -
  define r where "r = q - 2 ^ 52"
  have q: "q = 2 ^ 52 + r" and r: "r < 2 ^ 52" using assms by (simp_all add: r_def)
  have "x * 2 ^ 52 + q = (x + 1) * 2 ^ 52 + r" by (simp add: q algebra_simps)
  then have "(x * 2 ^ 52 + q) div 2 ^ 52 = x + 1" and "(x * 2 ^ 52 + q) mod 2 ^ 52 = r"
    using r by auto
  then show ?thesis by (simp add: mb_units_def mb_mant_def mb_exp_def q)
qed


lemma shift_less: "m < 2 ^ n \<Longrightarrow> n \<le> k \<Longrightarrow> m * 2 ^ (k - n) < 2 ^ k" for m :: nat
  using mult_less_mono1 [of m "2 ^ n" "2 ^ (k - n)"] by (simp flip: power_add)

lemma pack_mag_exact:
  assumes m: "0 < m" and dvd: "2 ^ (bitlen m - 53) dvd m"
  shows "mb_units (pack_mag m e) = m * 2 ^ e"
proof -
  define n where "n = bitlen m"
  from m have lo: "2 ^ (n - 1) \<le> m" and hi: "m < 2 ^ n"
    using bitlen_bounds [of m] by (auto simp: n_def)
  from m have n: "0 < n" by (simp add: n_def bitlen.simps)
  consider (sub) "n + e \<le> 53" | (norm) "\<not> n + e \<le> 53" "n \<le> 53" | (big) "53 < n" by linarith
  then show ?thesis
  proof cases
    case sub
    from hi have "m * 2 ^ e < 2 ^ (n + e)" by (simp add: power_add)
    also have "\<dots> \<le> (2::nat) ^ 53" using sub by (intro power_increasing) auto
    finally have "mb_units (m * 2 ^ e) = m * 2 ^ e" by (rule mb_units_small)
    with sub show ?thesis by (simp add: pack_mag_def Let_def n_def)
  next
    case norm
    have "(2::nat) ^ 52 = 2 ^ (n - 1) * 2 ^ (53 - n)" using norm n by (simp flip: power_add)
    then have "2 ^ 52 \<le> m * 2 ^ (53 - n)" using mult_le_mono1 [OF lo] by metis
    moreover have "m * 2 ^ (53 - n) < 2 ^ 53" using norm hi by (intro shift_less)
    ultimately have "mb_units ((e + n - 53) * 2 ^ 52 + m * 2 ^ (53 - n))
        = m * 2 ^ (53 - n) * 2 ^ (e + n - 53)" by (rule mb_units_norm)
    also have "\<dots> = m * 2 ^ e" using norm by (simp add: mult.assoc flip: power_add)
    finally show ?thesis using norm by (simp add: pack_mag_def Let_def n_def)
  next
    case big
    from dvd obtain q where q: "m = 2 ^ (n - 53) * q" by (auto simp: n_def)
    have "(2::nat) ^ (n - 1) = 2 ^ (n - 53) * 2 ^ 52"
      using big by (simp del: power_numeral flip: power_add)
    with lo q have "2 ^ 52 \<le> q" by simp
    moreover have "(2::nat) ^ n = 2 ^ (n - 53) * 2 ^ 53"
      using big by (simp del: power_numeral flip: power_add)
    with hi q have "q < 2 ^ 53" by simp
    ultimately have "mb_units ((e + (n - 53)) * 2 ^ 52 + q) = q * 2 ^ (e + (n - 53))"
      by (rule mb_units_norm)
    also have "\<dots> = m * 2 ^ e" by (simp add: q power_add)
    finally have "mb_units ((e + (n - 53)) * 2 ^ 52 + q) = m * 2 ^ e" .
    moreover have "rne m (n - 53) = m div 2 ^ (n - 53)"
      using dvd unfolding n_def by (rule rne_exact)
    then have "rne m (n - 53) = q" by (subst (asm) (2) q) simp
    moreover have "pack_mag m e = (e + (n - 53)) * 2 ^ 52 + rne m (n - 53)"
      using big unfolding pack_mag_def Let_def n_def [symmetric] by simp
    ultimately show ?thesis by simp
  qed
qed

lemma rne_le: "m < 2 ^ (s + 53) \<Longrightarrow> rne m s \<le> 2 ^ 53"
proof -
  assume "m < 2 ^ (s + 53)"
  then have "m div 2 ^ s < 2 ^ 53" by (simp add: less_mult_imp_div_less power_add mult.commute)
  then show ?thesis by (auto simp: rne_def Let_def)
qed

lemma pack_mag_bound:
  assumes "0 < m" and "m * 2 ^ e < 2 ^ (g + 53)"
  shows "pack_mag m e \<le> (g + 2) * 2 ^ 52"
proof -
  define n where "n = bitlen m"
  from assms(1) have lo: "2 ^ (n - 1) \<le> m" and hi: "m < 2 ^ n" and n: "0 < n"
    using bitlen_bounds [of m] by (auto simp: n_def bitlen.simps)
  have "(2::nat) ^ (n - 1 + e) \<le> m * 2 ^ e" using lo by (simp add: power_add)
  with assms(2) have "(2::nat) ^ (n - 1 + e) < 2 ^ (g + 53)" by linarith
  then have ge: "n + e \<le> g + 53" using n by simp
  consider (sub) "n + e \<le> 53" | (norm) "\<not> n + e \<le> 53" "n \<le> 53" | (big) "53 < n" by linarith
  then show ?thesis
  proof cases
    case sub
    from hi have "m * 2 ^ e < 2 ^ (n + e)" by (simp add: power_add)
    also have "\<dots> \<le> (2::nat) ^ 53" using sub by (intro power_increasing) auto
    finally show ?thesis using sub by (simp add: pack_mag_def Let_def n_def)
  next
    case norm
    have "m * 2 ^ (53 - n) < 2 ^ 53" using norm hi by (intro shift_less)
    moreover have "(e + n - 53) * 2 ^ 52 \<le> g * 2 ^ 52" using ge by simp
    ultimately show ?thesis using norm by (simp add: pack_mag_def Let_def n_def)
  next
    case big
    have "rne m (n - 53) \<le> 2 ^ 53" using big hi by (intro rne_le) simp
    moreover have "(e + (n - 53)) * 2 ^ 52 \<le> g * 2 ^ 52" using ge big by simp
    ultimately show ?thesis using big by (simp add: pack_mag_def Let_def n_def)
  qed
qed


subsection \<open>Exact addition on a binary grid\<close>

text \<open>\<open>on_grid g d\<close>: \<open>d\<close> is finite and a multiple of \<open>2^g\<close> units.\<close>

definition on_grid :: "nat \<Rightarrow> double \<Rightarrow> bool" where
  "on_grid g d = (dbl_finite d \<and> 2 ^ g dvd dbl_units d)"

lemma dnat_pack:
  "dnat (pack s m e) = (if s then 2 ^ 63 else 0) + min (pack_mag m e) (2047 * 2 ^ 52)"
proof -
  have "(if s then 2 ^ 63 else 0) + min (pack_mag m e) (2047 * 2 ^ 52) < (2::nat) ^ 64"
    by (auto simp: min_def)
  then show ?thesis
    unfolding pack_def Let_def double.sel unat_of_nat by (intro mod_less) simp
qed

lemma dbl_sign_pack [simp]: "dbl_sign (pack s m e) = s"
  by (auto simp: dbl_sign_def dnat_pack min_def)

lemma dbl_magbits_pack: "dbl_magbits (pack s m e) = min (pack_mag m e) (2047 * 2 ^ 52)"
  by (auto simp: dbl_magbits_def dnat_pack min_def mod_if)

lemma dbl_units_pack_exact:
  assumes "0 < m" and "2 ^ (bitlen m - 53) dvd m" and "m * 2 ^ e < 2 ^ (g + 53)" and "g < 2045"
  shows "dbl_finite (pack s m e)"
    and "dbl_units (pack s m e) = (if s then - int (m * 2 ^ e) else int (m * 2 ^ e))"
proof -
  have "pack_mag m e \<le> (g + 2) * 2 ^ 52" by (rule pack_mag_bound [OF assms(1,3)])
  with assms(4) have mb: "dbl_magbits (pack s m e) = pack_mag m e" and "pack_mag m e < 2047 * 2 ^ 52"
    by (simp_all add: dbl_magbits_pack)
  then show "dbl_finite (pack s m e)" by (simp add: dbl_finite_def)
  show "dbl_units (pack s m e) = (if s then - int (m * 2 ^ e) else int (m * 2 ^ e))"
    by (simp only: dbl_units_def mb dbl_sign_pack pack_mag_exact [OF assms(1,2)])
qed

lemma dbl_units_pack_zero [simp]: "dbl_units (pack s 0 0) = 0" "dbl_finite (pack s 0 0)"
  by (simp_all add: dbl_units_def dbl_finite_def dbl_magbits_pack pack_mag_def mb_units_def mb_mant_def)

lemma signed_mant_units:
  "e \<le> mb_exp (dbl_magbits d) \<Longrightarrow> signed_mant d e * 2 ^ e = dbl_units d"
  by (simp add: signed_mant_def Let_def dbl_units_def mb_units_def mult.assoc flip: power_add)

lemma add_finite_exact:
  assumes a: "on_grid g a" and b: "on_grid g b" and g: "g < 2045"
    and bound: "\<bar>dbl_units a + dbl_units b\<bar> < 2 ^ (g + 53)"
  shows "dbl_finite (add_finite a b) \<and> dbl_units (add_finite a b) = dbl_units a + dbl_units b"
proof -
  define e where "e = min (mb_exp (dbl_magbits a)) (mb_exp (dbl_magbits b))"
  define t where "t = signed_mant a e + signed_mant b e"
  have t: "t * 2 ^ e = dbl_units a + dbl_units b"
    using signed_mant_units [of e a] signed_mant_units [of e b]
    by (simp add: t_def e_def ring_distribs)
  show ?thesis
  proof (cases "t = 0")
    case True
    then have "add_finite a b = pack (dbl_sign a \<and> dbl_sign b) 0 0"
      by (simp add: add_finite_def Let_def t_def e_def)
    with True t show ?thesis by simp
  next
    case False
    define m where "m = nat \<bar>t\<bar>"
    have m: "0 < m" and tm: "\<bar>t\<bar> = int m" using False by (simp_all add: m_def)
    have "int (m * 2 ^ e) = \<bar>t * 2 ^ e\<bar>" by (simp add: tm [symmetric] abs_mult)
    with bound t have "int (m * 2 ^ e) < int (2 ^ (g + 53))" by simp
    then have lt: "m * 2 ^ e < 2 ^ (g + 53)" by (simp only: of_nat_less_iff)
    have "2 ^ (bitlen m - 53) dvd m"
    proof (cases "bitlen m \<le> 53")
      case big: False
      have "(2::nat) ^ (bitlen m - 1 + e) \<le> m * 2 ^ e"
        using bitlen_bounds [OF m] by (simp add: power_add)
      with lt have "(2::nat) ^ (bitlen m - 1 + e) < 2 ^ (g + 53)" by linarith
      then have ge: "bitlen m - 53 + e \<le> g" using big by simp
      have "2 ^ g dvd t * 2 ^ e" using a b by (simp add: t on_grid_def)
      then have "(2::int) ^ (bitlen m - 53 + e) dvd t * 2 ^ e"
        using ge by (meson dvd_trans le_imp_power_dvd)
      then have "(2::int) ^ (bitlen m - 53) dvd t" by (simp add: power_add)
      then have "int (2 ^ (bitlen m - 53)) dvd int m" by (simp add: tm [symmetric])
      then show ?thesis by (simp only: int_dvd_int_iff)
    qed simp
    from dbl_units_pack_exact [OF m this lt g, of "t < 0"]
    have "dbl_finite (pack (t < 0) m e) \<and> dbl_units (pack (t < 0) m e) = t * 2 ^ e"
      using tm by (cases "t < 0") (auto simp: minus_equation_iff [of t])
    moreover have "add_finite a b = pack (t < 0) m e"
      using False by (simp add: add_finite_def Let_def t_def e_def m_def)
    ultimately show ?thesis using t by simp
  qed
qed

lemma on_grid_not_special: "on_grid g d \<Longrightarrow> \<not> dbl_nan d \<and> \<not> dbl_inf d"
  by (simp add: on_grid_def dbl_finite_def dbl_nan_def dbl_inf_def)

lemma dbl_add_exact:
  assumes "on_grid g a" and "on_grid g b" and "g < 2045"
    and "\<bar>dbl_units a + dbl_units b\<bar> < 2 ^ (g + 53)"
  shows "on_grid g (dbl_add a b)" and "dbl_units (dbl_add a b) = dbl_units a + dbl_units b"
proof -
  have "dbl_add a b = add_finite a b"
    using assms(1,2) by (simp add: dbl_add_def on_grid_not_special)
  with add_finite_exact [OF assms] assms(1,2)
  show "on_grid g (dbl_add a b)" and "dbl_units (dbl_add a b) = dbl_units a + dbl_units b"
    by (auto simp: on_grid_def)
qed


lemma dnat_flip: "dnat (dbl_flip d) = (if dbl_sign d then dnat d - 2 ^ 63 else dnat d + 2 ^ 63)"
proof -
  have b: "dnat d < 2 ^ 64" using unsigned_less [of "dbits d", where 'a = nat] by simp
  have "dnat (dbl_flip d) = (dnat d + 2 ^ 63) mod 2 ^ 64"
    by (simp add: dbl_flip_def unat_word_ariths)
  then show ?thesis using b
    by (cases "dbl_sign d") (auto simp: dbl_sign_def mod_if)
qed

lemma dbl_flip_simps [simp]:
  "dbl_sign (dbl_flip d) = (\<not> dbl_sign d)"
  "dbl_magbits (dbl_flip d) = dbl_magbits d"
proof -
  have b: "dnat d < 2 ^ 64" using unsigned_less [of "dbits d", where 'a = nat] by simp
  then show "dbl_sign (dbl_flip d) = (\<not> dbl_sign d)"
    unfolding dbl_sign_def dnat_flip by auto
  show "dbl_magbits (dbl_flip d) = dbl_magbits d"
    using b unfolding dbl_magbits_def dnat_flip by (auto simp: dbl_sign_def mod_if)
qed

lemma dbl_flip_units [simp]:
  "dbl_units (dbl_flip d) = - dbl_units d"
  "dbl_finite (dbl_flip d) = dbl_finite d"
  by (simp_all add: dbl_units_def dbl_finite_def)

lemma on_grid_flip [simp]: "on_grid g (dbl_flip d) = on_grid g d"
  by (simp add: on_grid_def)

lemma dbl_times_minus1_exact:
  assumes "on_grid g d"
  shows "on_grid g (dbl_times_minus1 d)" and "dbl_units (dbl_times_minus1 d) = - dbl_units d"
  using assms by (simp_all add: dbl_times_minus1_def on_grid_not_special)

lemma dbl_sub_exact:
  assumes "on_grid g a" and "on_grid g b" and "g < 2045"
    and "\<bar>dbl_units a - dbl_units b\<bar> < 2 ^ (g + 53)"
  shows "on_grid g (dbl_sub a b)" and "dbl_units (dbl_sub a b) = dbl_units a - dbl_units b"
proof -
  have "dbl_sub a b = dbl_add a (dbl_flip b)"
    using assms(2) by (simp add: dbl_sub_def on_grid_not_special)
  with dbl_add_exact [of g a "dbl_flip b"] assms
  show "on_grid g (dbl_sub a b)" and "dbl_units (dbl_sub a b) = dbl_units a - dbl_units b"
    by simp_all
qed

lemma on_grid_zero [simp]: "on_grid g dbl_zero" "dbl_units dbl_zero = 0"
  by (simp_all add: on_grid_def dbl_zero_def dbl_finite_def dbl_units_def dbl_magbits_def
      dbl_sign_def mb_units_def mb_mant_def)

text \<open>
  A running sum over grid values is exact as long as every partial sum fits; for non-negative
  amounts it is enough that the total does.
\<close>

lemma dbl_fold_exact:
  assumes "\<And>d. d \<in> set ds \<Longrightarrow> on_grid g d \<and> 0 \<le> dbl_units d" and "on_grid g acc"
    and "0 \<le> dbl_units acc" and "g < 2045"
    and "dbl_units acc + (\<Sum>d\<leftarrow>ds. dbl_units d) < 2 ^ (g + 53)"
  shows "on_grid g (fold (\<lambda>d acc. dbl_add acc d) ds acc) \<and>
    dbl_units (fold (\<lambda>d acc. dbl_add acc d) ds acc) = dbl_units acc + (\<Sum>d\<leftarrow>ds. dbl_units d)"
  using assms
proof (induction ds arbitrary: acc)
  case Nil
  then show ?case by simp
next
  case (Cons d ds)
  have rest: "0 \<le> (\<Sum>d\<leftarrow>ds. dbl_units d)"
    using Cons.prems(1) by (intro sum_list_nonneg) auto
  with Cons.prems have "\<bar>dbl_units acc + dbl_units d\<bar> < 2 ^ (g + 53)" by auto
  with Cons.prems dbl_add_exact [of g acc d]
  have "on_grid g (dbl_add acc d)" and "dbl_units (dbl_add acc d) = dbl_units acc + dbl_units d"
    by auto
  with Cons.prems show ?case by (simp add: Cons.IH)
qed

subsection \<open>Comparison agrees with the order of values\<close>

lemma dbl_sum_exact:
  assumes "\<forall>d \<in> set ds. on_grid g d" and "g < 2045" and "(\<Sum>d\<leftarrow>ds. \<bar>dbl_units d\<bar>) < 2 ^ (g + 53)"
  shows "on_grid g (dbl_sum ds) \<and> dbl_units (dbl_sum ds) = (\<Sum>d\<leftarrow>ds. dbl_units d)"
  using assms(1,3)
proof (induction ds rule: rev_induct)
  case Nil
  show ?case by (simp add: dbl_sum_def)
next
  case (snoc d ds)
  then have IH: "on_grid g (dbl_sum ds)" "dbl_units (dbl_sum ds) = (\<Sum>d\<leftarrow>ds. dbl_units d)" by auto
  have "\<bar>\<Sum>d\<leftarrow>ds. dbl_units d\<bar> \<le> (\<Sum>d\<leftarrow>ds. \<bar>dbl_units d\<bar>)"
    using sum_list_abs [of "map dbl_units ds"] by (simp add: comp_def)
  with snoc.prems IH have "\<bar>dbl_units (dbl_sum ds) + dbl_units d\<bar> < 2 ^ (g + 53)" by auto
  then show ?case
    using dbl_add_exact [OF IH(1) _ assms(2), of d] snoc.prems IH by (simp add: dbl_sum_def)
qed

lemma mb_units_Suc: "mb_units k < mb_units (Suc k)"
proof (cases "k < 2 ^ 53 - 1")
  case True
  then show ?thesis by (simp add: mb_units_small)
next
  case False
  define x r where "x = k div 2 ^ 52 - 1" and "r = k mod 2 ^ 52"
  have "1 \<le> k div 2 ^ 52" using False by simp
  then have k: "k = x * 2 ^ 52 + (2 ^ 52 + r)"
    using div_mult_mod_eq [of k "2 ^ 52"] by (simp add: x_def r_def algebra_simps)
  have r: "r < 2 ^ 52" by (simp add: r_def)
  then have u: "mb_units k = (2 ^ 52 + r) * 2 ^ x" unfolding k by (intro mb_units_norm) auto
  show ?thesis
  proof (cases "Suc r < 2 ^ 52")
    case True
    have "mb_units (x * 2 ^ 52 + (2 ^ 52 + Suc r)) = (2 ^ 52 + Suc r) * 2 ^ x"
      using True by (intro mb_units_norm) auto
    moreover have "Suc k = x * 2 ^ 52 + (2 ^ 52 + Suc r)" by (simp add: k)
    ultimately have "mb_units (Suc k) = (2 ^ 52 + Suc r) * 2 ^ x" by (simp only:)
    then show ?thesis unfolding u by simp
  next
    case False
    with r have re: "Suc r = 2 ^ 52" by simp
    have "mb_units (Suc x * 2 ^ 52 + 2 ^ 52) = 2 ^ 52 * 2 ^ Suc x" by (intro mb_units_norm) auto
    moreover have "Suc k = Suc x * 2 ^ 52 + 2 ^ 52" using re by (simp add: k)
    ultimately show ?thesis using r unfolding u by simp
  qed
qed

lemma mb_units_strict_mono: "strict_mono mb_units"
  by (rule strict_mono_Suc_iff [THEN iffD2]) (simp add: mb_units_Suc)

lemma mb_units_less_iff [simp]: "mb_units j < mb_units k \<longleftrightarrow> j < k"
  by (rule strict_mono_less [OF mb_units_strict_mono])

lemma mb_units_le_iff [simp]: "mb_units j \<le> mb_units k \<longleftrightarrow> j \<le> k"
  by (rule strict_mono_less_eq [OF mb_units_strict_mono])

lemma mb_units_0 [simp]: "mb_units 0 = 0"
  by (simp add: mb_units_small)

lemma mb_units_eq_0_iff [simp]: "mb_units k = 0 \<longleftrightarrow> k = 0"
  using mb_units_le_iff [of k 0] by simp

lemma dbl_key_less_iff: "dbl_key a < dbl_key b \<longleftrightarrow> dbl_units a < dbl_units b"
proof -
  have pos: "- int (mb_units j) < int (mb_units k) \<longleftrightarrow> 0 < j \<or> 0 < k" for j k
    using mb_units_eq_0_iff [of j] mb_units_eq_0_iff [of k] by linarith
  show ?thesis
    by (auto simp: dbl_key_def dbl_units_def pos)
qed

lemma dbl_lt_iff: "on_grid g a \<Longrightarrow> on_grid g' b \<Longrightarrow> dbl_lt a b \<longleftrightarrow> dbl_units a < dbl_units b"
  by (simp add: dbl_lt_def on_grid_not_special dbl_key_less_iff)

lemma dbl_ge_iff: "on_grid g a \<Longrightarrow> on_grid g' b \<Longrightarrow> dbl_ge a b \<longleftrightarrow> dbl_units b \<le> dbl_units a"
  by (simp add: dbl_ge_def on_grid_not_special dbl_key_less_iff flip: not_less)

subsection \<open>Integer amounts\<close>

text \<open>Nonzero doubles are determined by their value; integers below \<open>2^53\<close> are added exactly.\<close>

lemma dbl_units_inj:
  assumes "dbl_units a = dbl_units b" and "dbl_units a \<noteq> 0"
  shows "a = b"
proof -
  have mono: "mb_units j = mb_units k \<longleftrightarrow> j = k" for j k
    using strict_mono_eq [OF mb_units_strict_mono] .
  have neg: "int j = - int k \<longleftrightarrow> j = 0 \<and> k = 0" "- int k = int j \<longleftrightarrow> j = 0 \<and> k = 0" for j k by auto
  have "dbl_sign a = dbl_sign b" and "dbl_magbits a = dbl_magbits b"
    using assms by (auto simp: dbl_units_def mono neg split: if_splits)
  moreover have "dnat d = dbl_magbits d + (if dbl_sign d then 2 ^ 63 else 0)" for d
    using unsigned_less [of "dbits d", where 'a = nat]
    by (auto simp: dbl_sign_def dbl_magbits_def mod_if)
  ultimately have "dnat a = dnat b" by metis
  then show ?thesis by (cases a; cases b) (simp add: word_unat_eq_iff)
qed

text \<open>The units of 1.0.\<close>

definition one_units :: int where
  "one_units = 2 ^ 1074"

lemma one_units_pos [simp]: "0 < one_units" "one_units \<noteq> 0" "0 \<le> one_units"
  by (simp_all add: one_units_def)

lemma scaled_less: "n < 2 ^ 53 \<Longrightarrow> int n * one_units < 2 ^ (1074 + 53)"
  by (simp add: power_add one_units_def)

lemma dbl_of_nat_exact:
  assumes "n < 2 ^ 53"
  shows "on_grid 1074 (dbl_of_nat n)" and "dbl_units (dbl_of_nat n) = int n * one_units"
proof -
  have "dbl_finite (dbl_of_nat n) \<and> dbl_units (dbl_of_nat n) = int n * one_units"
  proof (cases "n = 0")
    case True
    then show ?thesis using on_grid_zero(1) [of 0] by (simp add: dbl_of_nat_def on_grid_def)
  next
    case False
    have "n * 2 ^ 1074 < 2 ^ (1074 + 53)" using assms by (simp add: power_add)
    moreover have "bitlen n - 53 = 0" using bitlen_le [OF assms] by simp
    ultimately show ?thesis
      using dbl_units_pack_exact [of n 1074 1074 False] False by (simp add: dbl_of_nat_def one_units_def)
  qed
  then show "on_grid 1074 (dbl_of_nat n)" and "dbl_units (dbl_of_nat n) = int n * one_units"
    by (simp_all add: on_grid_def one_units_def)
qed

lemma dbl_add_of_nat:
  assumes "m + n < 2 ^ 53"
  shows "dbl_add (dbl_of_nat m) (dbl_of_nat n) = dbl_of_nat (m + n)"
proof (cases "m + n = 0")
  case True
  then show ?thesis by (simp add: dbl_eval)
next
  case False
  have mn: "m < 2 ^ 53" "n < 2 ^ 53" using assms by simp_all
  have "dbl_units (dbl_of_nat m) + dbl_units (dbl_of_nat n) = int (m + n) * one_units"
    using mn by (simp add: dbl_of_nat_exact distrib_right)
  moreover from this have "\<bar>dbl_units (dbl_of_nat m) + dbl_units (dbl_of_nat n)\<bar> < 2 ^ (1074 + 53)"
    using scaled_less [OF assms] by simp
  ultimately have "dbl_units (dbl_add (dbl_of_nat m) (dbl_of_nat n)) = int (m + n) * one_units"
    using dbl_add_exact(2) [of 1074 "dbl_of_nat m" "dbl_of_nat n"] mn by (simp add: dbl_of_nat_exact(1))
  then show ?thesis
    using False by (intro dbl_units_inj) (simp_all only: dbl_of_nat_exact(2) [OF assms], auto)
qed

lemma dbl_cmp_of_nat:
  assumes "m < 2 ^ 53" and "n < 2 ^ 53"
  shows "dbl_lt (dbl_of_nat m) (dbl_of_nat n) \<longleftrightarrow> m < n" and "dbl_ge (dbl_of_nat m) (dbl_of_nat n) \<longleftrightarrow> n \<le> m"
  using assms dbl_lt_iff [OF dbl_of_nat_exact(1) dbl_of_nat_exact(1), of m n]
    dbl_ge_iff [OF dbl_of_nat_exact(1) dbl_of_nat_exact(1), of m n]
  by (simp_all add: dbl_of_nat_exact(2))

lemma dbl_zero_of_nat: "dbl_zero = dbl_of_nat 0"
  by (simp add: dbl_of_nat_def)

lemma dbl_sum_of_nat: "sum_list ns < 2 ^ 53 \<Longrightarrow> dbl_sum (map dbl_of_nat ns) = dbl_of_nat (sum_list ns)"
  by (induction ns rule: rev_induct) (simp_all add: dbl_sum_def dbl_zero_of_nat dbl_add_of_nat)

end
