(* ===== verification/Ash_Json.thy ===== *)
theory Ash_Json
  imports Ash_Double
begin

section \<open>The JSON library as an interface\<close>

text \<open>
  JSON values are those of the library nlohmann::json, which is not part of the repository. What
  the source calls of it is the record \<open>json_lib\<close> over an abstract type of JSON values, an argument
  of every definition that reads or writes JSON. The locale \<open>json_library\<close> states the documented
  behaviour the source relies on: assigning a key and reading it back, appending to an array and
  iterating over it, and storing and retrieving numbers, booleans and strings in memory.

  The locale \<open>json_pair\<close> is the contract of a pair \<^verbatim>\<open>to_json\<close>/\<^verbatim>\<open>from_json\<close>; its lemma lifts
  the pair to the \<^verbatim>\<open>std::vector\<close> loops that the source repeats for every element type.
  At the end the interface is interpreted on a concrete type of JSON values with objects as
  association lists.
\<close>

datatype jtype =
    JT_null | JT_boolean | JT_number_integer | JT_number_unsigned | JT_number_float
  | JT_string | JT_array | JT_object

text \<open>
  \<open>j_set j k v\<close> is \<^verbatim>\<open>j[k] = v\<close>, \<open>j_at j k\<close> the read \<^verbatim>\<open>j[k]\<close> of a constant value (an error when the
  key is absent or \<open>j\<close> is no object), \<open>j_items j\<close> the values that \<^verbatim>\<open>j.items()\<close> runs through,
  \<open>j_get_u64\<close> and its companions the conversions \<^verbatim>\<open>get<T>()\<close>, which throw a type error.
\<close>

record 'j json_lib =
  j_null :: 'j
  j_type :: "'j \<Rightarrow> jtype"
  j_of_u64 :: "u64 \<Rightarrow> 'j"
  j_of_i32 :: "32 word \<Rightarrow> 'j"
  j_of_bool :: "bool \<Rightarrow> 'j"
  j_of_double :: "double \<Rightarrow> 'j"
  j_of_string :: "string \<Rightarrow> 'j"
  j_set :: "'j \<Rightarrow> string \<Rightarrow> 'j \<Rightarrow> 'j"
  j_contains :: "'j \<Rightarrow> string \<Rightarrow> bool"
  j_at :: "'j \<Rightarrow> string \<Rightarrow> 'j result"
  j_push :: "'j \<Rightarrow> 'j \<Rightarrow> 'j"
  j_items :: "'j \<Rightarrow> 'j list"
  j_get_u64 :: "'j \<Rightarrow> u64 result"
  j_get_bool :: "'j \<Rightarrow> bool result"
  j_get_double :: "'j \<Rightarrow> double result"
  j_get_string :: "'j \<Rightarrow> string result"
  j_dump :: "'j \<Rightarrow> string"

text \<open>Reading a member and converting it: \<^verbatim>\<open>j[k].get_to(x)\<close>.\<close>

definition at_get :: "('j, 'b) json_lib_scheme \<Rightarrow> ('j \<Rightarrow> 'a result) \<Rightarrow> 'j \<Rightarrow> string \<Rightarrow> 'a result" where
  "at_get J get j k = rbind (j_at J j k) get"

text \<open>A sequence of assignments \<^verbatim>\<open>j[k] = v\<close> to a fresh value.\<close>

definition set_all :: "('j, 'b) json_lib_scheme \<Rightarrow> (string \<times> 'j) list \<Rightarrow> 'j" where
  "set_all J kvs = fold (\<lambda>(k, v) j. j_set J j k v) kvs (j_null J)"

text \<open>The two loops of the source over vectors: \<^verbatim>\<open>push_back\<close> of every element into a fresh
  value, and \<^verbatim>\<open>get<T>()\<close> of every item.\<close>

definition push_all :: "('j, 'b) json_lib_scheme \<Rightarrow> ('a \<Rightarrow> 'j) \<Rightarrow> 'a list \<Rightarrow> 'j" where
  "push_all J to_j xs = fold (\<lambda>x j. j_push J j (to_j x)) xs (j_null J)"

definition items_get :: "('j, 'b) json_lib_scheme \<Rightarrow> ('j \<Rightarrow> 'a result) \<Rightarrow> 'j \<Rightarrow> 'a list result" where
  "items_get J from_j j = rmap from_j (j_items J j)"

subsection \<open>The documented laws\<close>

locale json_library =
  fixes J :: "('j, 'b) json_lib_scheme"
  assumes type_null: "j_type J (j_null J) = JT_null"
    and type_set: "j_type J j \<in> {JT_null, JT_object} \<Longrightarrow> j_type J (j_set J j k v) = JT_object"
    and type_u64: "j_type J (j_of_u64 J n) = JT_number_unsigned"
    and type_push: "j_type J j \<in> {JT_null, JT_array} \<Longrightarrow> j_type J (j_push J j v) = JT_array"
    and contains_null: "\<not> j_contains J (j_null J) k"
    and contains_set: "j_type J j \<in> {JT_null, JT_object} \<Longrightarrow>
      j_contains J (j_set J j k v) k' \<longleftrightarrow> k = k' \<or> j_contains J j k'"
    and at_set: "j_type J j \<in> {JT_null, JT_object} \<Longrightarrow> j_at J (j_set J j k v) k = Ok v"
    and at_set_other: "j_type J j \<in> {JT_null, JT_object} \<Longrightarrow> k \<noteq> k' \<Longrightarrow> j_contains J j k' \<Longrightarrow>
      j_at J (j_set J j k v) k' = j_at J j k'"
    and items_null: "j_items J (j_null J) = []"
    and items_push: "j_type J j \<in> {JT_null, JT_array} \<Longrightarrow> j_items J (j_push J j v) = j_items J j @ [v]"
    and get_u64: "j_get_u64 J (j_of_u64 J n) = Ok n"
    and get_bool: "j_get_bool J (j_of_bool J b) = Ok b"
    and get_double: "j_get_double J (j_of_double J d) = Ok d"
    and get_string: "j_get_string J (j_of_string J s) = Ok s"
begin

lemma set_all_type: "j_type J (set_all J kvs) \<in> {JT_null, JT_object}"
  by (induction kvs rule: rev_induct) (auto simp: set_all_def type_null type_set)

lemma set_all_snoc: "set_all J (kvs @ [(k, v)]) = j_set J (set_all J kvs) k v"
  by (simp add: set_all_def)

lemma contains_set_all [simp]: "j_contains J (set_all J kvs) k \<longleftrightarrow> k \<in> fst ` set kvs"
proof (induction kvs rule: rev_induct)
  case (snoc kv kvs)
  then show ?case
    using contains_set [OF set_all_type] by (cases kv) (auto simp: set_all_snoc)
qed (simp add: set_all_def contains_null)

lemma at_set_all:
  "map_of (rev kvs) k = Some v \<Longrightarrow> j_at J (set_all J kvs) k = Ok v"
proof (induction kvs rule: rev_induct)
  case (snoc kv kvs)
  obtain k' v' where kv: "kv = (k', v')" by fastforce
  show ?case
  proof (cases "k' = k")
    case True
    with snoc.prems show ?thesis by (simp add: kv set_all_snoc at_set [OF set_all_type])
  next
    case False
    with snoc.prems have "map_of (rev kvs) k = Some v" by (simp add: kv)
    moreover from this have "j_contains J (set_all J kvs) k"
      by (force dest: map_of_SomeD)
    ultimately show ?thesis
      using False snoc.IH by (simp add: kv set_all_snoc at_set_other [OF set_all_type])
  qed
qed simp

lemma items_fold_push:
  "j_type J j \<in> {JT_null, JT_array} \<Longrightarrow>
   j_items J (fold (\<lambda>x j. j_push J j (to_j x)) xs j) = j_items J j @ map to_j xs"
proof (induction xs arbitrary: j)
  case (Cons x xs)
  then have "j_type J (j_push J j (to_j x)) = JT_array" by (intro type_push)
  with Cons show ?case by (simp add: items_push)
qed simp

lemma items_push_all [simp]: "j_items J (push_all J to_j xs) = map to_j xs"
  by (simp add: push_all_def items_fold_push items_null type_null)

lemma type_push_all:
  "j_type J (push_all J to_j xs) = (if xs = [] then JT_null else JT_array)"
proof -
  have arr: "j_type J j = JT_array \<Longrightarrow> j_type J (fold (\<lambda>x j. j_push J j (to_j x)) xs j) = JT_array"
    for j xs
    by (induction xs arbitrary: j) (simp_all add: type_push)
  show ?thesis
    by (cases xs) (simp_all add: push_all_def arr type_push type_null)
qed

lemmas get_simps [simp] = get_u64 get_bool get_double get_string

end

subsection \<open>Conversion pairs\<close>

locale json_pair = json_library J for J :: "('j, 'b) json_lib_scheme" +
  fixes to_j :: "'a \<Rightarrow> 'j" and from_j :: "'j \<Rightarrow> 'a result"
  assumes from_to: "from_j (to_j x) = Ok x"
begin

lemma vector_roundtrip: "items_get J from_j (push_all J to_j xs) = Ok xs"
proof -
  have "rmap from_j (map to_j xs) = Ok xs"
    by (induction xs) (simp_all add: from_to)
  then show ?thesis by (simp add: items_get_def)
qed

end

subsection \<open>A concrete instance\<close>

datatype jval =
    JNull | JBool bool | JInt "32 word" | JUInt u64 | JFloat double | JStr string
  | JArr "jval list" | JObj "(string \<times> jval) list"

fun jval_type :: "jval \<Rightarrow> jtype" where
  "jval_type JNull = JT_null"
| "jval_type (JBool b) = JT_boolean"
| "jval_type (JInt i) = JT_number_integer"
| "jval_type (JUInt n) = JT_number_unsigned"
| "jval_type (JFloat d) = JT_number_float"
| "jval_type (JStr s) = JT_string"
| "jval_type (JArr xs) = JT_array"
| "jval_type (JObj kvs) = JT_object"

fun alist_set :: "'k \<Rightarrow> 'v \<Rightarrow> ('k \<times> 'v) list \<Rightarrow> ('k \<times> 'v) list" where
  "alist_set k v [] = [(k, v)]"
| "alist_set k v ((k', v') # kvs) = (if k = k' then (k, v) # kvs else (k', v') # alist_set k v kvs)"

fun jval_set :: "jval \<Rightarrow> string \<Rightarrow> jval \<Rightarrow> jval" where
  "jval_set (JObj kvs) k v = JObj (alist_set k v kvs)"
| "jval_set JNull k v = JObj [(k, v)]"
| "jval_set j k v = j"

fun jval_contains :: "jval \<Rightarrow> string \<Rightarrow> bool" where
  "jval_contains (JObj kvs) k = (map_of kvs k \<noteq> None)"
| "jval_contains j k = False"

fun jval_at :: "jval \<Rightarrow> string \<Rightarrow> jval result" where
  "jval_at (JObj kvs) k = (case map_of kvs k of None \<Rightarrow> Err UndefinedBehaviour | Some v \<Rightarrow> Ok v)"
| "jval_at j k = Err JsonTypeError"

fun jval_push :: "jval \<Rightarrow> jval \<Rightarrow> jval" where
  "jval_push (JArr xs) v = JArr (xs @ [v])"
| "jval_push JNull v = JArr [v]"
| "jval_push j v = j"

fun jval_items :: "jval \<Rightarrow> jval list" where
  "jval_items JNull = []"
| "jval_items (JArr xs) = xs"
| "jval_items (JObj kvs) = map snd kvs"
| "jval_items j = [j]"

fun jval_get_u64 :: "jval \<Rightarrow> u64 result" where
  "jval_get_u64 (JUInt n) = Ok n"
| "jval_get_u64 (JInt i) = Ok (scast i)"
| "jval_get_u64 j = Err JsonTypeError"

fun jval_get_bool :: "jval \<Rightarrow> bool result" where
  "jval_get_bool (JBool b) = Ok b"
| "jval_get_bool j = Err JsonTypeError"

fun jval_get_double :: "jval \<Rightarrow> double result" where
  "jval_get_double (JFloat d) = Ok d"
| "jval_get_double (JUInt n) = Ok (dbl_of_nat (unat n))"
| "jval_get_double j = Err JsonTypeError"

fun jval_get_string :: "jval \<Rightarrow> string result" where
  "jval_get_string (JStr s) = Ok s"
| "jval_get_string j = Err JsonTypeError"

definition sep_by :: "string \<Rightarrow> string list \<Rightarrow> string" where
  "sep_by sep ss = (case ss of [] \<Rightarrow> [] | x # xs \<Rightarrow> x @ concat (map (\<lambda>y. sep @ y) xs))"

definition quoted :: "string \<Rightarrow> string" where
  "quoted s = CHR 0x22 # s @ [CHR 0x22]"

fun jval_dump :: "jval \<Rightarrow> string" where
  "jval_dump JNull = ''null''"
| "jval_dump (JBool b) = (if b then ''true'' else ''false'')"
| "jval_dump (JInt i) = show_int (sint i)"
| "jval_dump (JUInt n) = show_u64 n"
| "jval_dump (JFloat d) = show_double d"
| "jval_dump (JStr s) = quoted s"
| "jval_dump (JArr xs) = ''['' @ sep_by '','' (map jval_dump xs) @ '']''"
| "jval_dump (JObj kvs) = ''{'' @ sep_by '','' (map (\<lambda>(k, v). quoted k @ '':'' @ jval_dump v) kvs) @ ''}''"

definition jval_lib :: "jval json_lib" where
  "jval_lib =
     \<lparr>j_null = JNull, j_type = jval_type, j_of_u64 = JUInt, j_of_i32 = JInt, j_of_bool = JBool,
      j_of_double = JFloat, j_of_string = JStr, j_set = jval_set, j_contains = jval_contains,
      j_at = jval_at, j_push = jval_push, j_items = jval_items, j_get_u64 = jval_get_u64,
      j_get_bool = jval_get_bool, j_get_double = jval_get_double, j_get_string = jval_get_string,
      j_dump = jval_dump\<rparr>"

lemma map_of_alist_set: "map_of (alist_set k v kvs) = (map_of kvs)(k \<mapsto> v)"
  by (induction kvs) (auto simp: fun_eq_iff)

lemma jval_type_iff:
  "jval_type j = JT_null \<longleftrightarrow> j = JNull"
  "jval_type j = JT_object \<longleftrightarrow> (\<exists>kvs. j = JObj kvs)"
  "jval_type j = JT_array \<longleftrightarrow> (\<exists>xs. j = JArr xs)"
  by (cases j; simp)+

lemma json_library_jval: "json_library jval_lib"
  by unfold_locales
    (auto simp: jval_lib_def map_of_alist_set jval_type_iff split: if_splits option.splits)

interpretation jval: json_library jval_lib
  by (rule json_library_jval)

subsection \<open>The parser\<close>

text \<open>
  The JSON library with its parser. \<open>j_parse s\<close> is nothing for a text that is not valid JSON:
  the parser then throws, or yields a discarded value, as the caller asked.
\<close>

record 'j json_wire = "'j json_lib" +
  j_parse :: "string \<Rightarrow> 'j option"

text \<open>The concrete JSON values with a given parser.\<close>

definition jval_wire :: "(string \<Rightarrow> jval option) \<Rightarrow> jval json_wire" where
  "jval_wire p =
     \<lparr>j_null = JNull, j_type = jval_type, j_of_u64 = JUInt, j_of_i32 = JInt, j_of_bool = JBool,
      j_of_double = JFloat, j_of_string = JStr, j_set = jval_set, j_contains = jval_contains,
      j_at = jval_at, j_push = jval_push, j_items = jval_items, j_get_u64 = jval_get_u64,
      j_get_bool = jval_get_bool, j_get_double = jval_get_double, j_get_string = jval_get_string,
      j_dump = jval_dump, j_parse = p\<rparr>"

lemma json_library_wire: "json_library (jval_wire p)"
  by unfold_locales
    (auto simp: jval_wire_def map_of_alist_set jval_type_iff split: if_splits option.splits)

lemmas jval_wire_fields = jval_wire_def jval_lib_def

definition j_is_number :: "('j, 'b) json_lib_scheme \<Rightarrow> 'j \<Rightarrow> bool" where
  "j_is_number J j = (j_type J j \<in> {JT_number_integer, JT_number_unsigned, JT_number_float})"

end
