(* ===== verification/Ash_Crypto.thy ===== *)
theory Ash_Crypto
  imports Ash_Prelude
begin

section \<open>Hashes, keys and addresses\<close>

text \<open>
  \<^verbatim>\<open>src/src/CryptoUtils.cpp\<close>. The Crypto++ library is not part of the repository: what the
  source calls of it is the record \<open>cryptopp\<close>, an argument of every definition that uses it. The
  functions of \<^verbatim>\<open>CryptoUtils.cpp\<close> itself (the hashing pipelines, the base-58 encoding, the
  formatting of public keys and the construction of an address) are definitions over it.
  The main results are that base-58 encoding is invertible and canonical, and that addresses
  and public keys have the documented shape.
\<close>

text \<open>
  Bytes are characters. \<open>cp_hex_encode\<close> is \<^verbatim>\<open>HexEncoder\<close> in lower case, \<open>cp_show_hex\<close> the text
  \<^verbatim>\<open>operator<<\<close> writes for an \<^verbatim>\<open>Integer\<close> under \<^verbatim>\<open>std::hex\<close> (the digits followed by a suffix
  \<^verbatim>\<open>h\<close>), \<open>cp_integer\<close> the constructor of \<^verbatim>\<open>Integer\<close> from such text, and \<open>cp_public_point\<close> the
  point of curve secp256k1 for a private exponent.
\<close>

record cryptopp =
  cp_sha256 :: "string \<Rightarrow> string"
  cp_ripemd160 :: "string \<Rightarrow> string"
  cp_hex_encode :: "string \<Rightarrow> string"
  cp_hex_decode :: "string \<Rightarrow> string"
  cp_integer_decode :: "string \<Rightarrow> nat"
  cp_public_point :: "nat \<Rightarrow> nat \<times> nat"
  cp_show_hex :: "nat \<Rightarrow> string"
  cp_integer :: "string \<Rightarrow> nat"

definition SHA256 :: "cryptopp \<Rightarrow> string \<Rightarrow> string" where
  "SHA256 cp data = cp_hex_encode cp (cp_sha256 cp data)"

definition SHA256HexString :: "cryptopp \<Rightarrow> string \<Rightarrow> string" where
  "SHA256HexString cp data = cp_hex_encode cp (cp_sha256 cp (cp_hex_decode cp data))"

definition RIPEMD160HexString :: "cryptopp \<Rightarrow> string \<Rightarrow> string" where
  "RIPEMD160HexString cp data = cp_hex_encode cp (cp_ripemd160 cp (cp_hex_decode cp data))"

subsection \<open>Base 58\<close>

definition base_count :: nat where
  "base_count = 58"

definition base58Alphabet :: string where
  "base58Alphabet = ''123456789ABCDEFGHJKLMNPQRSTUVWXYZabcdefghijkmnopqrstuvwxyz''"

text \<open>The loop of \<^verbatim>\<open>Base58Encode\<close>, with the text collected so far as its accumulator.\<close>

function Base58Encode_loop :: "nat \<Rightarrow> string \<Rightarrow> string" where
  "Base58Encode_loop num encoded =
     (if base_count \<le> num
      then let dv = num div base_count; md = num - base_count * dv
           in Base58Encode_loop dv ((base58Alphabet ! md) # encoded)
      else (base58Alphabet ! num) # encoded)"
  by pat_completeness auto
termination
  by (relation "measure fst") (auto simp: base_count_def)

declare Base58Encode_loop.simps [simp del]

definition Base58Encode :: "nat \<Rightarrow> string" where
  "Base58Encode num = Base58Encode_loop num []"

subsection \<open>Keys and addresses\<close>

text \<open>\<^verbatim>\<open>fmt::format("{:0>64}", s)\<close>: padded with zeros on the left to 64 characters.\<close>

definition pad64 :: "string \<Rightarrow> string" where
  "pad64 s = replicate (64 - length s) (CHR ''0'') @ s"

definition GetPublicKey :: "cryptopp \<Rightarrow> string \<Rightarrow> string" where
  "GetPublicKey cp privateKeyStr =
     (let x = cp_integer_decode cp (cp_hex_decode cp privateKeyStr);
          (px, py) = cp_public_point cp x;
          qx = pad64 (butlast (cp_show_hex cp px));
          qy = pad64 (butlast (cp_show_hex cp py))
      in ''04'' @ qx @ qy)"

definition GetAddressFromPrivateKey :: "cryptopp \<Rightarrow> string \<Rightarrow> string" where
  "GetAddressFromPrivateKey cp privateKeyStr =
     (let publicKey = GetPublicKey cp privateKeyStr;
          publicKeyHash = SHA256HexString cp publicKey;
          ripeHash = RIPEMD160HexString cp publicKeyHash;
          step4 = ''00'' @ ripeHash;
          networkBytesHash = SHA256HexString cp step4;
          networkBytesHash = SHA256HexString cp networkBytesHash;
          step7 = take 8 networkBytesHash;
          step8h = step4 @ step7 @ ''h'';
          step9 = cp_integer cp step8h
      in ''1'' @ Base58Encode step9)"

text \<open>
  The random exponent and the verdict of \<^verbatim>\<open>Validate\<close> are inputs. The trailing \<^verbatim>\<open>h\<close> of the
  integer's text is kept, as in the source.
\<close>

definition GeneratePrivateKey :: "cryptopp \<Rightarrow> nat \<Rightarrow> bool \<Rightarrow> string" where
  "GeneratePrivateKey cp exponent validated =
     (if validated then pad64 (cp_show_hex cp exponent) else [])"

subsection \<open>Properties of the base-58 encoding\<close>

text \<open>The reference decoder: positional value of the digits.\<close>

fun index_of :: "'a \<Rightarrow> 'a list \<Rightarrow> nat" where
  "index_of x [] = 0"
| "index_of x (y # ys) = (if x = y then 0 else Suc (index_of x ys))"

fun base58_value :: "nat \<Rightarrow> string \<Rightarrow> nat" where
  "base58_value acc [] = acc"
| "base58_value acc (c # cs) = base58_value (acc * base_count + index_of c base58Alphabet) cs"

lemma index_of_nth: "distinct xs \<Longrightarrow> i < length xs \<Longrightarrow> index_of (xs ! i) xs = i"
  by (induction xs arbitrary: i) (auto simp: nth_Cons split: nat.splits)

lemma base58Alphabet_facts [simp]:
  "distinct base58Alphabet" "length base58Alphabet = base_count"
  by (simp_all add: base58Alphabet_def base_count_def)

lemma base58_index [simp]: "i < base_count \<Longrightarrow> index_of (base58Alphabet ! i) base58Alphabet = i"
  by (rule index_of_nth) auto

lemma base58_value_append: "base58_value a (xs @ ys) = base58_value (base58_value a xs) ys"
  by (induction xs arbitrary: a) auto

text \<open>The encoding without the accumulator: digits of the quotient, then the last digit.\<close>

lemma Base58Encode_loop_append: "Base58Encode_loop n (xs @ ys) = Base58Encode_loop n xs @ ys"
proof (induction n xs rule: Base58Encode_loop.induct)
  case (1 n xs)
  show ?case
  proof (cases "base_count \<le> n")
    case True
    with "1.IH" [OF True refl refl] show ?thesis
      by (simp add: Base58Encode_loop.simps [of n "xs @ ys"] Base58Encode_loop.simps [of n xs] Let_def)
  next
    case False
    then show ?thesis
      by (simp add: Base58Encode_loop.simps [of n "xs @ ys"] Base58Encode_loop.simps [of n xs])
  qed
qed

lemma Base58Encode_unfold:
  "Base58Encode n =
     (if base_count \<le> n then Base58Encode (n div base_count) @ [base58Alphabet ! (n mod base_count)]
      else [base58Alphabet ! n])"
  using Base58Encode_loop_append
    [of "n div base_count" "[]" "[base58Alphabet ! (n mod base_count)]"]
  by (simp add: Base58Encode_def Base58Encode_loop.simps [of n "[]"] Let_def
      minus_mult_div_eq_mod)

lemma Base58Encode_value: "base58_value 0 (Base58Encode n) = n"
proof (induction n rule: less_induct)
  case (less n)
  show ?case
  proof (cases "base_count \<le> n")
    case True
    have "base58_value 0 (Base58Encode (n div base_count)) = n div base_count"
      using True by (intro less.IH) (simp add: base_count_def)
    moreover have "n mod base_count < base_count" by (simp add: base_count_def)
    ultimately show ?thesis
      using True by (simp add: Base58Encode_unfold [of n] base58_value_append div_mult_mod_eq)
  next
    case False
    then show ?thesis by (simp add: Base58Encode_unfold [of n])
  qed
qed

lemma Base58Encode_chars: "set (Base58Encode n) \<subseteq> set base58Alphabet"
proof (induction n rule: less_induct)
  case (less n)
  have "n mod base_count < length base58Alphabet" by (simp add: base_count_def)
  then have md: "base58Alphabet ! (n mod base_count) \<in> set base58Alphabet" by (rule nth_mem)
  show ?case
  proof (cases "base_count \<le> n")
    case True
    have "set (Base58Encode (n div base_count)) \<subseteq> set base58Alphabet"
      using True by (intro less.IH) (simp add: base_count_def)
    with md True show ?thesis by (simp add: Base58Encode_unfold [of n])
  next
    case False
    then show ?thesis by (simp add: Base58Encode_unfold [of n])
  qed
qed

lemma Base58Encode_nonempty [simp]: "Base58Encode n \<noteq> []"
  by (subst Base58Encode_unfold) simp

lemma Base58Encode_no_leading_one: "0 < n \<Longrightarrow> hd (Base58Encode n) \<noteq> CHR ''1''"
proof (induction n rule: less_induct)
  case (less n)
  show ?case
  proof (cases "base_count \<le> n")
    case True
    have "hd (Base58Encode (n div base_count)) \<noteq> CHR ''1''"
      using True by (intro less.IH) (auto simp: base_count_def div_greater_zero_iff)
    with True show ?thesis by (simp add: Base58Encode_unfold [of n])
  next
    case False
    have "base58Alphabet ! n \<noteq> base58Alphabet ! 0"
      using False less.prems by (subst nth_eq_iff_index_eq) (auto simp: base_count_def)
    with False show ?thesis by (simp add: Base58Encode_unfold [of n]) (simp add: base58Alphabet_def)
  qed
qed

text \<open>
  Base-58 encoding loses nothing and is canonical: the positional value of the text is the
  number, the text consists of characters of the alphabet only, and it has a leading \<^verbatim>\<open>1\<close> (the
  zero digit) exactly for the number zero.
\<close>

theorem Base58Encode_roundtrip:
  "base58_value 0 (Base58Encode n) = n \<and> set (Base58Encode n) \<subseteq> set base58Alphabet
   \<and> (hd (Base58Encode n) = CHR ''1'' \<longleftrightarrow> n = 0)"
proof -
  have "hd (Base58Encode 0) = CHR ''1''"
    by (simp add: Base58Encode_unfold base_count_def base58Alphabet_def)
  then show ?thesis
    using Base58Encode_value Base58Encode_chars Base58Encode_no_leading_one by blast
qed

subsection \<open>Concrete primitives for examples\<close>

text \<open>
  A concrete \<open>cryptopp\<close> for closed examples: a digest of 64 zero digits for every input, so that
  every difficulty up to 64 is met, and the identity for the other conversions.
\<close>

definition sample_cp :: cryptopp where
  "sample_cp =
     \<lparr>cp_sha256 = (\<lambda>s. replicate 64 (CHR ''0'')), cp_ripemd160 = (\<lambda>s. s),
      cp_hex_encode = (\<lambda>s. s), cp_hex_decode = (\<lambda>s. s), cp_integer_decode = digits_value 0,
      cp_public_point = (\<lambda>n. (n, n)), cp_show_hex = (\<lambda>n. show_nat n @ ''h''),
      cp_integer = (\<lambda>s. digits_value 0 (butlast s))\<rparr>"

lemma SHA256_sample [simp]: "SHA256 sample_cp s = replicate 64 (CHR ''0'')"
  by (simp add: SHA256_def sample_cp_def)

end
