(* ===== verification/Ash_Transactions.thy ===== *)
theory Ash_Transactions
  imports Ash_Json Ash_Crypto
begin

section \<open>Transactions\<close>

text \<open>
  \<^verbatim>\<open>src/src/Transactions.h\<close> and \<^verbatim>\<open>src/src/Transactions.cpp\<close>: result codes and their names, the
  points, inputs and outputs of a transaction, transaction ids, coinbase transactions, and the
  conversions to and from JSON. The results are the JSON round trips for all of these types, the
  behaviour of coinbase transactions, and the limits of ids and of the result names.
\<close>

subsection \<open>Result codes\<close>

datatype TxResult = SUCCESS | INSUFFICIENT_FUNDS | TXOUTS_EMPTY | NOOP_TRANSACTION

fun TxResult_ToString :: "TxResult \<Rightarrow> string result" where
  "TxResult_ToString SUCCESS = Ok ''success''"
| "TxResult_ToString INSUFFICIENT_FUNDS = Ok ''insufficient_fund''"
| "TxResult_ToString TXOUTS_EMPTY = Ok ''txouts_empty''"
| "TxResult_ToString NOOP_TRANSACTION = Err (RuntimeError ''unknown TxResult'')"

definition TxResult_FromString :: "string \<Rightarrow> TxResult result" where
  "TxResult_FromString str =
     (if str = ''success'' then Ok SUCCESS
      else if str = ''insufficient_funds'' then Ok INSUFFICIENT_FUNDS
      else if str = ''txouts_empty'' then Ok TXOUTS_EMPTY
      else Err (RuntimeError (''unknown TxResult '' @ [CHR 0x27] @ str @ [CHR 0x27])))"

subsection \<open>Points, inputs, outputs and transactions\<close>

record TxOutPoint =
  blockIndex :: u64
  txIndex :: u64
  txOutIndex :: u64
  pt_address :: "string option"
  pt_amount :: "double option"

type_synonym UnspentTxOut = TxOutPoint

record TxIn =
  txOutPt :: TxOutPoint
  signature :: string

record TxOut =
  address :: string
  amount :: double

record Transaction =
  tx_id :: string
  txIns :: "TxIn list"
  txOuts :: "TxOut list"

type_synonym TxIns = "TxIn list"
type_synonym TxOuts = "TxOut list"
type_synonym Transactions = "Transaction list"
type_synonym UnspentTxOuts = "UnspentTxOut list"

definition mk_TxIn :: "u64 \<Rightarrow> u64 \<Rightarrow> u64 \<Rightarrow> string \<Rightarrow> TxIn" where
  "mk_TxIn blockindex txIndex' outidx sig =
     \<lparr>txOutPt = \<lparr>blockIndex = blockindex, txIndex = txIndex', txOutIndex = outidx,
                 pt_address = None, pt_amount = None\<rparr>,
      signature = sig\<rparr>"

definition mk_TxOut :: "string \<Rightarrow> double \<Rightarrow> TxOut" where
  "mk_TxOut addr amt = \<lparr>address = addr, amount = amt\<rparr>"

text \<open>A default-constructed transaction.\<close>

definition empty_Transaction :: Transaction where
  "empty_Transaction = \<lparr>tx_id = [], txIns = [], txOuts = []\<rparr>"

definition COINBASE_REWARD :: double where
  "COINBASE_REWARD = dbl_of_nat 57"

text \<open>
  \<^verbatim>\<open>std::hash\<close> for 64-bit integers is implementation defined and \<^verbatim>\<open>boost::hash_combine\<close> is a
  library function; both are parameters of the hash of a point.
\<close>

record hash_lib =
  hash_u64 :: "u64 \<Rightarrow> u64"
  hash_combine :: "u64 \<Rightarrow> u64 \<Rightarrow> u64"

definition hash_TxOutPoint :: "hash_lib \<Rightarrow> TxOutPoint \<Rightarrow> u64" where
  "hash_TxOutPoint H txpt =
     (let seed = 0;
          seed = hash_combine H seed (hash_u64 H (blockIndex txpt));
          seed = hash_combine H seed (hash_u64 H (txIndex txpt));
          seed = hash_combine H seed (hash_u64 H (txOutIndex txpt))
      in seed)"

definition hash_TxIn :: "hash_lib \<Rightarrow> TxIn \<Rightarrow> u64" where
  "hash_TxIn H txin =
     (let seed = 0;
          seed = hash_combine H seed (hash_TxOutPoint H (txOutPt txin));
          seed = hash_combine H seed (hash_u64 H (txOutIndex (txOutPt txin)))
      in seed)"

text \<open>The hash of an output, over the standard hashes of a text and of a double.\<close>

definition hash_TxOut :: "hash_lib \<Rightarrow> (string \<Rightarrow> u64) \<Rightarrow> (double \<Rightarrow> u64) \<Rightarrow> TxOut \<Rightarrow> u64" where
  "hash_TxOut H hash_string hash_double txout =
     (let seed = 0;
          seed = hash_combine H seed (hash_string (address txout));
          seed = hash_combine H seed (hash_double (amount txout))
      in seed)"

definition isCoinbase :: "Transaction \<Rightarrow> bool result" where
  "isCoinbase tx =
     rbind (massert (txIns tx \<noteq> [])) (\<lambda>_.
     rbind (massert (txOuts tx \<noteq> [])) (\<lambda>_.
     rbind (vec_at (txIns tx) 0) (\<lambda>txin0.
       let pt = txOutPt txin0
       in Ok (txIndex pt = 0 \<and> txOutIndex pt = 0 \<and> signature txin0 = []))))"

subsection \<open>Transaction ids\<close>

text \<open>The text that is hashed: the stream insertions of \<^verbatim>\<open>GetTransactionId\<close>.\<close>

definition TransactionId_text :: "Transaction \<Rightarrow> u64 \<Rightarrow> string" where
  "TransactionId_text tx blockid =
     concat (map (\<lambda>txin. show_u64 (blockIndex (txOutPt txin)) @ show_u64 (txIndex (txOutPt txin))
                          @ show_u64 (txOutIndex (txOutPt txin))) (txIns tx))
     @ concat (map (\<lambda>txout. address txout @ show_double (amount txout)) (txOuts tx))
     @ show_u64 blockid"

definition GetTransactionId :: "cryptopp \<Rightarrow> Transaction \<Rightarrow> u64 \<Rightarrow> string" where
  "GetTransactionId cp tx blockid =
     cp_hex_encode cp (cp_sha256 cp (TransactionId_text tx blockid))"

definition calcuateId :: "cryptopp \<Rightarrow> u64 \<Rightarrow> Transaction \<Rightarrow> Transaction" where
  "calcuateId cp blockid tx = tx\<lparr>tx_id := GetTransactionId cp tx blockid\<rparr>"

definition CreateCoinbaseTransaction :: "cryptopp \<Rightarrow> u64 \<Rightarrow> string \<Rightarrow> Transaction" where
  "CreateCoinbaseTransaction cp blockIdx addr =
     (let tx = empty_Transaction;
          tx = tx\<lparr>txIns := txIns tx @ [mk_TxIn blockIdx 0 0 []]\<rparr>;
          tx = tx\<lparr>txOuts := txOuts tx @ [mk_TxOut addr COINBASE_REWARD]\<rparr>
      in tx\<lparr>tx_id := GetTransactionId cp tx blockIdx\<rparr>)"

text \<open>A transaction for closed examples.\<close>

definition sample_tx :: Transaction where
  "sample_tx = \<lparr>tx_id = ''q'', txIns = [mk_TxIn 0 0 0 ''s''], txOuts = [mk_TxOut ''x'' COINBASE_REWARD]\<rparr>"

subsection \<open>Conversion to JSON\<close>

definition TxOutPoint_to_json :: "('j, 'b) json_lib_scheme \<Rightarrow> TxOutPoint \<Rightarrow> 'j" where
  "TxOutPoint_to_json J pt =
     set_all J
      ([(''blockIndex'', j_of_u64 J (blockIndex pt)),
        (''txIndex'', j_of_u64 J (txIndex pt)),
        (''txOutIndex'', j_of_u64 J (txOutIndex pt))]
       @ (case pt_address pt of None \<Rightarrow> [] | Some a \<Rightarrow> [(''address'', j_of_string J a)])
       @ (case pt_amount pt of None \<Rightarrow> [] | Some a \<Rightarrow> [(''amount'', j_of_double J a)]))"

definition TxIn_to_json :: "('j, 'b) json_lib_scheme \<Rightarrow> TxIn \<Rightarrow> 'j" where
  "TxIn_to_json J tx =
     set_all J [(''txOutPt'', TxOutPoint_to_json J (txOutPt tx)),
                (''signature'', j_of_string J (signature tx))]"

definition TxIns_to_json :: "('j, 'b) json_lib_scheme \<Rightarrow> TxIns \<Rightarrow> 'j" where
  "TxIns_to_json J txins = push_all J (TxIn_to_json J) txins"

definition TxOut_to_json :: "('j, 'b) json_lib_scheme \<Rightarrow> TxOut \<Rightarrow> 'j" where
  "TxOut_to_json J txout =
     set_all J [(''address'', j_of_string J (address txout)),
                (''amount'', j_of_double J (amount txout))]"

definition TxOuts_to_json :: "('j, 'b) json_lib_scheme \<Rightarrow> TxOuts \<Rightarrow> 'j" where
  "TxOuts_to_json J txouts = push_all J (TxOut_to_json J) txouts"

definition Transaction_to_json :: "('j, 'b) json_lib_scheme \<Rightarrow> Transaction \<Rightarrow> 'j" where
  "Transaction_to_json J tx =
     set_all J [(''id'', j_of_string J (tx_id tx)),
                (''inputs'', TxIns_to_json J (txIns tx)),
                (''outputs'', TxOuts_to_json J (txOuts tx))]"

definition Transactions_to_json :: "('j, 'b) json_lib_scheme \<Rightarrow> Transactions \<Rightarrow> 'j" where
  "Transactions_to_json J txs = push_all J (Transaction_to_json J) txs"

definition UnspentTxOuts_to_json :: "('j, 'b) json_lib_scheme \<Rightarrow> UnspentTxOuts \<Rightarrow> 'j" where
  "UnspentTxOuts_to_json J outs = push_all J (TxOutPoint_to_json J) outs"

subsection \<open>Conversion from JSON\<close>

definition TxOutPoint_from_json :: "('j, 'b) json_lib_scheme \<Rightarrow> 'j \<Rightarrow> TxOutPoint result" where
  "TxOutPoint_from_json J j =
     rbind (at_get J (j_get_u64 J) j ''blockIndex'') (\<lambda>b.
     rbind (at_get J (j_get_u64 J) j ''txIndex'') (\<lambda>t.
     rbind (at_get J (j_get_u64 J) j ''txOutIndex'') (\<lambda>n.
     rbind (if j_contains J j ''address''
            then rbind (at_get J (j_get_string J) j ''address'') (\<lambda>a. Ok (Some a)) else Ok None) (\<lambda>addr.
     rbind (if j_contains J j ''amount''
            then rbind (at_get J (j_get_double J) j ''amount'') (\<lambda>a. Ok (Some a)) else Ok None) (\<lambda>amt.
       Ok \<lparr>blockIndex = b, txIndex = t, txOutIndex = n, pt_address = addr, pt_amount = amt\<rparr>)))))"

definition TxIn_from_json :: "('j, 'b) json_lib_scheme \<Rightarrow> 'j \<Rightarrow> TxIn result" where
  "TxIn_from_json J j =
     rbind (at_get J (TxOutPoint_from_json J) j ''txOutPt'') (\<lambda>pt.
     rbind (at_get J (j_get_string J) j ''signature'') (\<lambda>sig.
       Ok \<lparr>txOutPt = pt, signature = sig\<rparr>))"

definition TxIns_from_json :: "('j, 'b) json_lib_scheme \<Rightarrow> 'j \<Rightarrow> TxIns result" where
  "TxIns_from_json J j = items_get J (TxIn_from_json J) j"

definition TxOut_from_json :: "('j, 'b) json_lib_scheme \<Rightarrow> 'j \<Rightarrow> TxOut result" where
  "TxOut_from_json J j =
     rbind (at_get J (j_get_string J) j ''address'') (\<lambda>a.
     rbind (at_get J (j_get_double J) j ''amount'') (\<lambda>m.
       Ok \<lparr>address = a, amount = m\<rparr>))"

definition TxOuts_from_json :: "('j, 'b) json_lib_scheme \<Rightarrow> 'j \<Rightarrow> TxOuts result" where
  "TxOuts_from_json J j = items_get J (TxOut_from_json J) j"

definition Transaction_from_json :: "('j, 'b) json_lib_scheme \<Rightarrow> 'j \<Rightarrow> Transaction result" where
  "Transaction_from_json J j =
     rbind (at_get J (j_get_string J) j ''id'') (\<lambda>i.
     rbind (at_get J (TxIns_from_json J) j ''inputs'') (\<lambda>ins.
     rbind (at_get J (TxOuts_from_json J) j ''outputs'') (\<lambda>outs.
       Ok \<lparr>tx_id = i, txIns = ins, txOuts = outs\<rparr>)))"

definition Transactions_from_json :: "('j, 'b) json_lib_scheme \<Rightarrow> 'j \<Rightarrow> Transactions result" where
  "Transactions_from_json J j = items_get J (Transaction_from_json J) j"

definition UnspentTxOuts_from_json :: "('j, 'b) json_lib_scheme \<Rightarrow> 'j \<Rightarrow> UnspentTxOuts result" where
  "UnspentTxOuts_from_json J j = items_get J (TxOutPoint_from_json J) j"

subsection \<open>JSON round trips\<close>

context json_library
begin

lemma TxOutPoint_json: "TxOutPoint_from_json J (TxOutPoint_to_json J pt) = Ok pt"
  by (cases "pt_address pt"; cases "pt_amount pt")
    (simp_all add: TxOutPoint_from_json_def TxOutPoint_to_json_def at_get_def at_set_all)

lemma TxIn_json: "TxIn_from_json J (TxIn_to_json J txin) = Ok txin"
  by (simp add: TxIn_from_json_def TxIn_to_json_def at_get_def at_set_all TxOutPoint_json)

lemma TxOut_json: "TxOut_from_json J (TxOut_to_json J txout) = Ok txout"
  by (simp add: TxOut_from_json_def TxOut_to_json_def at_get_def at_set_all)

end

sublocale json_library \<subseteq> point_json: json_pair J "TxOutPoint_to_json J" "TxOutPoint_from_json J"
  by unfold_locales (rule TxOutPoint_json)

sublocale json_library \<subseteq> txin_json: json_pair J "TxIn_to_json J" "TxIn_from_json J"
  by unfold_locales (rule TxIn_json)

sublocale json_library \<subseteq> txout_json: json_pair J "TxOut_to_json J" "TxOut_from_json J"
  by unfold_locales (rule TxOut_json)

context json_library
begin

lemma Transaction_json: "Transaction_from_json J (Transaction_to_json J tx) = Ok tx"
  by (simp add: Transaction_from_json_def Transaction_to_json_def at_get_def at_set_all
      TxIns_from_json_def TxIns_to_json_def TxOuts_from_json_def TxOuts_to_json_def
      txin_json.vector_roundtrip txout_json.vector_roundtrip)

end

sublocale json_library \<subseteq> transaction_json: json_pair J "Transaction_to_json J" "Transaction_from_json J"
  by unfold_locales (rule Transaction_json)

context json_library
begin

lemma Transactions_json: "Transactions_from_json J (Transactions_to_json J txs) = Ok txs"
  by (simp add: Transactions_from_json_def Transactions_to_json_def transaction_json.vector_roundtrip)

lemma UnspentTxOuts_json: "UnspentTxOuts_from_json J (UnspentTxOuts_to_json J outs) = Ok outs"
  by (simp add: UnspentTxOuts_from_json_def UnspentTxOuts_to_json_def point_json.vector_roundtrip)

end

subsection \<open>Coinbase transactions and ids\<close>

lemma isCoinbase_Ok_iff [result_simps]:
  "isCoinbase tx = Ok b \<longleftrightarrow>
     txIns tx \<noteq> [] \<and> txOuts tx \<noteq> [] \<and>
     b = (txIndex (txOutPt (hd (txIns tx))) = 0 \<and> txOutIndex (txOutPt (hd (txIns tx))) = 0
          \<and> signature (hd (txIns tx)) = [])"
  by (cases "txIns tx")
    (auto simp: isCoinbase_def vec_at_def Let_def massert_def rbind_Ok_iff)

lemma CreateCoinbaseTransaction_simps [simp]:
  "txIns (CreateCoinbaseTransaction cp i a) = [mk_TxIn i 0 0 []]"
  "txOuts (CreateCoinbaseTransaction cp i a) = [mk_TxOut a COINBASE_REWARD]"
  by (simp_all add: CreateCoinbaseTransaction_def empty_Transaction_def Let_def)

lemma isCoinbase_CreateCoinbase [simp]: "isCoinbase (CreateCoinbaseTransaction cp i a) = Ok True"
  by (simp add: isCoinbase_Ok_iff mk_TxIn_def)

lemma calcuateId_simps [simp]:
  "txIns (calcuateId cp i tx) = txIns tx" "txOuts (calcuateId cp i tx) = txOuts tx"
  "isCoinbase (calcuateId cp i tx) = isCoinbase tx"
  "calcuateId cp i (calcuateId cp i' tx) = calcuateId cp i tx"
  by (simp_all add: calcuateId_def isCoinbase_def GetTransactionId_def TransactionId_text_def)

text \<open>The class around a result code: it is made from a code or from a name, and converts to both.\<close>

record TxResultValue =
  trv_value :: TxResult

definition TxResultValue_of :: "TxResult \<Rightarrow> TxResultValue" where
  "TxResultValue_of v = \<lparr>trv_value = v\<rparr>"

definition TxResultValue_named :: "string \<Rightarrow> TxResultValue result" where
  "TxResultValue_named str = rbind (TxResult_FromString str) (\<lambda>v. Ok \<lparr>trv_value = v\<rparr>)"

definition TxResultValue_string :: "TxResultValue \<Rightarrow> string result" where
  "TxResultValue_string x = TxResult_ToString (trv_value x)"

text \<open>
  The names of result codes do not round-trip. \<open>FromString\<close> recovers a code from the text of
  \<open>ToString\<close> exactly for \<open>SUCCESS\<close> and \<open>TXOUTS_EMPTY\<close>: the two functions spell the name of
  \<open>INSUFFICIENT_FUNDS\<close> differently, and \<open>NOOP_TRANSACTION\<close> has no text, \<open>ToString\<close> throws.
\<close>

theorem TxResult_names_roundtrip:
  "rbind (TxResult_ToString r) TxResult_FromString = Ok r \<longleftrightarrow> r = SUCCESS \<or> r = TXOUTS_EMPTY"
  by (cases r) (simp_all add: TxResult_FromString_def)

lemma TxResultValue_roundtrip:
  "rbind (TxResultValue_string (TxResultValue_of r)) TxResultValue_named = Ok (TxResultValue_of r) \<longleftrightarrow> r = SUCCESS \<or> r = TXOUTS_EMPTY"
  by (cases r) (simp_all add: TxResultValue_string_def TxResultValue_of_def TxResultValue_named_def TxResult_FromString_def)

text \<open>
  Transaction ids do not identify transactions. The id of a transaction ignores what lies
  beyond six significant digits of an amount (57 and the next larger double give the same id),
  and because the indices are written without separators, an input that refers to transaction 11
  of block 1 gives the same id as one that refers to transaction 1 of block 11. This holds
  whatever the hash function is.
\<close>

theorem GetTransactionId_not_injective:
  "GetTransactionId cp \<lparr>tx_id = [], txIns = ins, txOuts = [mk_TxOut a (dbl_of_nat 57)]\<rparr> b
   = GetTransactionId cp \<lparr>tx_id = [], txIns = ins, txOuts = [mk_TxOut a (Double 0x404C800000000001)]\<rparr> b
   \<and> dbl_lt (dbl_of_nat 57) (Double 0x404C800000000001)
   \<and> GetTransactionId cp \<lparr>tx_id = [], txIns = [mk_TxIn 1 11 n s], txOuts = outs\<rparr> b
   = GetTransactionId cp \<lparr>tx_id = [], txIns = [mk_TxIn 11 1 n s], txOuts = outs\<rparr> b"
proof -
  have "show_double (dbl_of_nat 57) = ''57''" and "show_double (Double 0x404C800000000001) = ''57''"
    by (simp_all add: dbl_eval)
  then have same: "show_double (dbl_of_nat 57) = show_double (Double 0x404C800000000001)" by simp
  have lt: "dbl_lt (dbl_of_nat 57) (Double 0x404C800000000001)" by (simp add: dbl_eval)
  have "show_nat 11 = ''11''" and "show_nat 1 = ''1''"
    by (simp_all add: show_nat.simps digit_char_table)
  then show ?thesis
    using same lt by (simp add: GetTransactionId_def TransactionId_text_def mk_TxOut_def mk_TxIn_def)
qed

text \<open>
  The JSON conversions of transactions and of lists of unspent outputs lose nothing. For any
  JSON library with the documented behaviour, reading back what \<^verbatim>\<open>to_json\<close> produced
  gives the same values, with optional addresses and amounts present exactly when they were, and
  also for empty vectors, which \<^verbatim>\<open>to_json\<close> leaves as null.
\<close>

theorem Transactions_json_roundtrip:
  assumes "json_library J"
  shows "Transactions_from_json J (Transactions_to_json J txs) = Ok txs
    \<and> UnspentTxOuts_from_json J (UnspentTxOuts_to_json J outs) = Ok outs"
  using json_library.Transactions_json [OF assms] json_library.UnspentTxOuts_json [OF assms] by blast

theorem Transactions_json_roundtrip_witness:
  "json_library jval_lib
   \<and> Transactions_from_json jval_lib (Transactions_to_json jval_lib
       [\<lparr>tx_id = ''a'', txIns = [], txOuts = [mk_TxOut ''x'' (Double 1)]\<rparr>])
     = Ok [\<lparr>tx_id = ''a'', txIns = [], txOuts = [mk_TxOut ''x'' (Double 1)]\<rparr>]
   \<and> UnspentTxOuts_from_json jval_lib (UnspentTxOuts_to_json jval_lib []) = Ok []"
  using json_library_jval
    Transactions_json_roundtrip [OF json_library_jval,
      of "[\<lparr>tx_id = ''a'', txIns = [], txOuts = [mk_TxOut ''x'' (Double 1)]\<rparr>]" "[]"] by blast

end
