(* ===== verification/Ash_Block.thy ===== *)
theory Ash_Block
  imports Ash_Transactions
begin

section \<open>Blocks\<close>

text \<open>
  \<^verbatim>\<open>src/src/Block.h\<close> and \<^verbatim>\<open>src/src/Block.cpp\<close>: the block with its hashed data, the block hash,
  the proof-of-work check \<^verbatim>\<open>ValidHash\<close>, the link check \<^verbatim>\<open>ValidNewBlock\<close>, equality, and the JSON
  conversions. The logger member of the class carries no state of the program and is left out.
\<close>

record HashedData =
  hd_index :: u64
  hd_nonce :: u64
  hd_difficulty :: u64
  hd_data :: string
  hd_time :: BlockTime
  hd_prev :: string
  hd_txs :: Transactions

record Block =
  hashed :: HashedData
  block_hash :: string
  block_miner :: string

abbreviation index :: "Block \<Rightarrow> u64" where "index b \<equiv> hd_index (hashed b)"
abbreviation nonce :: "Block \<Rightarrow> u64" where "nonce b \<equiv> hd_nonce (hashed b)"
abbreviation difficulty :: "Block \<Rightarrow> u64" where "difficulty b \<equiv> hd_difficulty (hashed b)"
abbreviation data :: "Block \<Rightarrow> string" where "data b \<equiv> hd_data (hashed b)"
abbreviation btime :: "Block \<Rightarrow> BlockTime" where "btime b \<equiv> hd_time (hashed b)"
abbreviation previousHash :: "Block \<Rightarrow> string" where "previousHash b \<equiv> hd_prev (hashed b)"
abbreviation transactions :: "Block \<Rightarrow> Transactions" where "transactions b \<equiv> hd_txs (hashed b)"
abbreviation hash :: "Block \<Rightarrow> string" where "hash b \<equiv> block_hash b"
abbreviation miner :: "Block \<Rightarrow> string" where "miner b \<equiv> block_miner b"

text \<open>A value-initialised block, as \<^verbatim>\<open>std::vector::resize\<close> appends it.\<close>

definition default_Block :: Block where
  "default_Block =
     \<lparr>hashed = \<lparr>hd_index = 0, hd_nonce = 0, hd_difficulty = 0, hd_data = [], hd_time = 0,
                hd_prev = [], hd_txs = []\<rparr>,
      block_hash = [], block_miner = []\<rparr>"

definition setData :: "string \<Rightarrow> Block \<Rightarrow> Block" where
  "setData d b = b\<lparr>hashed := (hashed b)\<lparr>hd_data := d\<rparr>\<rparr>"

definition setMiner :: "string \<Rightarrow> Block \<Rightarrow> Block" where
  "setMiner m b = b\<lparr>block_miner := m\<rparr>"

definition setMinedData :: "u64 \<Rightarrow> u64 \<Rightarrow> BlockTime \<Rightarrow> string \<Rightarrow> Block \<Rightarrow> Block" where
  "setMinedData n diff t h b =
     b\<lparr>hashed := (hashed b)\<lparr>hd_nonce := n, hd_difficulty := diff, hd_time := t\<rparr>, block_hash := h\<rparr>"

definition setTransactions :: "Transactions \<Rightarrow> Block \<Rightarrow> Block" where
  "setTransactions txs b = b\<lparr>hashed := (hashed b)\<lparr>hd_txs := txs\<rparr>\<rparr>"

subsection \<open>Block hashes\<close>

definition CalculateBlockHash_fields ::
  "cryptopp \<Rightarrow> u64 \<Rightarrow> u64 \<Rightarrow> u64 \<Rightarrow> BlockTime \<Rightarrow> string \<Rightarrow> string \<Rightarrow> string \<Rightarrow> string" where
  "CalculateBlockHash_fields cp idx non diff t dat previous extraText =
     SHA256 cp (show_u64 idx @ show_u64 non @ show_u64 diff @ dat @ show_time t
                @ previous @ extraText)"

text \<open>The hash of the dumped JSON of the transactions.\<close>

definition extra_hash :: "cryptopp \<Rightarrow> ('j, 'b) json_lib_scheme \<Rightarrow> Transactions \<Rightarrow> string" where
  "extra_hash cp J txs = SHA256 cp (j_dump J (Transactions_to_json J txs))"

definition CalculateBlockHash :: "cryptopp \<Rightarrow> ('j, 'b) json_lib_scheme \<Rightarrow> Block \<Rightarrow> string" where
  "CalculateBlockHash cp J b =
     (let extra = extra_hash cp J (transactions b)
      in CalculateBlockHash_fields cp (index b) (nonce b) (difficulty b) (btime b) (data b)
           (previousHash b) extra)"

text \<open>
  \<^verbatim>\<open>hash.compare(0, n, zeros) != 0\<close> with \<open>n\<close> zeros: the first \<open>n\<close> characters of the hash, or all
  of them if it is shorter, compared with \<open>n\<close> zeros.
\<close>

definition zeros_prefix :: "u64 \<Rightarrow> string \<Rightarrow> bool" where
  "zeros_prefix n h = (take (unat n) h = replicate (unat n) (CHR ''0''))"

definition ValidHash :: "cryptopp \<Rightarrow> ('j, 'b) json_lib_scheme \<Rightarrow> Block \<Rightarrow> bool" where
  "ValidHash cp J b =
     (let computedHash = CalculateBlockHash cp J b
      in if computedHash \<noteq> hash b then False
         else if \<not> zeros_prefix (difficulty b) (hash b) then False
         else True)"

definition ValidNewBlock :: "cryptopp \<Rightarrow> ('j, 'b) json_lib_scheme \<Rightarrow> Block \<Rightarrow> Block \<Rightarrow> bool" where
  "ValidNewBlock cp J b prevblock =
     (if \<not> ValidHash cp J b then False
      else index b = index prevblock + 1 \<and> previousHash b = hash prevblock)"

text \<open>The constructor: the clock reading is an argument.\<close>

definition new_Block ::
  "cryptopp \<Rightarrow> ('j, 'b) json_lib_scheme \<Rightarrow> BlockTime \<Rightarrow> u64 \<Rightarrow> string \<Rightarrow> Transactions \<Rightarrow> Block" where
  "new_Block cp J now idx prevHash txs =
     (let b = \<lparr>hashed = \<lparr>hd_index = idx, hd_nonce = 0, hd_difficulty = 1, hd_data = [],
                         hd_time = now, hd_prev = prevHash, hd_txs = txs\<rparr>,
               block_hash = [], block_miner = []\<rparr>
      in b\<lparr>block_hash := CalculateBlockHash cp J b\<rparr>)"

text \<open>\<^verbatim>\<open>operator==\<close> compares four fields only.\<close>

definition Block_eq :: "Block \<Rightarrow> Block \<Rightarrow> bool" where
  "Block_eq a b = (index a = index b \<and> nonce a = nonce b \<and> data a = data b \<and> btime a = btime b)"

definition show_Block :: "Block \<Rightarrow> string" where
  "show_Block b =
     ''block { index: '' @ show_u64 (index b) @ '' hash: '' @ hash b @ '' data: '' @ data b @ '' }''"

subsection \<open>JSON\<close>

definition Block_to_json :: "('j, 'b) json_lib_scheme \<Rightarrow> Block \<Rightarrow> 'j" where
  "Block_to_json J b =
     set_all J
      [(''index'', j_of_u64 J (index b)),
       (''nonce'', j_of_u64 J (nonce b)),
       (''difficulty'', j_of_u64 J (difficulty b)),
       (''hash'', j_of_string J (hash b)),
       (''prev'', j_of_string J (previousHash b)),
       (''miner'', j_of_string J (miner b)),
       (''data'', j_of_string J (data b)),
       (''transactions'', Transactions_to_json J (transactions b)),
       (''time'', j_of_u64 J (btime b))]"

definition Block_from_json :: "('j, 'b) json_lib_scheme \<Rightarrow> 'j \<Rightarrow> Block result" where
  "Block_from_json J j =
     rbind (at_get J (j_get_u64 J) j ''index'') (\<lambda>i.
     rbind (at_get J (j_get_u64 J) j ''nonce'') (\<lambda>n.
     rbind (at_get J (j_get_u64 J) j ''difficulty'') (\<lambda>df.
     rbind (at_get J (j_get_string J) j ''data'') (\<lambda>dt.
     rbind (at_get J (j_get_string J) j ''prev'') (\<lambda>pv.
     rbind (at_get J (j_get_string J) j ''hash'') (\<lambda>h.
     rbind (at_get J (j_get_string J) j ''miner'') (\<lambda>m.
     rbind (at_get J (Transactions_from_json J) j ''transactions'') (\<lambda>txs.
     rbind (at_get J (j_get_u64 J) j ''time'') (\<lambda>t.
       Ok \<lparr>hashed = \<lparr>hd_index = i, hd_nonce = n, hd_difficulty = df, hd_data = dt, hd_time = t,
                      hd_prev = pv, hd_txs = txs\<rparr>,
           block_hash = h, block_miner = m\<rparr>)))))))))"

context json_library
begin

lemma Block_json: "Block_from_json J (Block_to_json J b) = Ok b"
  by (simp add: Block_from_json_def Block_to_json_def at_get_def at_set_all Transactions_json)

end

sublocale json_library \<subseteq> block_json: json_pair J "Block_to_json J" "Block_from_json J"
  by unfold_locales (rule Block_json)

subsection \<open>Properties\<close>

lemma zeros_prefix_length: "zeros_prefix n h \<Longrightarrow> unat n \<le> length h"
  by (metis length_replicate length_take min.cobounded1 zeros_prefix_def)

lemma ValidHash_iff:
  "ValidHash cp J b \<longleftrightarrow> CalculateBlockHash cp J b = hash b \<and> zeros_prefix (difficulty b) (hash b)"
  by (simp add: ValidHash_def Let_def)

lemma ValidNewBlock_iff:
  "ValidNewBlock cp J b p \<longleftrightarrow> ValidHash cp J b \<and> index b = index p + 1 \<and> previousHash b = hash p"
  by (simp add: ValidNewBlock_def)

lemma CalculateBlockHash_cong:
  assumes "hashed a = hashed b"
  shows "CalculateBlockHash cp J a = CalculateBlockHash cp J b"
  using assms by (simp add: CalculateBlockHash_def)

lemma CalculateBlockHash_setMinedData:
  "CalculateBlockHash cp J (setMinedData n df t h b) =
   CalculateBlockHash_fields cp (index b) n df t (data b) (previousHash b)
     (extra_hash cp J (transactions b))"
  by (simp add: CalculateBlockHash_def setMinedData_def)

lemma new_Block_simps [simp]:
  "index (new_Block cp J now i p txs) = i"
  "previousHash (new_Block cp J now i p txs) = p"
  "transactions (new_Block cp J now i p txs) = txs"
  "data (new_Block cp J now i p txs) = []"
  by (simp_all add: new_Block_def Let_def)

lemma setters_simps [simp]:
  "index (setMiner m b) = index b" "index (setData d b) = index b"
  "previousHash (setMiner m b) = previousHash b" "previousHash (setData d b) = previousHash b"
  "transactions (setMiner m b) = transactions b" "transactions (setData d b) = transactions b"
  "data (setMiner m b) = data b" "data (setData d b) = d"
  "index (setMinedData n df t h b) = index b" "data (setMinedData n df t h b) = data b"
  "previousHash (setMinedData n df t h b) = previousHash b"
  "transactions (setMinedData n df t h b) = transactions b"
  "hash (setMinedData n df t h b) = h" "difficulty (setMinedData n df t h b) = df"
  "nonce (setMinedData n df t h b) = n" "btime (setMinedData n df t h b) = t"
  by (simp_all add: setMiner_def setData_def setMinedData_def)

subsection \<open>Blocks for examples\<close>

definition sample_hash :: string where
  "sample_hash = replicate 64 (CHR ''0'')"

text \<open>A block of the sample instance: its hash is the digest of 64 zeros.\<close>

definition sample_block :: "u64 \<Rightarrow> u64 \<Rightarrow> BlockTime \<Rightarrow> Transactions \<Rightarrow> Block" where
  "sample_block i df t txs =
     \<lparr>hashed = \<lparr>hd_index = i, hd_nonce = 0, hd_difficulty = df, hd_data = [], hd_time = t,
                hd_prev = sample_hash, hd_txs = txs\<rparr>,
      block_hash = sample_hash, block_miner = []\<rparr>"

lemma sample_block_simps [simp]:
  "index (sample_block i df t txs) = i" "difficulty (sample_block i df t txs) = df"
  "btime (sample_block i df t txs) = t" "transactions (sample_block i df t txs) = txs"
  "previousHash (sample_block i df t txs) = sample_hash" "hash (sample_block i df t txs) = sample_hash"
  "CalculateBlockHash sample_cp J b = sample_hash"
  by (simp_all add: sample_block_def sample_hash_def CalculateBlockHash_def
      CalculateBlockHash_fields_def Let_def)

lemma zeros_prefix_sample: "zeros_prefix n sample_hash \<longleftrightarrow> unat n \<le> 64"
  by (simp add: zeros_prefix_def sample_hash_def min_def)

lemma ValidHash_sample: "ValidHash sample_cp J (sample_block i df t txs) \<longleftrightarrow> unat df \<le> 64"
  by (simp add: ValidHash_iff zeros_prefix_sample)

end
