(* ===== verification/Ash_Blockchain.thy ===== *)
theory Ash_Blockchain
  imports Ash_Block
begin

section \<open>The block chain\<close>

text \<open>
  The class \<^verbatim>\<open>Blockchain\<close> of \<^verbatim>\<open>src/src/Blockchain.h\<close> and \<^verbatim>\<open>src/src/Blockchain.cpp\<close>: the vector of
  blocks with the queue of transactions waiting to be mined, appending and validating blocks,
  cumulative difficulty, difficulty adjustment, and the construction of a new block from the
  queue. The free functions over a chain (unspent outputs, ledgers, new transactions) are in
  the theory of the ledger. Vector sizes are 64-bit words; allocation failure is not modelled.
\<close>

text \<open>The constants depend on the build: the flag is whether \<^verbatim>\<open>_RELEASE\<close> is defined.\<close>

definition TARGET_TIMESPAN :: "bool \<Rightarrow> nat" where
  "TARGET_TIMESPAN release = (if release then 10 * 60 else 60)"

definition BLOCK_INTERVAL :: "bool \<Rightarrow> nat" where
  "BLOCK_INTERVAL release = (if release then 25 else 10)"

record Blockchain =
  blocks :: "Block list"
  unspentTxOuts :: UnspentTxOuts
  txQueue :: "Transaction list"

definition empty_Blockchain :: Blockchain where
  "empty_Blockchain = \<lparr>blocks = [], unspentTxOuts = [], txQueue = []\<rparr>"

subsection \<open>Accessors\<close>

definition chain_size :: "Blockchain \<Rightarrow> u64" where
  "chain_size c = vec_size (blocks c)"

definition chain_front :: "Blockchain \<Rightarrow> Block result" where
  "chain_front c = vec_front (blocks c)"

definition chain_back :: "Blockchain \<Rightarrow> Block result" where
  "chain_back c = vec_back (blocks c)"

definition chain_at :: "Blockchain \<Rightarrow> u64 \<Rightarrow> Block result" where
  "chain_at c i = vec_at (blocks c) i"

definition chain_clear :: "Blockchain \<Rightarrow> Blockchain" where
  "chain_clear c = c\<lparr>blocks := []\<rparr>"

definition chain_resize :: "u64 \<Rightarrow> Blockchain \<Rightarrow> Blockchain" where
  "chain_resize n c =
     c\<lparr>blocks := take (unat n) (blocks c)
                 @ replicate (unat n - length (blocks c)) default_Block\<rparr>"

definition txAt :: "Blockchain \<Rightarrow> u64 \<Rightarrow> u64 \<Rightarrow> Transaction result" where
  "txAt c blockIdx txIdx =
     rbind (massert (blockIdx < chain_size c)) (\<lambda>_.
     rbind (chain_at c blockIdx) (\<lambda>b.
     rbind (massert (txIdx < vec_size (transactions b))) (\<lambda>_.
       vec_at (transactions b) txIdx)))"

subsection \<open>Appending and validating\<close>

definition addNewBlock_check ::
  "cryptopp \<Rightarrow> ('j, 'b) json_lib_scheme \<Rightarrow> Block \<Rightarrow> bool \<Rightarrow> Blockchain \<Rightarrow> (bool \<times> Blockchain) result" where
  "addNewBlock_check cp J b checkPreviousBlock c =
     (if \<not> ValidHash cp J b then Ok (False, c)
      else rbind (if checkPreviousBlock
                  then rbind (chain_back c) (\<lambda>lst. Ok (previousHash b \<noteq> hash lst)) else Ok False) (\<lambda>bad.
           if bad then Ok (False, c) else Ok (True, c\<lparr>blocks := blocks c @ [b]\<rparr>)))"

definition addNewBlock ::
  "cryptopp \<Rightarrow> ('j, 'b) json_lib_scheme \<Rightarrow> Block \<Rightarrow> Blockchain \<Rightarrow> (bool \<times> Blockchain) result" where
  "addNewBlock cp J b c = addNewBlock_check cp J b True c"

definition isValidBlockPair ::
  "cryptopp \<Rightarrow> ('j, 'b) json_lib_scheme \<Rightarrow> Blockchain \<Rightarrow> u64 \<Rightarrow> bool result" where
  "isValidBlockPair cp J c idx =
     (if idx > chain_size c \<or> idx < 1 then Ok False
      else rbind (chain_at c idx) (\<lambda>current.
           rbind (chain_at c (idx - 1)) (\<lambda>prev.
             Ok (index current = index prev + 1 \<and> previousHash current = hash prev
                 \<and> CalculateBlockHash cp J current = hash current))))"

text \<open>
  The loop of \<^verbatim>\<open>isValidChain\<close> from a given index on. The counter is a 32-bit \<^verbatim>\<open>unsigned\<close>: on a
  chain of \<open>2^32\<close> blocks it wraps to 0, where the pair check fails and ends the loop.
\<close>

function isValidChain_from ::
  "cryptopp \<Rightarrow> ('j, 'b) json_lib_scheme \<Rightarrow> Blockchain \<Rightarrow> u32 \<Rightarrow> bool result" where
  "isValidChain_from cp J c idx =
     (if unat idx < length (blocks c)
      then rbind (isValidBlockPair cp J c (ucast idx)) (\<lambda>ok.
             if \<not> ok then Ok False else isValidChain_from cp J c (idx + 1))
      else Ok True)"
  by pat_completeness auto
termination
proof (relation "measure (\<lambda>(cp, J, c, idx). if idx = 0 then 0 else 2 ^ 32 - unat idx)")
  fix cp and J :: "('j, 'b) json_lib_scheme" and c and idx :: u32 and ok
  assume "isValidBlockPair cp J c (ucast idx) = Ok ok" and "\<not> \<not> ok"
  then have "idx \<noteq> 0" by (auto simp: isValidBlockPair_def)
  moreover have "unat idx < 2 ^ 32" using unsigned_less [of idx, where 'a = nat] by simp
  moreover have "idx + 1 \<noteq> 0 \<Longrightarrow> unat (idx + 1) = Suc (unat idx)" by (rule unat_Suc32)
  ultimately show "((cp, J, c, idx + 1), cp, J, c, idx) \<in>
      measure (\<lambda>(cp, J, c, idx). if idx = 0 then 0 else 2 ^ 32 - unat idx)" by auto
qed simp

declare isValidChain_from.simps [simp del]

definition isValidChain :: "cryptopp \<Rightarrow> ('j, 'b) json_lib_scheme \<Rightarrow> Blockchain \<Rightarrow> bool result" where
  "isValidChain cp J c = (if blocks c = [] then Ok True else isValidChain_from cp J c 1)"

subsection \<open>Cumulative difficulty\<close>

text \<open>
  \<^verbatim>\<open>static_cast<std::uint64_t>(std::pow(2u, d))\<close>: powers of two are exact doubles, and the
  conversion of a value that does not fit is undefined.
\<close>

definition pow2_u64 :: "u64 \<Rightarrow> u64 result" where
  "pow2_u64 d = (if unat d < 64 then Ok (2 ^ unat d) else Err UndefinedBehaviour)"

definition cumDifficulty_to :: "Blockchain \<Rightarrow> u64 \<Rightarrow> u64 result" where
  "cumDifficulty_to c idx =
     (if length (blocks c) < unat idx then Err UndefinedBehaviour
      else rfold (\<lambda>b total. rbind (pow2_u64 (difficulty b)) (\<lambda>p. Ok (total + p)))
             (take (unat idx) (blocks c)) 0)"

definition cumDifficulty :: "Blockchain \<Rightarrow> u64 result" where
  "cumDifficulty c = cumDifficulty_to c (chain_size c - 1)"

subsection \<open>Difficulty adjustment\<close>

text \<open>\<^verbatim>\<open>duration_cast<seconds>\<close> of milliseconds truncates towards zero.\<close>

definition ms_to_s :: "int \<Rightarrow> int" where
  "ms_to_s ms = sgn ms * (\<bar>ms\<bar> div 1000)"

definition getAdjustedDifficulty :: "bool \<Rightarrow> Blockchain \<Rightarrow> u64 result" where
  "getAdjustedDifficulty release c =
     rbind (massert (chain_size c > 0)) (\<lambda>_.
     rbind (chain_back c) (\<lambda>lastBlock.
       if (index lastBlock + 1) mod of_nat (BLOCK_INTERVAL release) \<noteq> 0
       then Ok (difficulty lastBlock)
       else rbind (chain_at c (chain_size c - of_nat (BLOCK_INTERVAL release))) (\<lambda>firstBlock.
         let ms = sint (btime lastBlock) - sint (btime firstBlock);
             timespan = ms_to_s ms
         in if ms < - (2 ^ 63) \<or> 2 ^ 63 \<le> ms then Err UndefinedBehaviour
            else if timespan < int (TARGET_TIMESPAN release) div 2 then Ok (difficulty lastBlock + 1)
            else if timespan > int (TARGET_TIMESPAN release) * 2 then Ok (difficulty lastBlock - 1)
            else Ok (difficulty lastBlock))))"

subsection \<open>The transaction queue\<close>

definition transactionQueueSize :: "Blockchain \<Rightarrow> u64" where
  "transactionQueueSize c = vec_size (txQueue c)"

definition queueTransaction :: "Transaction \<Rightarrow> Blockchain \<Rightarrow> Blockchain" where
  "queueTransaction tx c = c\<lparr>txQueue := txQueue c @ [tx]\<rparr>"

definition reQueueTransactions :: "Block \<Rightarrow> Blockchain \<Rightarrow> (u64 \<times> Blockchain) result" where
  "reQueueTransactions b c =
     rfold (\<lambda>tx (count, c).
        rbind (isCoinbase tx) (\<lambda>cb.
          if cb then Ok (count, c)
          else Ok (count + 1, c\<lparr>txQueue := txQueue c @ [tx]\<rparr>)))
       (transactions b) (0, c)"

text \<open>The loop that empties the queue into the list of transactions.\<close>

fun drain_queue :: "cryptopp \<Rightarrow> u64 \<Rightarrow> Transaction list \<Rightarrow> Transactions \<Rightarrow> Transactions" where
  "drain_queue cp newblockidx [] txs = txs"
| "drain_queue cp newblockidx (tx # q) txs =
     drain_queue cp newblockidx q (txs @ [calcuateId cp newblockidx tx])"

definition createUnminedBlock ::
  "cryptopp \<Rightarrow> ('j, 'b) json_lib_scheme \<Rightarrow> BlockTime \<Rightarrow> string \<Rightarrow> Blockchain \<Rightarrow> (Block \<times> Blockchain) result" where
  "createUnminedBlock cp J now coinbasewallet c =
     (let newblockidx = chain_size c;
          txs = [CreateCoinbaseTransaction cp newblockidx coinbasewallet];
          txs = drain_queue cp newblockidx (txQueue c) txs;
          c = c\<lparr>txQueue := []\<rparr>
      in rbind (chain_back c) (\<lambda>lst. Ok (new_Block cp J now newblockidx (hash lst) txs, c)))"

subsection \<open>JSON\<close>

definition Blockchain_to_json :: "('j, 'b) json_lib_scheme \<Rightarrow> Blockchain \<Rightarrow> 'j" where
  "Blockchain_to_json J c = push_all J (Block_to_json J) (blocks c)"

definition Blockchain_from_json :: "('j, 'b) json_lib_scheme \<Rightarrow> 'j \<Rightarrow> Blockchain \<Rightarrow> Blockchain result" where
  "Blockchain_from_json J j b =
     (let b = chain_clear b
      in rbind (items_get J (Block_from_json J) j) (\<lambda>bs. Ok (b\<lparr>blocks := blocks b @ bs\<rparr>)))"

subsection \<open>Validity of a chain\<close>

text \<open>The specification of a valid pair of neighbours and of a linked list of blocks.\<close>

definition linked :: "cryptopp \<Rightarrow> ('j, 'b) json_lib_scheme \<Rightarrow> Block \<Rightarrow> Block \<Rightarrow> bool" where
  "linked cp J prev current \<longleftrightarrow>
     index current = index prev + 1 \<and> previousHash current = hash prev
     \<and> CalculateBlockHash cp J current = hash current"

definition chain_linked :: "cryptopp \<Rightarrow> ('j, 'b) json_lib_scheme \<Rightarrow> Block list \<Rightarrow> bool" where
  "chain_linked cp J bs = successively (linked cp J) bs"

lemma chain_linked_simps [simp]:
  "chain_linked cp J []" "chain_linked cp J [b]"
  "chain_linked cp J (a # b # bs) \<longleftrightarrow> linked cp J a b \<and> chain_linked cp J (b # bs)"
  by (simp_all add: chain_linked_def)

lemma chain_linked_snoc:
  "bs \<noteq> [] \<Longrightarrow> chain_linked cp J (bs @ [b]) \<longleftrightarrow> chain_linked cp J bs \<and> linked cp J (last bs) b"
  by (auto simp: chain_linked_def successively_append_iff)

lemma chain_linked_append:
  "xs \<noteq> [] \<Longrightarrow> ys \<noteq> [] \<Longrightarrow> chain_linked cp J (xs @ ys) \<longleftrightarrow>
     chain_linked cp J xs \<and> linked cp J (last xs) (hd ys) \<and> chain_linked cp J ys"
  by (auto simp: chain_linked_def successively_append_iff)

lemma chain_linked_take: "chain_linked cp J bs \<Longrightarrow> chain_linked cp J (take n bs)"
  by (metis append_take_drop_id chain_linked_def successively_append_iff)

lemma chain_linked_index:
  assumes "chain_linked cp J bs" and "i < length bs"
  shows "index (bs ! i) = index (hd bs) + of_nat i"
  using assms
proof (induction i)
  case 0
  then show ?case by (simp add: hd_conv_nth)
next
  case (Suc i)
  then have "linked cp J (bs ! i) (bs ! Suc i)"
    by (auto simp: chain_linked_def successively_conv_nth)
  with Suc show ?case by (simp add: linked_def)
qed

lemma isValidBlockPair_inside:
  assumes "length (blocks c) < 2 ^ 64" and "0 < i" and "i < length (blocks c)"
  shows "isValidBlockPair cp J c (of_nat i) = Ok (linked cp J (blocks c ! (i - 1)) (blocks c ! i))"
proof -
  have u: "unat (of_nat i :: u64) = i" using assms by (simp add: unat_of_nat)
  have "unat (of_nat i - 1 :: u64) = i - 1"
    using assms unat_of_nat64_minus [of 1 i] by simp
  moreover have "\<not> (of_nat i :: u64) > chain_size c" and "\<not> (of_nat i :: u64) < 1"
    using assms u by (simp_all add: word_less_nat_alt chain_size_def unat_vec_size)
  ultimately show ?thesis
    using assms u by (simp add: isValidBlockPair_def chain_at_def vec_at_def linked_def)
qed

lemma isValidChain_from_eq:
  assumes "length (blocks c) < 2 ^ 32" and "0 < i" and "i \<le> length (blocks c)"
  shows "isValidChain_from cp J c (of_nat i) = Ok (chain_linked cp J (drop (i - 1) (blocks c)))"
  using assms(2,3)
proof (induction "length (blocks c) - i" arbitrary: i)
  case 0
  then have "length (drop (i - 1) (blocks c)) \<le> 1" by simp
  then have "chain_linked cp J (drop (i - 1) (blocks c))"
    by (cases "drop (i - 1) (blocks c)" rule: remdups_adj.cases) (simp_all del: length_drop)
  with 0 assms(1) show ?case
    by (simp add: isValidChain_from.simps [of cp J c "of_nat i"] unat_of_nat32)
next
  case (Suc n)
  then have i: "i < length (blocks c)" by simp
  then have u: "unat (of_nat i :: u32) = i" using assms(1) by (simp add: unat_of_nat32)
  then have u': "(ucast (of_nat i :: u32) :: u64) = of_nat i" by (metis of_nat_unat)
  have "drop (i - 1) (blocks c) = blocks c ! (i - 1) # blocks c ! i # drop (Suc i) (blocks c)"
    using i Suc.prems by (metis Cons_nth_drop_Suc Suc_diff_1 less_imp_diff_less)
  moreover have "drop i (blocks c) = blocks c ! i # drop (Suc i) (blocks c)"
    using i by (simp add: Cons_nth_drop_Suc)
  moreover have "isValidChain_from cp J c (of_nat i + 1) = Ok (chain_linked cp J (drop i (blocks c)))"
    using Suc.hyps(1) [of "Suc i"] Suc.hyps(2) i by (simp add: add.commute)
  moreover have "length (blocks c) < 2 ^ 64" using assms(1) by simp
  ultimately show ?case
    using i u u' Suc.prems by (simp add: isValidChain_from.simps [of cp J c "of_nat i"] isValidBlockPair_inside)
qed

lemma isValidChain_eq:
  assumes "length (blocks c) < 2 ^ 32"
  shows "isValidChain cp J c = Ok (chain_linked cp J (blocks c))"
proof (cases "blocks c = []")
  case False
  then have "1 \<le> length (blocks c)" by (cases "blocks c") auto
  with isValidChain_from_eq [of c 1 cp J] assms False show ?thesis by (simp add: isValidChain_def)
qed (simp add: isValidChain_def)

subsection \<open>Appending\<close>

lemma addNewBlock_eq:
  assumes "blocks c \<noteq> []"
  shows "addNewBlock cp J b c =
    (if ValidHash cp J b \<and> previousHash b = hash (last (blocks c))
     then Ok (True, c\<lparr>blocks := blocks c @ [b]\<rparr>) else Ok (False, c))"
  using assms by (simp add: addNewBlock_def addNewBlock_check_def chain_back_def vec_back_def)

lemma addNewBlock_linked:
  assumes "blocks c \<noteq> []" and "addNewBlock cp J b c = Ok (True, c')"
    and "chain_linked cp J (blocks c)"
  shows "chain_linked cp J (blocks c') \<longleftrightarrow> index b = index (last (blocks c)) + 1"
  using assms by (auto simp: addNewBlock_eq chain_linked_snoc linked_def ValidHash_iff split: if_splits)

subsection \<open>Cumulative difficulty\<close>

lemma rfold_pow2_sum:
  assumes "\<forall>b \<in> set bs. unat (difficulty b) < 64"
    and "unat t + (\<Sum>b\<leftarrow>bs. 2 ^ unat (difficulty b)) < 2 ^ 64"
  shows "\<exists>w. rfold (\<lambda>b total. rbind (pow2_u64 (difficulty b)) (\<lambda>p. Ok (total + p))) bs t = Ok w
    \<and> unat w = unat t + (\<Sum>b\<leftarrow>bs. 2 ^ unat (difficulty b))"
  using assms
proof (induction bs arbitrary: t)
  case (Cons b bs)
  let ?p = "2 ^ unat (difficulty b) :: u64"
  have d: "unat (difficulty b) < 64" using Cons.prems(1) by simp
  then have up: "unat ?p = 2 ^ unat (difficulty b)"
    by (rule unat_pow2_64)
  have "unat (t + ?p) = unat t + 2 ^ unat (difficulty b)"
    using Cons.prems(2) by (simp add: unat_word_ariths up)
  moreover from this Cons.prems
  obtain w where "rfold (\<lambda>b total. rbind (pow2_u64 (difficulty b)) (\<lambda>p. Ok (total + p))) bs (t + ?p) = Ok w"
    and "unat w = unat (t + ?p) + (\<Sum>b\<leftarrow>bs. 2 ^ unat (difficulty b))"
    using Cons.IH [of "t + ?p"] by auto
  ultimately show ?case using d by (auto simp: pow2_u64_def)
qed simp

lemma cumDifficulty_exact:
  assumes "blocks c \<noteq> []" and "length (blocks c) < 2 ^ 64"
    and "\<forall>b \<in> set (butlast (blocks c)). unat (difficulty b) < 64"
    and "(\<Sum>b\<leftarrow>butlast (blocks c). 2 ^ unat (difficulty b)) < (2::nat) ^ 64"
  shows "\<exists>w. cumDifficulty c = Ok w \<and> unat w = (\<Sum>b\<leftarrow>butlast (blocks c). 2 ^ unat (difficulty b))"
proof -
  have "unat (chain_size c - 1) = length (blocks c) - 1"
    using assms(1,2) unat_of_nat64_minus [of 1 "length (blocks c)"]
    by (cases "blocks c") (simp_all add: chain_size_def vec_size_def)
  then have "cumDifficulty c =
      rfold (\<lambda>b total. rbind (pow2_u64 (difficulty b)) (\<lambda>p. Ok (total + p))) (butlast (blocks c)) 0"
    by (simp add: cumDifficulty_def cumDifficulty_to_def butlast_conv_take)
  with rfold_pow2_sum [of "butlast (blocks c)" 0] assms(3,4) show ?thesis by simp
qed

subsection \<open>Queue and new blocks\<close>

lemma drain_queue_eq: "drain_queue cp i q txs = txs @ map (calcuateId cp i) q"
  by (induction q arbitrary: txs) simp_all

lemma createUnminedBlock_eq:
  assumes "blocks c \<noteq> []"
  shows "createUnminedBlock cp J now w c =
    Ok (new_Block cp J now (chain_size c) (hash (last (blocks c)))
          (CreateCoinbaseTransaction cp (chain_size c) w # map (calcuateId cp (chain_size c)) (txQueue c)),
        c\<lparr>txQueue := []\<rparr>)"
  using assms
  by (simp add: createUnminedBlock_def Let_def drain_queue_eq chain_back_def vec_back_def)

lemma reQueue_fold:
  assumes "\<forall>tx \<in> set txs. isCoinbase tx = Ok False"
  shows "rfold (\<lambda>tx (count, c).
        rbind (isCoinbase tx) (\<lambda>cb.
          if cb then Ok (count, c)
          else Ok (count + 1, c\<lparr>txQueue := txQueue c @ [tx]\<rparr>))) txs (n, c)
    = Ok (n + of_nat (length txs), c\<lparr>txQueue := txQueue c @ txs\<rparr>)"
  using assms by (induction txs arbitrary: n c) (simp_all add: algebra_simps)

lemma reQueueTransactions_eq:
  assumes "transactions b = cb # txs" and "isCoinbase cb = Ok True"
    and "\<forall>tx \<in> set txs. isCoinbase tx = Ok False"
  shows "reQueueTransactions b c =
    Ok (of_nat (length txs), c\<lparr>txQueue := txQueue c @ txs\<rparr>)"
  using assms(2) reQueue_fold [OF assms(3), of 0 c] by (simp add: reQueueTransactions_def assms(1))

context json_library
begin

lemma Blockchain_json:
  "Blockchain_from_json J (Blockchain_to_json J c) c' = Ok (c'\<lparr>blocks := blocks c\<rparr>)"
  by (simp add: Blockchain_from_json_def Blockchain_to_json_def Let_def chain_clear_def
      block_json.vector_roundtrip)

end

subsection \<open>Main results\<close>

text \<open>
  C7: on a chain of fewer than \<open>2^32\<close> blocks \<open>isValidChain\<close> returns, without an out-of-range access, and it accepts exactly the
  chains in which every block but the first has the index after its predecessor's, names the
  predecessor's hash and carries its own hash correctly.
\<close>

theorem isValidChain_correct:
  assumes "length (blocks c) < 2 ^ 32"
  shows "isValidChain cp J c = Ok (\<forall>i. Suc i < length (blocks c) \<longrightarrow>
    index (blocks c ! Suc i) = index (blocks c ! i) + 1
    \<and> previousHash (blocks c ! Suc i) = hash (blocks c ! i)
    \<and> CalculateBlockHash cp J (blocks c ! Suc i) = hash (blocks c ! Suc i))"
  using assms
  by (simp add: isValidChain_eq chain_linked_def successively_conv_nth linked_def)

theorem isValidChain_correct_witness:
  "isValidChain sample_cp jval_lib
     (empty_Blockchain\<lparr>blocks := [sample_block 0 1 5 [], sample_block 1 2 9 []]\<rparr>) = Ok True"
  using isValidChain_correct
    [of "empty_Blockchain\<lparr>blocks := [sample_block 0 1 5 [], sample_block 1 2 9 []]\<rparr>"
      sample_cp jval_lib]
  by simp

text \<open>
  Validation does not check proof of work. For every chain of one block and any hash function
  with digests of 64 characters there is a second block whose declared difficulty no digest can
  meet, so that \<open>ValidHash\<close> rejects it, while \<open>isValidChain\<close> accepts the chain.
\<close>

theorem isValidChain_ignores_difficulty:
  assumes "\<And>s. length (SHA256 cp s) = 64"
  shows "\<exists>b. isValidChain cp J (c\<lparr>blocks := [g, b]\<rparr>) = Ok True \<and> \<not> ValidHash cp J b
    \<and> difficulty b = 65"
proof -
  define b0 where "b0 = (sample_block (index g + 1) 65 0 [])
    \<lparr>hashed := (hashed (sample_block (index g + 1) 65 0 []))\<lparr>hd_prev := hash g\<rparr>\<rparr>"
  define b where "b = b0\<lparr>block_hash := CalculateBlockHash cp J b0\<rparr>"
  have h: "CalculateBlockHash cp J b = hash b"
    using CalculateBlockHash_cong [of b b0 cp J] by (simp add: b_def)
  have f: "index b = index g + 1" "previousHash b = hash g" "difficulty b = 65"
    by (simp_all add: b_def b0_def)
  have "length (hash b) = 64"
    using assms by (simp add: b_def CalculateBlockHash_def CalculateBlockHash_fields_def Let_def)
  then have "\<not> ValidHash cp J b"
    using zeros_prefix_length [of "difficulty b" "hash b"] by (auto simp: ValidHash_iff f)
  moreover have "isValidChain cp J (c\<lparr>blocks := [g, b]\<rparr>) = Ok True"
    by (simp add: isValidChain_eq linked_def h f)
  ultimately show ?thesis using f by blast
qed

theorem isValidChain_ignores_difficulty_witness:
  "\<exists>b. isValidChain sample_cp jval_lib (empty_Blockchain\<lparr>blocks := [sample_block 0 1 5 [], b]\<rparr>) = Ok True
     \<and> \<not> ValidHash sample_cp jval_lib b \<and> difficulty b = 65"
  by (rule isValidChain_ignores_difficulty) simp

text \<open>
  The bounds check of \<open>isValidBlockPair\<close> is off by one: called with the size of a non-empty
  chain it passes its own guard and throws out-of-range instead of returning false.
\<close>

theorem isValidBlockPair_at_size:
  assumes "blocks c \<noteq> []" and "length (blocks c) < 2 ^ 64"
  shows "isValidBlockPair cp J c (chain_size c) = Err OutOfRange"
proof -
  have "unat (chain_size c) = length (blocks c)" using assms(2) by (simp add: chain_size_def unat_vec_size)
  moreover from this assms(1) have "\<not> chain_size c < 1" by (simp add: word_less_nat_alt)
  ultimately show ?thesis by (simp add: isValidBlockPair_def chain_at_def vec_at_def)
qed

theorem isValidBlockPair_at_size_witness:
  "isValidBlockPair sample_cp jval_lib (empty_Blockchain\<lparr>blocks := [sample_block 0 1 5 []]\<rparr>) 1
   = Err OutOfRange"
  using isValidBlockPair_at_size [of "empty_Blockchain\<lparr>blocks := [sample_block 0 1 5 []]\<rparr>"
      sample_cp jval_lib]
  by (simp add: chain_size_def vec_size_def)

text \<open>
  C15: appending to a chain. On a non-empty chain \<open>addNewBlock\<close> never fails; it appends the block
  and returns true exactly when the block's hash is valid (correct and with the zeros its
  difficulty asks for) and it names the hash of the last block, and otherwise leaves the chain and
  the queue as they were. If the chain was linked, the new one is linked exactly when the block
  also carries the next index, which \<open>addNewBlock\<close> itself does not check.
\<close>

theorem addNewBlock_correct:
  assumes "blocks c \<noteq> []"
  shows "\<exists>ok c'. addNewBlock cp J b c = Ok (ok, c')
    \<and> (ok \<longleftrightarrow> CalculateBlockHash cp J b = hash b \<and> zeros_prefix (difficulty b) (hash b)
              \<and> previousHash b = hash (last (blocks c)))
    \<and> blocks c' = (if ok then blocks c @ [b] else blocks c) \<and> txQueue c' = txQueue c
    \<and> (ok \<and> chain_linked cp J (blocks c)
         \<longrightarrow> (chain_linked cp J (blocks c') \<longleftrightarrow> index b = index (last (blocks c)) + 1))"
  using addNewBlock_linked [OF assms, of cp J b]
  by (auto simp: addNewBlock_eq [OF assms] ValidHash_iff)

theorem addNewBlock_correct_witness:
  "addNewBlock sample_cp jval_lib (sample_block 1 3 7 []) (empty_Blockchain\<lparr>blocks := [sample_block 0 1 5 []]\<rparr>)
     = Ok (True, empty_Blockchain\<lparr>blocks := [sample_block 0 1 5 [], sample_block 1 3 7 []]\<rparr>)"
  using addNewBlock_correct [of "empty_Blockchain\<lparr>blocks := [sample_block 0 1 5 []]\<rparr>"
      sample_cp jval_lib "sample_block 1 3 7 []"]
  by (auto simp: zeros_prefix_sample addNewBlock_eq ValidHash_sample)

text \<open>
  C34: the cumulative difficulty of a chain is the sum of two to the power of the difficulty over
  all blocks except the last one, computed without overflow as long as that sum fits 64 bits.
  In particular the newest block does not count towards it.
\<close>

theorem cumDifficulty_correct:
  assumes "blocks c = bs @ [b]" and "length bs < 2 ^ 64 - 1"
    and "\<forall>b \<in> set bs. unat (difficulty b) < 64"
    and "(\<Sum>b\<leftarrow>bs. 2 ^ unat (difficulty b)) < (2::nat) ^ 64"
  shows "\<exists>w. cumDifficulty c = Ok w \<and> unat w = (\<Sum>b\<leftarrow>bs. 2 ^ unat (difficulty b))"
  using cumDifficulty_exact [of c] assms by simp

theorem cumDifficulty_correct_witness:
  "\<exists>w. cumDifficulty (empty_Blockchain\<lparr>blocks := [sample_block 0 3 5 [], sample_block 1 40 7 []]\<rparr>) = Ok w
     \<and> unat w = 8"
  using cumDifficulty_correct [of "empty_Blockchain\<lparr>blocks := [sample_block 0 3 5 [], sample_block 1 40 7 []]\<rparr>"
      "[sample_block 0 3 5 []]" "sample_block 1 40 7 []"]
  by simp

lemma u64_mod_of_nat:
  assumes "n < 2 ^ 64" and "k < 2 ^ 64"
  shows "(of_nat n mod of_nat k :: u64) = 0 \<longleftrightarrow> n mod k = 0"
proof -
  have "unat (of_nat n mod of_nat k :: u64) = n mod k"
    using assms by (simp add: unat_mod unat_of_nat64)
  then show ?thesis by (metis unat_eq_zero)
qed

lemma getAdjustedDifficulty_eq:
  assumes "blocks c = bs @ [b]" and "length (blocks c) < 2 ^ 64" and "index b = of_nat (length bs)"
    and "\<bar>sint (btime b) - sint (btime (blocks c ! (length (blocks c) - BLOCK_INTERVAL release)))\<bar> < 2 ^ 63"
  shows "getAdjustedDifficulty release c =
    Ok (if length (blocks c) mod BLOCK_INTERVAL release \<noteq> 0 then difficulty b
        else let s = ms_to_s (sint (btime b)
                       - sint (btime (blocks c ! (length (blocks c) - BLOCK_INTERVAL release))))
             in if s < int (TARGET_TIMESPAN release) div 2 then difficulty b + 1
                else if s > 2 * int (TARGET_TIMESPAN release) then difficulty b - 1
                else difficulty b)"
proof -
  define n I where "n = length (blocks c)" and "I = BLOCK_INTERVAL release"
  have I: "0 < I" "I < 2 ^ 64" by (simp_all add: I_def BLOCK_INTERVAL_def)
  have n: "0 < n" "n < 2 ^ 64" and idx: "index b + 1 = of_nat n" using assms(1-3) by (simp_all add: n_def)
  have size: "chain_size c = of_nat n" by (simp add: chain_size_def vec_size_def n_def)
  have pos: "chain_size c > 0" using n by (simp add: size word_less_nat_alt unat_of_nat64)
  have bk: "chain_back c = Ok b" by (simp add: chain_back_def assms(1))
  have mod0: "(index b + 1) mod of_nat I = 0 \<longleftrightarrow> n mod I = 0"
    using n I by (simp add: idx u64_mod_of_nat)
  show ?thesis
  proof (cases "n mod I = 0")
    case False
    then show ?thesis
      using mod0 bk pos by (simp add: getAdjustedDifficulty_def n_def I_def)
  next
    case True
    with n I have "I \<le> n" by (meson dvd_imp_le mod_0_imp_dvd)
    then have "unat (chain_size c - of_nat I) = n - I"
      using n by (simp only: size unat_of_nat64_minus)
    moreover have "n - I < n" using I n by simp
    ultimately have fst_block: "chain_at c (chain_size c - of_nat I) = Ok (blocks c ! (n - I))"
      by (simp add: chain_at_def vec_at_def n_def)
    have "\<not> (sint (btime b) - sint (btime (blocks c ! (n - I))) < - (2 ^ 63)
           \<or> 2 ^ 63 \<le> sint (btime b) - sint (btime (blocks c ! (n - I))))"
      using assms(4) unfolding n_def [symmetric] I_def [symmetric] by linarith
    then show ?thesis
      using True mod0 bk pos fst_block
      by (simp add: getAdjustedDifficulty_def n_def [symmetric] I_def [symmetric] Let_def mult.commute)
  qed
qed

text \<open>
  C33: difficulty adjustment on a chain whose last index is its position. The call never fails (the
  time difference is assumed to fit 64 bits). Between adjustment points the difficulty of the last
  block is kept; at every \<open>BLOCK_INTERVAL\<close>-th block it goes up by one when the last interval took
  less than half the target time (a clock running backwards included), down by one when it took
  more than twice the target time, and stays otherwise.
\<close>

theorem getAdjustedDifficulty_correct:
  assumes "blocks c = bs @ [b]" and "length (blocks c) < 2 ^ 64" and "index b = of_nat (length bs)"
    and "\<bar>sint (btime b) - sint (btime (blocks c ! (length (blocks c) - BLOCK_INTERVAL release)))\<bar> < 2 ^ 63"
  shows "getAdjustedDifficulty release c =
    Ok (if length (blocks c) mod BLOCK_INTERVAL release \<noteq> 0 then difficulty b
        else let s = ms_to_s (sint (btime b)
                       - sint (btime (blocks c ! (length (blocks c) - BLOCK_INTERVAL release))))
             in if s < int (TARGET_TIMESPAN release) div 2 then difficulty b + 1
                else if s > 2 * int (TARGET_TIMESPAN release) then difficulty b - 1
                else difficulty b)"
  by (rule getAdjustedDifficulty_eq [OF assms])

theorem getAdjustedDifficulty_correct_witness:
  "getAdjustedDifficulty False (empty_Blockchain\<lparr>blocks :=
     map (\<lambda>i. sample_block (of_nat i) 3 (of_nat (i * 20000)) []) [0..<9] @ [sample_block 9 4 180000 []]\<rparr>) = Ok 3"
  using getAdjustedDifficulty_correct [of "empty_Blockchain\<lparr>blocks :=
     map (\<lambda>i. sample_block (of_nat i) 3 (of_nat (i * 20000)) []) [0..<9] @ [sample_block 9 4 180000 []]\<rparr>"
     "map (\<lambda>i. sample_block (of_nat i) 3 (of_nat (i * 20000)) []) [0..<9]" "sample_block 9 4 180000 []" False]
  by (simp add: BLOCK_INTERVAL_def TARGET_TIMESPAN_def nth_append ms_to_s_def)

text \<open>
  Difficulty adjustment underflows. When the last block has difficulty zero and the interval
  took more than twice the target time, the adjusted difficulty is \<open>2^64 - 1\<close>, which no hash of 64
  characters can meet.
\<close>

theorem getAdjustedDifficulty_underflow:
  assumes "blocks c = bs @ [b]" and "length (blocks c) < 2 ^ 64" and "index b = of_nat (length bs)"
    and "length (blocks c) mod BLOCK_INTERVAL release = 0" and "difficulty b = 0"
    and "sint (btime b) - sint (btime (blocks c ! (length (blocks c) - BLOCK_INTERVAL release))) < 2 ^ 63"
    and "sint (btime b) - sint (btime (blocks c ! (length (blocks c) - BLOCK_INTERVAL release)))
      \<ge> 1000 * (2 * int (TARGET_TIMESPAN release) + 1)"
  shows "\<exists>w. getAdjustedDifficulty release c = Ok w \<and> unat w = 2 ^ 64 - 1
    \<and> (\<forall>h. length h = 64 \<longrightarrow> \<not> zeros_prefix w h)"
proof -
  define ms where "ms = sint (btime b)
    - sint (btime (blocks c ! (length (blocks c) - BLOCK_INTERVAL release)))"
  define T where "T = int (TARGET_TIMESPAN release)"
  have T: "0 < T" by (simp add: T_def TARGET_TIMESPAN_def)
  have ms: "2000 * T + 1000 \<le> ms" "ms < 2 ^ 63"
    using assms(6,7) unfolding ms_def [symmetric] T_def [symmetric] by simp_all
  from ms(1) T have pos: "0 < ms" by linarith
  have "2 * T < ms div 1000" using ms(1) by linarith
  with pos have s: "2 * T < ms_to_s ms" by (simp add: ms_to_s_def)
  with T have "\<not> ms_to_s ms < T div 2" by linarith
  moreover have "\<bar>ms\<bar> < 2 ^ 63" using ms(2) pos by simp
  ultimately have eq: "getAdjustedDifficulty release c = Ok (- 1)"
    using getAdjustedDifficulty_eq [OF assms(1-3), of release] assms(4,5) s
    unfolding ms_def [symmetric] T_def [symmetric] by (simp add: Let_def)
  have u: "unat (- 1 :: u64) = 2 ^ 64 - 1" by (rule unat_max64)
  have "\<not> zeros_prefix (- 1) h" if "length h = 64" for h
    using zeros_prefix_length [of "- 1" h] that u by auto
  with eq u show ?thesis by blast
qed

theorem getAdjustedDifficulty_underflow_witness:
  "\<exists>w. getAdjustedDifficulty False (empty_Blockchain\<lparr>blocks :=
        replicate 9 (sample_block 0 0 0 []) @ [sample_block 9 0 121000 []]\<rparr>) = Ok w
     \<and> unat w = 2 ^ 64 - 1 \<and> (\<forall>h. length h = 64 \<longrightarrow> \<not> zeros_prefix w h)"
  by (rule getAdjustedDifficulty_underflow
      [where bs = "replicate 9 (sample_block 0 0 0 [])" and b = "sample_block 9 0 121000 []"])
    (simp_all add: BLOCK_INTERVAL_def TARGET_TIMESPAN_def nth_append)

text \<open>
  A new block takes the whole queue. On a non-empty chain \<open>createUnminedBlock\<close> succeeds; the
  block has the next position as its index and names the last hash; its transactions are one
  coinbase transaction that pays the reward to the wallet, followed by the queued transactions in
  order, changed in their id only; the queue is empty afterwards and the blocks are untouched.
\<close>

theorem createUnminedBlock_correct:
  assumes "blocks c \<noteq> []"
  shows "\<exists>b c'. createUnminedBlock cp J now w c = Ok (b, c')
    \<and> index b = chain_size c \<and> previousHash b = hash (last (blocks c))
    \<and> isCoinbase (hd (transactions b)) = Ok True
    \<and> txOuts (hd (transactions b)) = [mk_TxOut w COINBASE_REWARD]
    \<and> map txIns (tl (transactions b)) = map txIns (txQueue c)
    \<and> map txOuts (tl (transactions b)) = map txOuts (txQueue c)
    \<and> (\<forall>tx \<in> set (transactions b). tx_id tx = GetTransactionId cp tx (chain_size c))
    \<and> txQueue c' = [] \<and> blocks c' = blocks c"
  by (auto simp: createUnminedBlock_eq [OF assms] calcuateId_def GetTransactionId_def
      TransactionId_text_def CreateCoinbaseTransaction_def Let_def empty_Transaction_def
      isCoinbase_Ok_iff mk_TxIn_def)

theorem createUnminedBlock_correct_witness:
  "\<exists>b c'. createUnminedBlock sample_cp jval_lib 7 ''w''
        (empty_Blockchain\<lparr>blocks := [sample_block 0 1 5 []],
           txQueue := [\<lparr>tx_id = [], txIns = [mk_TxIn 0 0 0 ''s''], txOuts = [mk_TxOut ''x'' COINBASE_REWARD]\<rparr>]\<rparr>)
      = Ok (b, c')
    \<and> index b = 1 \<and> length (transactions b) = 2 \<and> txQueue c' = []"
proof -
  let ?c = "empty_Blockchain\<lparr>blocks := [sample_block 0 1 5 []],
    txQueue := [\<lparr>tx_id = [], txIns = [mk_TxIn 0 0 0 ''s''], txOuts = [mk_TxOut ''x'' COINBASE_REWARD]\<rparr>]\<rparr>"
  from createUnminedBlock_correct [of ?c sample_cp jval_lib 7 "''w''"]
  obtain b c' where *: "createUnminedBlock sample_cp jval_lib 7 ''w'' ?c = Ok (b, c')"
    "index b = chain_size ?c" "map txIns (tl (transactions b)) = map txIns (txQueue ?c)"
    "isCoinbase (hd (transactions b)) = Ok True" "txQueue c' = []" by auto
  moreover from arg_cong [OF *(3), of length] have "length (tl (transactions b)) = 1" by simp
  ultimately show ?thesis by (cases "transactions b") (auto simp: chain_size_def vec_size_def)
qed

text \<open>
  An aborted mining attempt loses no transaction. Putting the transactions of an unmined block
  back (whatever its other fields have become) counts them and restores the queue to the queued
  transactions in their old order, with fresh ids, as long as none of them looks like a coinbase
  transaction.
\<close>

theorem reQueue_restores_queue:
  assumes "blocks c \<noteq> []" and "\<forall>tx \<in> set (txQueue c). isCoinbase tx = Ok False"
    and "createUnminedBlock cp J now w c = Ok (b, c1)" and "transactions b' = transactions b"
  shows "reQueueTransactions b' c1 =
    Ok (of_nat (length (txQueue c)), c\<lparr>txQueue := map (calcuateId cp (chain_size c)) (txQueue c)\<rparr>)"
proof -
  let ?txs = "map (calcuateId cp (chain_size c)) (txQueue c)"
  have "transactions b' = CreateCoinbaseTransaction cp (chain_size c) w # ?txs" and "c1 = c\<lparr>txQueue := []\<rparr>"
    using assms(3,4) by (auto simp: createUnminedBlock_eq [OF assms(1)])
  then show ?thesis
    using assms(2) by (subst reQueueTransactions_eq [where txs = ?txs]) auto
qed

theorem reQueue_restores_queue_witness:
  "let c = empty_Blockchain\<lparr>blocks := [sample_block 0 1 5 []],
         txQueue := [\<lparr>tx_id = ''q'', txIns = [mk_TxIn 0 0 0 ''s''], txOuts = [mk_TxOut ''x'' COINBASE_REWARD]\<rparr>]\<rparr>
   in \<exists>b c1. createUnminedBlock sample_cp jval_lib 7 ''w'' c = Ok (b, c1)
      \<and> txQueue c1 = []
      \<and> reQueueTransactions b c1 = Ok (1, c\<lparr>txQueue := map (calcuateId sample_cp 1) (txQueue c)\<rparr>)"
proof -
  define c where "c = empty_Blockchain\<lparr>blocks := [sample_block 0 1 5 []],
    txQueue := [\<lparr>tx_id = ''q'', txIns = [mk_TxIn 0 0 0 ''s''], txOuts = [mk_TxOut ''x'' COINBASE_REWARD]\<rparr>]\<rparr>"
  have ne: "blocks c \<noteq> []" and nc: "\<forall>tx \<in> set (txQueue c). isCoinbase tx = Ok False"
    by (simp_all add: c_def isCoinbase_Ok_iff mk_TxIn_def)
  obtain b c1 where eq: "createUnminedBlock sample_cp jval_lib 7 ''w'' c = Ok (b, c1)" and q: "txQueue c1 = []"
    by (simp add: createUnminedBlock_eq [OF ne])
  have "length (txQueue c) = 1" and "chain_size c = 1" by (simp_all add: c_def chain_size_def vec_size_def)
  with reQueue_restores_queue [OF ne nc eq refl] eq q show ?thesis
    unfolding c_def [symmetric] Let_def by auto
qed

text \<open>
  Sending a chain as JSON loses none of its blocks: for any JSON library with the documented
  behaviour, reading a chain from its JSON form gives exactly the blocks that were written,
  whatever blocks the target held before; the transaction queue is not transferred.
\<close>

theorem Blockchain_json_roundtrip:
  assumes "json_library J"
  shows "Blockchain_from_json J (Blockchain_to_json J c) c' = Ok (c'\<lparr>blocks := blocks c\<rparr>)"
  by (rule json_library.Blockchain_json [OF assms])

theorem Blockchain_json_roundtrip_witness:
  "Blockchain_from_json jval_lib
     (Blockchain_to_json jval_lib (empty_Blockchain\<lparr>blocks := [sample_block 0 1 5 []], txQueue := [empty_Transaction]\<rparr>))
     empty_Blockchain = Ok (empty_Blockchain\<lparr>blocks := [sample_block 0 1 5 []]\<rparr>)"
  using Blockchain_json_roundtrip [OF json_library_jval,
      of "empty_Blockchain\<lparr>blocks := [sample_block 0 1 5 []], txQueue := [empty_Transaction]\<rparr>" empty_Blockchain]
  by simp

end
