(* ===== verification/Ash_Database.thy ===== *)
theory Ash_Database
  imports Ash_Blockchain
begin

section \<open>The chain database\<close>

text \<open>
  \<^verbatim>\<open>src/src/ChainDatabase.h\<close> and \<^verbatim>\<open>src/src/ChainDatabase.cpp\<close>: the binary format of blocks and
  the operations of the class \<^verbatim>\<open>ChainDatabase\<close> on the file \<^verbatim>\<open>chain.ashdb\<close>.

  A stream is the string of its bytes. Integers and doubles are written as their memory image,
  which is little-endian on the supported platforms. A writer returns the bytes it appends; a
  reader returns the value and the rest of the stream, or \<open>ShortRead\<close> when the stream ends inside
  the value (the C++ stream then leaves the variable indeterminate).

  The locale \<open>codec\<close> is the contract of a writer and its reader: what was written is read back,
  every read consumes at least one byte, and what is read could have been written. It is proved once that the contract lifts to
  sequences of a given length and to whole files; it is interpreted for every type of the format.
\<close>

subsection \<open>Bytes\<close>

fun le_bytes :: "nat \<Rightarrow> nat \<Rightarrow> string" where
  "le_bytes 0 n = []"
| "le_bytes (Suc k) n = char_of (n mod 256) # le_bytes k (n div 256)"

fun le_value :: "string \<Rightarrow> nat" where
  "le_value [] = 0"
| "le_value (c # cs) = of_char c + 256 * le_value cs"

definition read_bytes :: "nat \<Rightarrow> string \<Rightarrow> (string \<times> string) result" where
  "read_bytes n s = (if length s < n then Err ShortRead else Ok (take n s, drop n s))"

definition write_data_u64 :: "u64 \<Rightarrow> string" where
  "write_data_u64 v = le_bytes 8 (unat v)"

definition write_data_u32 :: "u32 \<Rightarrow> string" where
  "write_data_u32 v = le_bytes 4 (unat v)"

definition write_data_double :: "double \<Rightarrow> string" where
  "write_data_double d = le_bytes 8 (unat (dbits d))"

text \<open>The size is cast to 32 bits, and only that many characters are written.\<close>

definition write_data_string :: "string \<Rightarrow> string" where
  "write_data_string dat =
     (let sz = of_nat (length dat) :: u32 in write_data_u32 sz @ take (unat sz) dat)"

definition read_data_u64 :: "string \<Rightarrow> (u64 \<times> string) result" where
  "read_data_u64 s = rbind (read_bytes 8 s) (\<lambda>(bs, r). Ok (of_nat (le_value bs), r))"

definition read_data_u32 :: "string \<Rightarrow> (u32 \<times> string) result" where
  "read_data_u32 s = rbind (read_bytes 4 s) (\<lambda>(bs, r). Ok (of_nat (le_value bs), r))"

definition read_data_double :: "string \<Rightarrow> (double \<times> string) result" where
  "read_data_double s = rbind (read_bytes 8 s) (\<lambda>(bs, r). Ok (Double (of_nat (le_value bs)), r))"

definition read_data_string :: "string \<Rightarrow> (string \<times> string) result" where
  "read_data_string s = rbind (read_data_u32 s) (\<lambda>(len, r). read_bytes (unat len) r)"

text \<open>A counted loop that reads \<open>n\<close> elements.\<close>

fun read_n :: "(string \<Rightarrow> ('a \<times> string) result) \<Rightarrow> nat \<Rightarrow> string \<Rightarrow> ('a list \<times> string) result" where
  "read_n rd 0 s = Ok ([], s)"
| "read_n rd (Suc n) s =
     rbind (rd s) (\<lambda>(x, r). rbind (read_n rd n r) (\<lambda>(xs, r'). Ok (x # xs, r')))"

text \<open>A count as 32 bits followed by the elements.\<close>

definition write_counted :: "('a \<Rightarrow> string) \<Rightarrow> 'a list \<Rightarrow> string" where
  "write_counted wr xs = write_data_u32 (of_nat (length xs)) @ concat (map wr xs)"

definition read_counted :: "(string \<Rightarrow> ('a \<times> string) result) \<Rightarrow> string \<Rightarrow> ('a list \<times> string) result" where
  "read_counted rd s = rbind (read_data_u32 s) (\<lambda>(n, r). read_n rd (unat n) r)"

subsection \<open>The block format\<close>

definition write_data_TxOutPoint :: "TxOutPoint \<Rightarrow> string" where
  "write_data_TxOutPoint pt =
     write_data_u64 (blockIndex pt) @ write_data_u64 (txIndex pt) @ write_data_u64 (txOutIndex pt)"

definition write_data_TxIn :: "TxIn \<Rightarrow> string" where
  "write_data_TxIn tx = write_data_TxOutPoint (txOutPt tx) @ write_data_string (signature tx)"

definition write_data_TxOut :: "TxOut \<Rightarrow> string" where
  "write_data_TxOut tx = write_data_string (address tx) @ write_data_double (amount tx)"

definition write_data_Transaction :: "Transaction \<Rightarrow> string" where
  "write_data_Transaction tx =
     write_data_string (tx_id tx)
     @ write_counted write_data_TxIn (txIns tx)
     @ write_counted write_data_TxOut (txOuts tx)"

definition write_block :: "Block \<Rightarrow> string" where
  "write_block b =
     write_data_u64 (index b) @ write_data_u64 (nonce b) @ write_data_u64 (difficulty b)
     @ write_data_string (data b)
     @ write_data_u64 (btime b)
     @ write_data_string (hash b) @ write_data_string (previousHash b) @ write_data_string (miner b)
     @ write_counted write_data_Transaction (transactions b)"

definition read_data_TxOutPoint :: "string \<Rightarrow> (TxOutPoint \<times> string) result" where
  "read_data_TxOutPoint s =
     rbind (read_data_u64 s) (\<lambda>(b, s).
     rbind (read_data_u64 s) (\<lambda>(t, s).
     rbind (read_data_u64 s) (\<lambda>(n, s).
       Ok (\<lparr>blockIndex = b, txIndex = t, txOutIndex = n, pt_address = None, pt_amount = None\<rparr>, s))))"

definition read_data_TxIn :: "string \<Rightarrow> (TxIn \<times> string) result" where
  "read_data_TxIn s =
     rbind (read_data_TxOutPoint s) (\<lambda>(pt, s).
     rbind (read_data_string s) (\<lambda>(sig, s). Ok (\<lparr>txOutPt = pt, signature = sig\<rparr>, s)))"

definition read_data_TxOut :: "string \<Rightarrow> (TxOut \<times> string) result" where
  "read_data_TxOut s =
     rbind (read_data_string s) (\<lambda>(a, s).
     rbind (read_data_double s) (\<lambda>(m, s). Ok (\<lparr>address = a, amount = m\<rparr>, s)))"

definition read_data_Transaction :: "string \<Rightarrow> (Transaction \<times> string) result" where
  "read_data_Transaction s =
     rbind (read_data_string s) (\<lambda>(i, s).
     rbind (read_counted read_data_TxIn s) (\<lambda>(ins, s).
     rbind (read_counted read_data_TxOut s) (\<lambda>(outs, s).
       Ok (\<lparr>tx_id = i, txIns = ins, txOuts = outs\<rparr>, s))))"

definition read_block :: "string \<Rightarrow> (Block \<times> string) result" where
  "read_block s =
     rbind (read_data_u64 s) (\<lambda>(i, s).
     rbind (read_data_u64 s) (\<lambda>(n, s).
     rbind (read_data_u64 s) (\<lambda>(df, s).
     rbind (read_data_string s) (\<lambda>(dt, s).
     rbind (read_data_u64 s) (\<lambda>(dtime, s).
     rbind (read_data_string s) (\<lambda>(h, s).
     rbind (read_data_string s) (\<lambda>(pv, s).
     rbind (read_data_string s) (\<lambda>(m, s).
     rbind (read_counted read_data_Transaction s) (\<lambda>(txs, s).
       Ok (\<lparr>hashed = \<lparr>hd_index = i, hd_nonce = n, hd_difficulty = df, hd_data = dt, hd_time = dtime,
                       hd_prev = pv, hd_txs = txs\<rparr>,
            block_hash = h, block_miner = m\<rparr>, s))))))))))"

subsection \<open>The codec contract\<close>

locale codec =
  fixes wr :: "'a \<Rightarrow> string" and rd :: "string \<Rightarrow> ('a \<times> string) result" and ok :: "'a \<Rightarrow> bool"
  assumes rd_wr: "ok x \<Longrightarrow> rd (wr x @ s) = Ok (x, s)"
    and rd_shrinks: "rd s = Ok (x, r) \<Longrightarrow> length r < length s"
    and rd_extend: "rd s = Ok (x, r) \<Longrightarrow> rd (s @ t) = Ok (x, r @ t)"
    and rd_ok: "rd s = Ok (x, r) \<Longrightarrow> ok x"
begin

lemma read_n_extend: "read_n rd n s = Ok (xs, r) \<Longrightarrow> read_n rd n (s @ t) = Ok (xs, r @ t)"
proof (induction n arbitrary: s xs)
  case (Suc n)
  then obtain x s' xs' where "rd s = Ok (x, s')" and "read_n rd n s' = Ok (xs', r)" and "xs = x # xs'"
    by (auto simp: rbind_Ok_iff)
  with Suc.IH [of s' xs'] show ?case by (simp add: rd_extend)
qed simp

lemma read_n_write:
  "list_all ok xs \<Longrightarrow> read_n rd (length xs) (concat (map wr xs) @ s) = Ok (xs, s)"
  by (induction xs) (simp_all add: rd_wr)

lemma read_n_le: "read_n rd n s = Ok (xs, r) \<Longrightarrow> length r \<le> length s"
proof (induction n arbitrary: s xs)
  case (Suc n)
  then obtain x s' xs' where "rd s = Ok (x, s')" and "read_n rd n s' = Ok (xs', r)"
    by (auto simp: rbind_Ok_iff)
  with Suc.IH [of s' xs'] rd_shrinks [of s x s'] show ?case by simp
qed simp

lemma read_n_ok: "read_n rd n s = Ok (xs, r) \<Longrightarrow> length xs = n \<and> list_all ok xs"
proof (induction n arbitrary: s xs)
  case (Suc n)
  then obtain x s' xs' where "rd s = Ok (x, s')" and "read_n rd n s' = Ok (xs', r)" and "xs = x # xs'"
    by (auto simp: rbind_Ok_iff)
  with Suc.IH [of s' xs'] rd_ok [of s x s'] show ?case by simp
qed simp

lemma wr_nonempty: "ok x \<Longrightarrow> wr x \<noteq> []"
  using rd_wr [of x "[]"] rd_shrinks [of "wr x" x "[]"] by auto

end

lemma length_le_bytes [simp]: "length (le_bytes k n) = k"
  by (induction k arbitrary: n) simp_all

lemma le_value_le_bytes: "le_value (le_bytes k n) = n mod 256 ^ k"
proof (induction k arbitrary: n)
  case (Suc k)
  have "n mod 256 ^ Suc k = n mod 256 + 256 * (n div 256 mod 256 ^ k)"
    by (simp add: mod_mult2_eq)
  then show ?case by (simp add: Suc.IH)
qed simp

lemma read_bytes_append [simp]: "length bs = n \<Longrightarrow> read_bytes n (bs @ s) = Ok (bs, s)"
  by (auto simp: read_bytes_def)

lemma read_bytes_extend [simp]: "read_bytes n s = Ok (bs, r) \<Longrightarrow> read_bytes n (s @ t) = Ok (bs, r @ t)"
  by (auto simp: read_bytes_def split: if_splits)

lemma read_bytes_length: "read_bytes n s = Ok (bs, r) \<Longrightarrow> length s = n + length r"
  by (auto simp: read_bytes_def split: if_splits)

interpretation u64_codec: codec write_data_u64 read_data_u64 "\<lambda>_. True"
proof unfold_locales
  fix v :: u64 and s
  have "unat v < 256 ^ 8" using unsigned_less [of v, where 'a = nat] by simp
  then show "read_data_u64 (write_data_u64 v @ s) = Ok (v, s)"
    by (simp add: read_data_u64_def write_data_u64_def le_value_le_bytes)
qed (auto simp: read_data_u64_def rbind_Ok_iff dest: read_bytes_length)

interpretation u32_codec: codec write_data_u32 read_data_u32 "\<lambda>_. True"
proof unfold_locales
  fix v :: u32 and s
  have "unat v < 256 ^ 4" using unsigned_less [of v, where 'a = nat] by simp
  then show "read_data_u32 (write_data_u32 v @ s) = Ok (v, s)"
    by (simp add: read_data_u32_def write_data_u32_def le_value_le_bytes)
qed (auto simp: read_data_u32_def rbind_Ok_iff dest: read_bytes_length)

interpretation double_codec: codec write_data_double read_data_double "\<lambda>_. True"
proof unfold_locales
  fix d :: double and s
  have "unat (dbits d) < 256 ^ 8" using unsigned_less [of "dbits d", where 'a = nat] by simp
  then show "read_data_double (write_data_double d @ s) = Ok (d, s)"
    by (simp add: read_data_double_def write_data_double_def le_value_le_bytes)
qed (auto simp: read_data_double_def rbind_Ok_iff dest: read_bytes_length)

definition short :: "'a list \<Rightarrow> bool" where
  "short xs = (length xs < 2 ^ 32)"

lemma unat_short: "short xs \<Longrightarrow> unat (of_nat (length xs) :: u32) = length xs"
  by (simp add: short_def unat_of_nat32)

lemma short_unat: "length xs = unat (n :: u32) \<Longrightarrow> short xs"
  using unsigned_less [of n, where 'a = nat] by (simp add: short_def)

interpretation string_codec: codec write_data_string read_data_string short
proof unfold_locales
  show "read_data_string (write_data_string x @ s) = Ok (x, s)" if "short x" for x s
    using unat_short [OF that]
    by (simp add: read_data_string_def write_data_string_def Let_def u32_codec.rd_wr)
next
  show "length r < length s" if "read_data_string s = Ok (x, r)" for s x r
    using that
    by (auto simp: read_data_string_def rbind_Ok_iff dest!: read_bytes_length u32_codec.rd_shrinks)
next
  show "read_data_string (s @ t) = Ok (x, r @ t)" if "read_data_string s = Ok (x, r)" for s x r t
    using that by (auto simp: read_data_string_def rbind_Ok_iff u32_codec.rd_extend)
next
  show "short x" if "read_data_string s = Ok (x, r)" for s x r
    using that
    by (auto simp: read_data_string_def rbind_Ok_iff read_bytes_def short_unat split: if_splits)
qed

context codec
begin

lemma counted_rd_wr:
  assumes "short xs" and "list_all ok xs"
  shows "read_counted rd (write_counted wr xs @ s) = Ok (xs, s)"
  using read_n_write [OF assms(2)]
  by (simp add: read_counted_def write_counted_def u32_codec.rd_wr unat_short [OF assms(1)])

lemma counted_shrinks: "read_counted rd s = Ok (xs, r) \<Longrightarrow> length r < length s"
  by (auto simp: read_counted_def rbind_Ok_iff dest!: u32_codec.rd_shrinks read_n_le)

lemma counted_ok: "read_counted rd s = Ok (xs, r) \<Longrightarrow> short xs \<and> list_all ok xs"
  by (auto simp: read_counted_def rbind_Ok_iff dest!: read_n_ok intro: short_unat)

lemma counted_extend: "read_counted rd s = Ok (xs, r) \<Longrightarrow> read_counted rd (s @ t) = Ok (xs, r @ t)"
  by (auto simp: read_counted_def rbind_Ok_iff u32_codec.rd_extend read_n_extend)

end

subsection \<open>The codecs of the block format\<close>

text \<open>
  What the format can hold: strings and vectors of fewer than \<open>2^32\<close> elements, and points without
  the optional address and amount, which are not written.
\<close>

definition point_storable :: "TxOutPoint \<Rightarrow> bool" where
  "point_storable pt = (pt_address pt = None \<and> pt_amount pt = None)"

definition txin_storable :: "TxIn \<Rightarrow> bool" where
  "txin_storable txin = (point_storable (txOutPt txin) \<and> short (signature txin))"

definition txout_storable :: "TxOut \<Rightarrow> bool" where
  "txout_storable txout = short (address txout)"

definition tx_storable :: "Transaction \<Rightarrow> bool" where
  "tx_storable tx = (short (tx_id tx) \<and> short (txIns tx) \<and> list_all txin_storable (txIns tx)
     \<and> short (txOuts tx) \<and> list_all txout_storable (txOuts tx))"

definition block_storable :: "Block \<Rightarrow> bool" where
  "block_storable b = (short (data b) \<and> short (hash b) \<and> short (previousHash b) \<and> short (miner b)
     \<and> short (transactions b) \<and> list_all tx_storable (transactions b))"

lemmas extends = u64_codec.rd_extend u32_codec.rd_extend double_codec.rd_extend string_codec.rd_extend

lemmas shrinks = u64_codec.rd_shrinks u32_codec.rd_shrinks double_codec.rd_shrinks string_codec.rd_shrinks

lemmas reads_ok = string_codec.rd_ok

interpretation point_codec: codec write_data_TxOutPoint read_data_TxOutPoint point_storable
proof unfold_locales
  show "length r < length s" if "read_data_TxOutPoint s = Ok (x, r)" for s x r
    using that by (auto simp: read_data_TxOutPoint_def rbind_Ok_iff dest!: shrinks)
qed (auto simp: write_data_TxOutPoint_def read_data_TxOutPoint_def point_storable_def u64_codec.rd_wr
      rbind_Ok_iff extends)

interpretation txin_codec: codec write_data_TxIn read_data_TxIn txin_storable
proof unfold_locales
  show "length r < length s" if "read_data_TxIn s = Ok (x, r)" for s x r
    using that by (auto simp: read_data_TxIn_def rbind_Ok_iff dest!: shrinks point_codec.rd_shrinks)
qed (auto simp: write_data_TxIn_def read_data_TxIn_def txin_storable_def point_codec.rd_wr
      string_codec.rd_wr rbind_Ok_iff extends point_codec.rd_extend dest: reads_ok point_codec.rd_ok)

interpretation txout_codec: codec write_data_TxOut read_data_TxOut txout_storable
proof unfold_locales
  show "length r < length s" if "read_data_TxOut s = Ok (x, r)" for s x r
    using that by (auto simp: read_data_TxOut_def rbind_Ok_iff dest!: shrinks)
qed (auto simp: write_data_TxOut_def read_data_TxOut_def txout_storable_def double_codec.rd_wr
      string_codec.rd_wr rbind_Ok_iff extends dest: reads_ok)

interpretation tx_codec: codec write_data_Transaction read_data_Transaction tx_storable
proof unfold_locales
  show "length r < length s" if "read_data_Transaction s = Ok (x, r)" for s x r
    using that
    by (auto simp: read_data_Transaction_def rbind_Ok_iff
        dest!: shrinks txin_codec.counted_shrinks txout_codec.counted_shrinks)
qed (auto simp: write_data_Transaction_def read_data_Transaction_def tx_storable_def string_codec.rd_wr
      txin_codec.counted_rd_wr txout_codec.counted_rd_wr rbind_Ok_iff extends
      txin_codec.counted_extend txout_codec.counted_extend dest: reads_ok txin_codec.counted_ok txout_codec.counted_ok)

interpretation block_codec: codec write_block read_block block_storable
proof unfold_locales
  show "length r < length s" if "read_block s = Ok (x, r)" for s x r
    using that
    by (auto simp: read_block_def rbind_Ok_iff dest!: shrinks tx_codec.counted_shrinks)
qed (auto simp: write_block_def read_block_def block_storable_def u64_codec.rd_wr string_codec.rd_wr
      tx_codec.counted_rd_wr rbind_Ok_iff extends tx_codec.counted_extend dest: reads_ok tx_codec.counted_ok)

subsection \<open>The database\<close>

text \<open>
  The state of the database: the content of \<^verbatim>\<open>chain.ashdb\<close>, or \<open>None\<close> when the file does not
  exist. The directory and the LevelDB index, which is opened but never used, have no content
  that the program reads.
\<close>

record ChainDatabase =
  dbfile :: "string option"

text \<open>Opening with \<^verbatim>\<open>ios::app\<close> creates the file if necessary and appends to it.\<close>

definition append_file :: "string \<Rightarrow> ChainDatabase \<Rightarrow> ChainDatabase" where
  "append_file bs db = db\<lparr>dbfile := Some (case dbfile db of None \<Rightarrow> bs | Some old \<Rightarrow> old @ bs)\<rparr>"

definition db_write :: "Block \<Rightarrow> ChainDatabase \<Rightarrow> ChainDatabase" where
  "db_write b db = append_file (write_block b) db"

definition db_writeChain :: "Blockchain \<Rightarrow> ChainDatabase \<Rightarrow> ChainDatabase" where
  "db_writeChain c db = append_file (concat (map write_block (blocks c))) db"

definition db_reset :: "ChainDatabase \<Rightarrow> ChainDatabase" where
  "db_reset db = db\<lparr>dbfile := None\<rparr>"

text \<open>The loop \<^verbatim>\<open>while (ifs.peek() != EOF)\<close>; it ends because every block read consumes bytes.\<close>

function load_blocks :: "string \<Rightarrow> Block list result" where
  "load_blocks s =
     (if s = [] then Ok []
      else rbind (read_block s) (\<lambda>(b, r). rbind (load_blocks r) (\<lambda>bs. Ok (b # bs))))"
  by pat_completeness auto
termination
  by (relation "measure length") (auto dest: block_codec.rd_shrinks)

declare load_blocks.simps [simp del]

text \<open>
  \<^verbatim>\<open>initialize\<close>: the genesis block comes from the callback, \<open>index_status\<close> is the outcome of
  opening the LevelDB index (an error text, or nothing).
\<close>

definition db_initialize ::
  "cryptopp \<Rightarrow> ('j, 'b) json_lib_scheme \<Rightarrow> Block \<Rightarrow> string option \<Rightarrow> Blockchain \<Rightarrow> ChainDatabase
   \<Rightarrow> (Blockchain \<times> ChainDatabase) result" where
  "db_initialize cp J genesis index_status c db =
     (let db = (if dbfile db = None then db_write genesis db else db)
      in rbind (load_blocks (the (dbfile db))) (\<lambda>bs.
         let c = c\<lparr>blocks := blocks c @ bs\<rparr>
         in rbind (isValidChain cp J c) (\<lambda>valid.
            if \<not> valid then Err (LogicError ''invalid chain'')
            else case index_status of
                   Some msg \<Rightarrow> Err (LogicError (''could not open txin index: '' @ msg))
                 | None \<Rightarrow> Ok (c, db))))"

subsection \<open>The store contract\<close>

text \<open>
  What the miner relies on: \<open>stored d\<close> is the list of blocks a later start of the program would
  load. Writing a block appends it, writing a chain appends its blocks, a reset leaves nothing.
\<close>

locale chain_store =
  fixes put :: "Block \<Rightarrow> 'd \<Rightarrow> 'd" and writeChain :: "Blockchain \<Rightarrow> 'd \<Rightarrow> 'd" and reset :: "'d \<Rightarrow> 'd"
    and stored :: "'d \<Rightarrow> Block list result" and storable :: "Block \<Rightarrow> bool"
  assumes stored_write: "storable b \<Longrightarrow> stored d = Ok bs \<Longrightarrow> stored (put b d) = Ok (bs @ [b])"
    and stored_writeChain: "list_all storable (blocks c) \<Longrightarrow> stored d = Ok bs \<Longrightarrow>
      stored (writeChain c d) = Ok (bs @ blocks c)"
    and stored_reset: "stored (reset d) = Ok []"
begin

lemma stored_rewrite: "list_all storable (blocks c) \<Longrightarrow> stored (writeChain c (reset d)) = Ok (blocks c)"
  using stored_writeChain [OF _ stored_reset] by simp

lemma stored_write_chain_in_step:
  "storable b \<Longrightarrow> stored d = Ok (blocks c) \<Longrightarrow> stored (put b d) = Ok (blocks (c\<lparr>blocks := blocks c @ [b]\<rparr>))"
  by (simp add: stored_write)

end

definition db_stored :: "ChainDatabase \<Rightarrow> Block list result" where
  "db_stored db = (case dbfile db of None \<Rightarrow> Ok [] | Some s \<Rightarrow> load_blocks s)"

lemma load_blocks_Nil [simp]: "load_blocks [] = Ok []"
  by (simp add: load_blocks.simps)

lemma load_blocks_write:
  assumes "list_all block_storable bs"
  shows "load_blocks (concat (map write_block bs) @ s) = rbind (load_blocks s) (\<lambda>bs'. Ok (bs @ bs'))"
  using assms
proof (induction bs)
  case Nil
  show ?case by (cases "load_blocks s") simp_all
next
  case (Cons b bs)
  have "load_blocks (write_block b @ (concat (map write_block bs) @ s)) =
      rbind (load_blocks (concat (map write_block bs) @ s)) (\<lambda>bs'. Ok (b # bs'))"
    using Cons.prems block_codec.wr_nonempty [of b]
    by (subst load_blocks.simps) (simp add: block_codec.rd_wr)
  with Cons show ?case by (simp add: rbind_assoc)
qed

lemma load_blocks_append:
  assumes "load_blocks s = Ok bs" and "list_all block_storable bs'"
  shows "load_blocks (s @ concat (map write_block bs')) = Ok (bs @ bs')"
  using assms(1)
proof (induction s arbitrary: bs rule: load_blocks.induct)
  case (1 s)
  show ?case
  proof (cases "s = []")
    case True
    with 1 show ?thesis using load_blocks_write [OF assms(2), of "[]"] by simp
  next
    case False
    with "1.prems" obtain b r bs1 where rd: "read_block s = Ok (b, r)" and ld: "load_blocks r = Ok bs1"
      and bs: "bs = b # bs1"
      by (auto simp: load_blocks.simps [of s] rbind_Ok_iff)
    have "load_blocks (r @ concat (map write_block bs')) = Ok (bs1 @ bs')"
      using "1.IH" [OF False rd refl ld] .
    with False rd bs show ?thesis
      by (subst load_blocks.simps) (simp add: block_codec.rd_extend)
  qed
qed

text \<open>Whatever a file holds can be stored again.\<close>

lemma load_blocks_storable: "load_blocks s = Ok bs \<Longrightarrow> list_all block_storable bs"
proof (induction s arbitrary: bs rule: load_blocks.induct)
  case (1 s)
  show ?case
  proof (cases "s = []")
    case False
    with "1.prems" obtain b r bs1 where rd: "read_block s = Ok (b, r)" and ld: "load_blocks r = Ok bs1"
      and bs: "bs = b # bs1"
      by (auto simp: load_blocks.simps [of s] rbind_Ok_iff)
    have "list_all block_storable bs1" using "1.IH" [OF False rd refl ld] .
    with block_codec.rd_ok [OF rd] bs show ?thesis by simp
  qed (use "1.prems" in simp)
qed

interpretation store: chain_store db_write db_writeChain db_reset db_stored block_storable
proof unfold_locales
  show "db_stored (db_write b d) = Ok (bs @ [b])" if "block_storable b" and "db_stored d = Ok bs" for b d bs
    using that load_blocks_append [of _ bs "[b]"] load_blocks_write [of "[b]" "[]"]
    by (auto simp: db_stored_def db_write_def append_file_def split: option.splits)
next
  show "db_stored (db_writeChain c d) = Ok (bs @ blocks c)"
    if "list_all block_storable (blocks c)" and "db_stored d = Ok bs" for c d bs
    using that load_blocks_append [of _ bs "blocks c"] load_blocks_write [of "blocks c" "[]"]
    by (auto simp: db_stored_def db_writeChain_def append_file_def split: option.splits)
next
  show "db_stored (db_reset d) = Ok []" for d by (simp add: db_stored_def db_reset_def)
qed

subsection \<open>Main results\<close>

text \<open>
  The binary format of a block loses nothing: reading a written block gives the block back and
  leaves the rest of the stream untouched, for every block whose strings and vectors have fewer
  than \<open>2^32\<close> elements and whose inputs carry no resolved address or amount.
\<close>

theorem block_format_roundtrip:
  assumes "block_storable b"
  shows "read_block (write_block b @ rest) = Ok (b, rest)"
  by (rule block_codec.rd_wr [OF assms])

theorem block_format_roundtrip_witness:
  "read_block (write_block (sample_block 1 3 7 [sample_tx]) @ ''rest'')
   = Ok (sample_block 1 3 7 [sample_tx], ''rest'')"
  by (rule block_format_roundtrip)
    (simp add: block_storable_def tx_storable_def txin_storable_def txout_storable_def
      point_storable_def short_def sample_tx_def mk_TxIn_def mk_TxOut_def sample_block_def sample_hash_def)

text \<open>
  C12: what the database holds survives a restart. After a reset and a write of a linked, storable,
  non-empty chain, followed by any number of single-block writes that extend it to a linked
  chain, initialising an empty chain from the database gives exactly those blocks in order and
  leaves the file as it was; the genesis callback is not used.
\<close>

theorem database_restart:
  assumes "blocks c \<noteq> []" and "list_all block_storable (blocks c @ bs)"
    and "chain_linked cp J (blocks c @ bs)" and "length (blocks c @ bs) < 2 ^ 32"
    and "db' = fold db_write bs (db_writeChain c (db_reset db))"
  shows "db_initialize cp J genesis None empty_Blockchain db'
    = Ok (empty_Blockchain\<lparr>blocks := blocks c @ bs\<rparr>, db')"
proof -
  have some: "dbfile (fold db_write bs d) \<noteq> None" if "dbfile d \<noteq> None" for bs d
    using that by (induction bs arbitrary: d) (simp_all add: db_write_def append_file_def)
  have st: "db_stored (fold db_write bs d) = Ok (xs @ bs)"
    if "db_stored d = Ok xs" and "list_all block_storable bs" for bs d xs
    using that by (induction bs arbitrary: d xs) (auto dest: store.stored_write)
  have "db_stored db' = Ok (blocks c @ bs)"
    unfolding assms(5) using assms(2) by (intro st store.stored_rewrite) simp_all
  moreover have "dbfile db' \<noteq> None"
    unfolding assms(5) by (rule some) (simp add: db_writeChain_def append_file_def)
  ultimately show ?thesis
    using assms(3,4)
    by (auto simp: db_initialize_def db_stored_def Let_def empty_Blockchain_def isValidChain_eq)
qed

theorem database_restart_witness:
  "\<exists>db. db_initialize sample_cp jval_lib default_Block None empty_Blockchain db
     = Ok (empty_Blockchain\<lparr>blocks := [sample_block 0 1 5 [], sample_block 1 3 7 [sample_tx]]\<rparr>, db)"
  using database_restart [of "empty_Blockchain\<lparr>blocks := [sample_block 0 1 5 []]\<rparr>"
      "[sample_block 1 3 7 [sample_tx]]" sample_cp jval_lib _ "\<lparr>dbfile = None\<rparr>" default_Block, OF _ _ _ _ refl]
  by (auto simp: block_storable_def tx_storable_def txin_storable_def txout_storable_def linked_def
      point_storable_def short_def sample_tx_def mk_TxIn_def mk_TxOut_def sample_block_def sample_hash_def)

text \<open>
  A first start, without a database file, writes the genesis block and the chain consists of
  that block alone; a file that does not hold a linked chain is refused.
\<close>

theorem database_first_start:
  assumes "block_storable genesis"
  shows "db_initialize cp J genesis None empty_Blockchain \<lparr>dbfile = None\<rparr>
      = Ok (empty_Blockchain\<lparr>blocks := [genesis]\<rparr>, \<lparr>dbfile = Some (write_block genesis)\<rparr>)
    \<and> (load_blocks s = Ok bs \<and> length bs < 2 ^ 32 \<and> \<not> chain_linked cp J bs
        \<longrightarrow> db_initialize cp J genesis st empty_Blockchain \<lparr>dbfile = Some s\<rparr>
            = Err (LogicError ''invalid chain''))"
proof -
  have "load_blocks (write_block genesis) = Ok [genesis]"
    using load_blocks_write [of "[genesis]" "[]"] assms by simp
  then show ?thesis
    by (simp add: db_initialize_def db_write_def append_file_def Let_def empty_Blockchain_def isValidChain_eq)
qed

theorem database_first_start_witness:
  "db_initialize sample_cp jval_lib (sample_block 0 1 5 []) None empty_Blockchain \<lparr>dbfile = None\<rparr>
     = Ok (empty_Blockchain\<lparr>blocks := [sample_block 0 1 5 []]\<rparr>, \<lparr>dbfile = Some (write_block (sample_block 0 1 5 []))\<rparr>)"
  using database_first_start [of "sample_block 0 1 5 []" sample_cp jval_lib]
  by (simp add: block_storable_def short_def sample_block_def sample_hash_def)

end
