(* ===== verification/Ash_Miner.thy ===== *)
theory Ash_Miner
  imports Ash_Blockchain
begin

unbundle bit_operations_syntax

section \<open>The miner\<close>

text \<open>
  \<^verbatim>\<open>src/src/Miner.h\<close>. \<^verbatim>\<open>mineBlock\<close> tries one nonce after the other until the hash starts with
  enough zeros. The loop need not end, and it depends on other threads and on the clock: what it
  observes of them is the record \<open>mine_env\<close>, indexed by the number of the iteration. A call that
  does not return is \<open>None\<close>.

  The results: a successful return carries a block with valid proof of work that differs from the
  given one only in the mined fields; the call returns as soon as an attempt succeeds, and it is
  the first successful attempt that is returned; and an abort leaves the block unchanged.
\<close>

datatype ResultType = MINE_SUCCESS | MINE_TIMEOUT | MINE_ABORT

record Miner =
  m_difficulty :: u64

definition setDifficulty :: "u64 \<Rightarrow> Miner \<Rightarrow> Miner" where
  "setDifficulty v m = m\<lparr>m_difficulty := v\<rparr>"

text \<open>
  \<open>env_keep k\<close> is what the \<open>k\<close>-th load of \<^verbatim>\<open>_keepTrying\<close> yields (\<^verbatim>\<open>abort()\<close> stores false from
  another thread), \<open>env_callback k\<close> what the callback answers in iteration \<open>k\<close>, \<open>env_clock k\<close> the
  clock reading in that iteration and \<open>env_start\<close> the one before the loop.
\<close>

record mine_env =
  env_start :: BlockTime
  env_keep :: "nat \<Rightarrow> bool"
  env_callback :: "nat \<Rightarrow> bool"
  env_clock :: "nat \<Rightarrow> BlockTime"

text \<open>The hash of one attempt, as a function of the nonce and the time.\<close>

definition attempt_hash :: "cryptopp \<Rightarrow> ('j, 'b) json_lib_scheme \<Rightarrow> u64 \<Rightarrow> Block \<Rightarrow> u64 \<Rightarrow> BlockTime \<Rightarrow> string" where
  "attempt_hash cp J diff b non t =
     CalculateBlockHash_fields cp (index b) non diff t (data b) (previousHash b)
       (extra_hash cp J (transactions b))"

text \<open>
  The loop. Its result is nothing when the callback asked to stop, and otherwise the number of
  the last iteration with the nonce, time and hash it ended with.
\<close>

partial_function (option) mine_loop ::
  "cryptopp \<Rightarrow> ('j, 'b) json_lib_scheme \<Rightarrow> u64 \<Rightarrow> mine_env \<Rightarrow> Block \<Rightarrow> nat \<Rightarrow> u64 \<Rightarrow> BlockTime \<Rightarrow> string
   \<Rightarrow> (nat \<times> u64 \<times> BlockTime \<times> string) option option" where
  "mine_loop cp J diff env b k non t h =
     (if env_keep env k \<and> \<not> zeros_prefix diff h
      then if non AND 0x3ffff = 0 \<and> \<not> env_callback env k then Some None
           else let t' = (if non AND 0x3ffff = 0 then env_clock env k else t);
                    non' = non + 1;
                    h' = attempt_hash cp J diff b non' t'
                in mine_loop cp J diff env b (Suc k) non' t' h'
      else Some (Some (k, non, t, h)))"

definition mineBlock ::
  "cryptopp \<Rightarrow> ('j, 'b) json_lib_scheme \<Rightarrow> Miner \<Rightarrow> mine_env \<Rightarrow> Block \<Rightarrow> (ResultType \<times> Block) result option" where
  "mineBlock cp J m env b =
     (if \<not> index b > 0 then Some (Err AssertFailed)
      else if \<not> (previousHash b \<noteq> [] \<or> index b - 1 = 0) then Some (Err AssertFailed)
      else let diff = m_difficulty m; t = env_start env; h = attempt_hash cp J diff b 0 t
           in case mine_loop cp J diff env b 0 0 t h of
                None \<Rightarrow> None
              | Some None \<Rightarrow> Some (Ok (MINE_ABORT, b))
              | Some (Some (k, non, t, h)) \<Rightarrow>
                  if \<not> env_keep env (Suc k) then Some (Ok (MINE_ABORT, b))
                  else Some (Ok (MINE_SUCCESS, setMinedData non diff t h b)))"

subsection \<open>What a returned result says\<close>

text \<open>Once another thread has stored false in the flag, it stays so for the rest of the call.\<close>

definition keep_stable :: "mine_env \<Rightarrow> bool" where
  "keep_stable env = (\<forall>k. env_keep env (Suc k) \<longrightarrow> env_keep env k)"

lemma mine_loop_result:
  assumes ret: "mine_loop cp J diff env b k non t h = Some r" and "h = attempt_hash cp J diff b non t"
    and "r = Some (k', non', t', h')"
  shows "h' = attempt_hash cp J diff b non' t' \<and> (zeros_prefix diff h' \<or> \<not> env_keep env k')"
proof -
  have "h = attempt_hash cp J diff b non t \<longrightarrow> (\<forall>k' non' t' h'. r = Some (k', non', t', h') \<longrightarrow>
      h' = attempt_hash cp J diff b non' t' \<and> (zeros_prefix diff h' \<or> \<not> env_keep env k'))"
  proof (rule mine_loop.raw_induct [where P = "\<lambda>cp J diff env b k non t h r.
      h = attempt_hash cp J diff b non t \<longrightarrow> (\<forall>k' non' t' h'. r = Some (k', non', t', h') \<longrightarrow>
        h' = attempt_hash cp J diff b non' t' \<and> (zeros_prefix diff h' \<or> \<not> env_keep env k'))", OF _ ret],
      goal_cases)
    case (1 f cp J diff env b k non t h r)
    note IH = 1(1) and eq = 1(2)
    let ?t' = "if non AND 0x3ffff = 0 then env_clock env k else t"
    consider (stop) "\<not> (env_keep env k \<and> \<not> zeros_prefix diff h)" "r = Some (k, non, t, h)"
      | (callback) "r = None"
      | (go) "f cp J diff env b (Suc k) (non + 1) ?t' (attempt_hash cp J diff b (non + 1) ?t') = Some r"
      using eq unfolding Let_def by (metis option.inject)
    then show ?case
    proof cases
      case go
      from IH [OF this] show ?thesis by blast
    qed auto
  qed
  with assms(2,3) show ?thesis by blast
qed

lemma mineBlock_success:
  assumes "mineBlock cp J m env b = Some (Ok (MINE_SUCCESS, b'))" and "keep_stable env"
  shows "ValidHash cp J b'" and "difficulty b' = m_difficulty m"
    and "\<exists>non t h. b' = setMinedData non (m_difficulty m) t h b"
proof -
  from assms(1) obtain k non t h where
    loop: "mine_loop cp J (m_difficulty m) env b 0 0 (env_start env)
      (attempt_hash cp J (m_difficulty m) b 0 (env_start env)) = Some (Some (k, non, t, h))"
    and keep: "env_keep env (Suc k)" and b': "b' = setMinedData non (m_difficulty m) t h b"
    by (auto simp: mineBlock_def Let_def split: if_splits option.splits)
  from mine_loop_result [OF loop refl refl] keep assms(2)
  have "h = attempt_hash cp J (m_difficulty m) b non t" and "zeros_prefix (m_difficulty m) h"
    by (auto simp: keep_stable_def)
  then show "ValidHash cp J b'"
    by (simp add: ValidHash_iff b' CalculateBlockHash_setMinedData attempt_hash_def)
  show "difficulty b' = m_difficulty m" by (simp add: b')
  show "\<exists>non t h. b' = setMinedData non (m_difficulty m) t h b" using b' by blast
qed

lemma mineBlock_abort: "mineBlock cp J m env b = Some (Ok (MINE_ABORT, b')) \<Longrightarrow> b' = b"
  by (auto simp: mineBlock_def Let_def split: if_splits option.splits)

subsection \<open>When the loop returns\<close>

text \<open>The time in use in iteration \<open>k\<close>, and the hash that iteration \<open>k\<close> tests.\<close>

fun mine_time :: "mine_env \<Rightarrow> nat \<Rightarrow> BlockTime" where
  "mine_time env 0 = env_start env"
| "mine_time env (Suc k) = (if of_nat k AND (0x3ffff :: u64) = 0 then env_clock env k else mine_time env k)"

definition try_hash :: "cryptopp \<Rightarrow> ('j, 'b) json_lib_scheme \<Rightarrow> u64 \<Rightarrow> mine_env \<Rightarrow> Block \<Rightarrow> nat \<Rightarrow> string" where
  "try_hash cp J diff env b k = attempt_hash cp J diff b (of_nat k) (mine_time env k)"

abbreviation mine_from ::
  "cryptopp \<Rightarrow> ('j, 'b) json_lib_scheme \<Rightarrow> u64 \<Rightarrow> mine_env \<Rightarrow> Block \<Rightarrow> nat \<Rightarrow> (nat \<times> u64 \<times> BlockTime \<times> string) option option" where
  "mine_from cp J diff env b k \<equiv>
     mine_loop cp J diff env b k (of_nat k) (mine_time env k) (try_hash cp J diff env b k)"

lemma mine_from_step:
  assumes "env_keep env k" and "\<not> zeros_prefix diff (try_hash cp J diff env b k)" and "env_callback env k"
  shows "mine_from cp J diff env b k = mine_from cp J diff env b (Suc k)"
  using assms by (subst mine_loop.simps) (simp add: Let_def try_hash_def add.commute)

lemma mine_from_steps:
  assumes "\<And>j. j < n \<Longrightarrow> env_keep env j \<and> env_callback env j \<and> \<not> zeros_prefix diff (try_hash cp J diff env b j)"
  shows "mine_from cp J diff env b 0 = mine_from cp J diff env b n"
  using assms by (induction n) (simp_all add: mine_from_step)

lemma mine_from_stop:
  assumes "\<not> env_keep env n \<or> zeros_prefix diff (try_hash cp J diff env b n)"
  shows "mine_from cp J diff env b n = Some (Some (n, of_nat n, mine_time env n, try_hash cp J diff env b n))"
  using assms by (subst mine_loop.simps) (rule if_not_P, blast)

lemma mineBlock_eq:
  assumes "index b > 0" and "previousHash b \<noteq> [] \<or> index b = 1"
  shows "mineBlock cp J m env b =
    (case mine_from cp J (m_difficulty m) env b 0 of
       None \<Rightarrow> None
     | Some None \<Rightarrow> Some (Ok (MINE_ABORT, b))
     | Some (Some (k, non, t, h)) \<Rightarrow>
         if \<not> env_keep env (Suc k) then Some (Ok (MINE_ABORT, b))
         else Some (Ok (MINE_SUCCESS, setMinedData non (m_difficulty m) t h b)))"
  using assms by (auto simp: mineBlock_def Let_def try_hash_def)

lemma mine_from_callback:
  assumes "env_keep env n" and "\<not> zeros_prefix diff (try_hash cp J diff env b n)"
    and "of_nat n AND (0x3ffff :: u64) = 0" and "\<not> env_callback env n"
  shows "mine_from cp J diff env b n = Some None"
  using assms by (subst mine_loop.simps) simp

subsection \<open>Main results\<close>

text \<open>
  C16: a successful mining result is a block with valid proof of work. Its hash is correct and
  starts with as many zeros as the miner's difficulty, its difficulty field is that difficulty,
  and its index, previous hash, data, transactions and miner are those of the block that was given.
\<close>

theorem mineBlock_sound:
  assumes "mineBlock cp J m env b = Some (Ok (MINE_SUCCESS, b'))" and "keep_stable env"
  shows "ValidHash cp J b' \<and> zeros_prefix (m_difficulty m) (hash b') \<and> difficulty b' = m_difficulty m
    \<and> index b' = index b \<and> previousHash b' = previousHash b \<and> data b' = data b
    \<and> transactions b' = transactions b \<and> miner b' = miner b"
proof -
  obtain non t h where b': "b' = setMinedData non (m_difficulty m) t h b"
    using mineBlock_success(3) [OF assms] by blast
  have "miner b' = miner b" by (simp add: b' setMinedData_def)
  with mineBlock_success(1,2) [OF assms] show ?thesis by (simp add: b' ValidHash_iff)
qed

definition sample_env :: mine_env where
  "sample_env = \<lparr>env_start = 100, env_keep = (\<lambda>_. True), env_callback = (\<lambda>_. True),
     env_clock = (\<lambda>k. of_nat k)\<rparr>"

lemma mine_from_sample:
  "unat d \<le> 64 \<Longrightarrow> mine_from sample_cp J d sample_env b 0
     = Some (Some (0, of_nat 0, mine_time sample_env 0, try_hash sample_cp J d sample_env b 0))"
  using zeros_prefix_sample
  by (intro mine_from_stop)
    (simp add: try_hash_def attempt_hash_def CalculateBlockHash_fields_def sample_hash_def)

lemma mineBlock_sample:
  "unat d \<le> 64 \<Longrightarrow> mineBlock sample_cp J \<lparr>m_difficulty = d\<rparr> sample_env (sample_block 1 1 5 [])
     = Some (Ok (MINE_SUCCESS, setMinedData 0 d 100 sample_hash (sample_block 1 1 5 [])))"
  using mine_from_sample [of d J "sample_block 1 1 5 []"]
  by (subst mineBlock_eq)
    (simp_all add: sample_env_def try_hash_def attempt_hash_def CalculateBlockHash_fields_def
      sample_hash_def)

theorem mineBlock_sound_witness:
  "\<exists>b'. mineBlock sample_cp jval_lib \<lparr>m_difficulty = 4\<rparr> sample_env (sample_block 1 1 5 [])
       = Some (Ok (MINE_SUCCESS, b'))
     \<and> ValidHash sample_cp jval_lib b' \<and> difficulty b' = 4 \<and> index b' = 1"
proof -
  have "keep_stable sample_env" by (simp add: keep_stable_def sample_env_def)
  with mineBlock_sound [OF mineBlock_sample [of 4 jval_lib]] show ?thesis
    by (simp add: mineBlock_sample)
qed

text \<open>
  C17: mining returns the first solution. If none of the first \<open>n\<close> attempts has a good enough hash,
  attempt \<open>n\<close> has one, and nobody asks to stop until then, the call returns successfully with
  nonce \<open>n\<close>, the time in use in that iteration and the hash of that attempt. Attempt \<open>k\<close> uses
  nonce \<open>k\<close> (modulo \<open>2^64\<close>), and the clock is read again after every \<open>2^18\<close>-th nonce.
\<close>

theorem mineBlock_first_solution:
  assumes "index b > 0" and "previousHash b \<noteq> [] \<or> index b = 1"
    and "\<And>j. j < n \<Longrightarrow> \<not> zeros_prefix (m_difficulty m) (try_hash cp J (m_difficulty m) env b j)"
    and "zeros_prefix (m_difficulty m) (try_hash cp J (m_difficulty m) env b n)"
    and "\<And>j. j < n \<Longrightarrow> env_callback env j" and "\<And>j. j \<le> Suc n \<Longrightarrow> env_keep env j"
  shows "mineBlock cp J m env b = Some (Ok (MINE_SUCCESS,
    setMinedData (of_nat n) (m_difficulty m) (mine_time env n) (try_hash cp J (m_difficulty m) env b n) b))"
proof -
  have "mine_from cp J (m_difficulty m) env b 0 = mine_from cp J (m_difficulty m) env b n"
    using assms(3,5,6) by (intro mine_from_steps) auto
  also have "\<dots> = Some (Some (n, of_nat n, mine_time env n, try_hash cp J (m_difficulty m) env b n))"
    using assms(4) by (intro mine_from_stop) blast
  finally show ?thesis using assms(6) by (simp add: mineBlock_eq [OF assms(1,2)])
qed

text \<open>An instance in which the attempt with nonce 0 fails and that with nonce 1 succeeds.\<close>

definition second_cp :: cryptopp where
  "second_cp = sample_cp\<lparr>cp_sha256 := \<lambda>s. if take 2 s = ''11'' then sample_hash else ''f''\<rparr>"

lemma second_hash:
  "try_hash second_cp J d env (sample_block 1 1 5 []) 0 = ''f''" "try_hash second_cp J d env (sample_block 1 1 5 []) 1 = sample_hash"
  by (simp_all add: try_hash_def attempt_hash_def CalculateBlockHash_fields_def SHA256_def second_cp_def sample_cp_def show_nat.simps digit_char_def char_of_def bit_0)

theorem mineBlock_first_solution_witness:
  "mineBlock second_cp jval_lib \<lparr>m_difficulty = 4\<rparr> sample_env (sample_block 1 1 5 [])
     = Some (Ok (MINE_SUCCESS, setMinedData 1 4 0 sample_hash (sample_block 1 1 5 [])))"
proof -
  have "\<not> zeros_prefix 4 ''f''" by (auto simp: zeros_prefix_def dest!: arg_cong [where f = length])
  then show ?thesis
    using mineBlock_first_solution [of "sample_block 1 1 5 []" 1 "\<lparr>m_difficulty = 4\<rparr>" second_cp jval_lib sample_env] second_hash [of jval_lib 4 sample_env]
    by (simp add: zeros_prefix_sample) (simp add: sample_env_def)
qed

text \<open>
  C18: mining can be stopped. If the first \<open>n\<close> attempts fail and, in iteration \<open>n\<close>, either the flag has
  been cleared or the attempt fails too and the callback, asked at every \<open>2^18\<close>-th nonce, declines, then the
  call returns with an abort and the block is unchanged.
\<close>

theorem mineBlock_stops:
  assumes "index b > 0" and "previousHash b \<noteq> [] \<or> index b = 1" and "keep_stable env"
    and "\<And>j. j < n \<Longrightarrow> env_keep env j \<and> env_callback env j
            \<and> \<not> zeros_prefix (m_difficulty m) (try_hash cp J (m_difficulty m) env b j)"
    and "\<not> env_keep env n
      \<or> \<not> zeros_prefix (m_difficulty m) (try_hash cp J (m_difficulty m) env b n)
        \<and> of_nat n AND (0x3ffff :: u64) = 0 \<and> \<not> env_callback env n"
  shows "mineBlock cp J m env b = Some (Ok (MINE_ABORT, b))"
proof (cases "env_keep env n")
  case True
  with assms(5) have "mine_from cp J (m_difficulty m) env b n = Some None"
    by (intro mine_from_callback) auto
  with mine_from_steps [OF assms(4)] show ?thesis by (simp add: mineBlock_eq [OF assms(1,2)])
next
  case False
  with assms(3) have "\<not> env_keep env (Suc n)" by (auto simp: keep_stable_def)
  with False mine_from_steps [OF assms(4)] show ?thesis
    by (simp add: mineBlock_eq [OF assms(1,2)] mine_from_stop)
qed

theorem mineBlock_stops_witness:
  "mineBlock sample_cp jval_lib \<lparr>m_difficulty = 65\<rparr> (sample_env\<lparr>env_callback := (\<lambda>_. False)\<rparr>) (sample_block 1 1 5 [])
     = Some (Ok (MINE_ABORT, sample_block 1 1 5 []))"
proof -
  have h: "try_hash sample_cp jval_lib d env b 0 = sample_hash" for d b env
    by (simp add: try_hash_def attempt_hash_def CalculateBlockHash_fields_def sample_hash_def)
  show ?thesis
    using mineBlock_stops [of "sample_block 1 1 5 []" "sample_env\<lparr>env_callback := (\<lambda>_. False)\<rparr>" 0
        "\<lparr>m_difficulty = 65\<rparr>" sample_cp jval_lib]
    by (simp add: h zeros_prefix_sample keep_stable_def) (simp add: sample_env_def)
qed

end
