(* ===== verification/Ash_Ledger.thy ===== *)
theory Ash_Ledger
  imports Ash_Blockchain
begin

section \<open>Unspent outputs, ledgers and new transactions\<close>

text \<open>
  The free functions of \<^verbatim>\<open>src/src/Blockchain.cpp\<close> over a chain: the unspent outputs, the details of
  a block, the ledger and the balance of an address, the construction of a new transaction and the
  search for one, with the JSON form of ledgers.

  \<^verbatim>\<open>GetUnspentTxOuts\<close> collects its result in a \<^verbatim>\<open>std::set\<close> that is ordered by a 64-bit hash of
  the point and takes two points with the same hash for equal. The set is modelled as the list of
  its elements in order; the locale \<open>keyed_set\<close> states the contract. The main result is that,
  as long as no two outputs of the chain collide, the function returns exactly the outputs that no
  later transaction spends.
\<close>

subsection \<open>An ordered set keyed by a hash\<close>

fun set_insert :: "('a \<Rightarrow> u64) \<Rightarrow> 'a \<Rightarrow> 'a list \<Rightarrow> 'a list" where
  "set_insert key x [] = [x]"
| "set_insert key x (y # ys) =
     (if key x < key y then x # y # ys
      else if key y < key x then y # set_insert key x ys
      else y # ys)"

text \<open>\<^verbatim>\<open>find_if\<close> followed by \<^verbatim>\<open>erase\<close>, if something was found.\<close>

fun erase_first :: "('a \<Rightarrow> bool) \<Rightarrow> 'a list \<Rightarrow> 'a list" where
  "erase_first P [] = []"
| "erase_first P (y # ys) = (if P y then ys else y # erase_first P ys)"

subsection \<open>Unspent outputs\<close>

definition same_point :: "TxOutPoint \<Rightarrow> TxOutPoint \<Rightarrow> bool" where
  "same_point p q \<longleftrightarrow> blockIndex p = blockIndex q \<and> txIndex p = txIndex q \<and> txOutIndex p = txOutIndex q"

definition unspent_insert_out ::
  "hash_lib \<Rightarrow> string \<Rightarrow> u64 \<Rightarrow> u64 \<Rightarrow> nat \<times> TxOut \<Rightarrow> UnspentTxOuts \<Rightarrow> UnspentTxOuts" where
  "unspent_insert_out H addr bi ti item outs =
     (case item of (oi, txout) \<Rightarrow>
        if addr \<noteq> [] \<and> address txout \<noteq> addr then outs
        else set_insert (hash_TxOutPoint H)
               \<lparr>blockIndex = bi, txIndex = ti, txOutIndex = of_nat oi,
                pt_address = Some (address txout), pt_amount = Some (amount txout)\<rparr> outs)"

definition unspent_tx ::
  "hash_lib \<Rightarrow> string \<Rightarrow> u64 \<Rightarrow> nat \<times> Transaction \<Rightarrow> UnspentTxOuts \<Rightarrow> UnspentTxOuts result" where
  "unspent_tx H addr bi item outs =
     (case item of (ti, tx) \<Rightarrow>
        rbind (massert (txIns tx \<noteq> [])) (\<lambda>_.
        rbind (massert (txOuts tx \<noteq> [])) (\<lambda>_.
          let outs = fold (unspent_insert_out H addr bi (of_nat ti)) (enumerate 0 (txOuts tx)) outs
          in rbind (isCoinbase tx) (\<lambda>cb.
             if cb then Ok outs
             else Ok (fold (\<lambda>txin outs. erase_first (same_point (txOutPt txin)) outs) (txIns tx) outs)))))"

definition unspent_block ::
  "hash_lib \<Rightarrow> string \<Rightarrow> Block \<Rightarrow> UnspentTxOuts \<Rightarrow> UnspentTxOuts result" where
  "unspent_block H addr b outs =
     rfold (unspent_tx H addr (index b)) (enumerate 0 (transactions b)) outs"

definition GetUnspentTxOuts :: "hash_lib \<Rightarrow> Blockchain \<Rightarrow> string \<Rightarrow> UnspentTxOuts result" where
  "GetUnspentTxOuts H c addr = rfold (unspent_block H addr) (blocks c) []"

subsection \<open>Block details\<close>

definition resolve_txin :: "Blockchain \<Rightarrow> TxIn \<Rightarrow> TxIn result" where
  "resolve_txin c txin =
     (let txpt = txOutPt txin in
      rbind (massert (blockIndex txpt < chain_size c)) (\<lambda>_.
      rbind (chain_at c (blockIndex txpt)) (\<lambda>blk.
      rbind (massert (txIndex txpt < vec_size (transactions blk))) (\<lambda>_.
      rbind (vec_at (transactions blk) (txIndex txpt)) (\<lambda>tx.
      rbind (massert (txOutIndex txpt < vec_size (txOuts tx))) (\<lambda>_.
      rbind (vec_at (txOuts tx) (txOutIndex txpt)) (\<lambda>txout.
        Ok (txin\<lparr>txOutPt := txpt\<lparr>pt_address := Some (address txout), pt_amount := Some (amount txout)\<rparr>\<rparr>))))))))"

definition resolve_tx :: "Blockchain \<Rightarrow> Transaction \<Rightarrow> Transaction result" where
  "resolve_tx c tx = rbind (rmap (resolve_txin c) (txIns tx)) (\<lambda>ins. Ok (tx\<lparr>txIns := ins\<rparr>))"

definition GetBlockDetails :: "Blockchain \<Rightarrow> u64 \<Rightarrow> Block result" where
  "GetBlockDetails c i =
     rbind (chain_at c i) (\<lambda>retblock.
     rbind (rmap (resolve_tx c) (transactions retblock)) (\<lambda>txs.
       Ok (setTransactions txs retblock)))"

subsection \<open>Ledgers\<close>

record LedgerInfo =
  blockIdx :: u64
  txid :: string
  li_time :: BlockTime
  li_amount :: double

type_synonym AddressLedger = "LedgerInfo list"

definition LedgerInfo_eq :: "LedgerInfo \<Rightarrow> LedgerInfo \<Rightarrow> bool" where
  "LedgerInfo_eq a b \<longleftrightarrow> blockIdx a = blockIdx b \<and> txid a = txid b"

text \<open>Dereferencing an empty \<^verbatim>\<open>std::optional\<close> is undefined.\<close>

definition deref :: "'a option \<Rightarrow> 'a result" where
  "deref x = (case x of None \<Rightarrow> Err UndefinedBehaviour | Some v \<Rightarrow> Ok v)"

definition txIn_total :: "TxIns \<Rightarrow> double result" where
  "txIn_total txins =
     rfold (\<lambda>txin accum. rbind (deref (pt_amount (txOutPt txin))) (\<lambda>a. Ok (dbl_add accum a))) txins dbl_zero"

definition ledger_tx :: "string \<Rightarrow> Block \<Rightarrow> Transaction \<Rightarrow> AddressLedger \<Rightarrow> AddressLedger result" where
  "ledger_tx addr b tx ledger =
     rbind (massert (txOuts tx \<noteq> [])) (\<lambda>_.
       let ledger = (case find (\<lambda>txout. address txout = addr) (txOuts tx) of
                       None \<Rightarrow> ledger
                     | Some txout \<Rightarrow> ledger @ [\<lparr>blockIdx = index b, txid = tx_id tx,
                                               li_time = btime b, li_amount = amount txout\<rparr>])
       in rbind (massert (txIns tx \<noteq> [])) (\<lambda>_.
          rbind (vec_at (txIns tx) 0) (\<lambda>txin0.
          rbind (massert (pt_address (txOutPt txin0) \<noteq> None)) (\<lambda>_.
          rbind (isCoinbase tx) (\<lambda>cb.
            if \<not> cb \<and> pt_address (txOutPt txin0) = Some addr
            then rbind (txIn_total (txIns tx)) (\<lambda>txInTotal.
                 rbind (vec_back ledger) (\<lambda>entry.
                   let amt = dbl_sub txInTotal (li_amount entry)
                   in Ok (butlast ledger @ [\<lparr>blockIdx = index b, txid = tx_id tx,
                                            li_time = btime b, li_amount = dbl_times_minus1 amt\<rparr>])))
            else Ok ledger)))))"

definition GetAddressLedger :: "Blockchain \<Rightarrow> string \<Rightarrow> AddressLedger result" where
  "GetAddressLedger c addr =
     rfold (\<lambda>b ledger.
        rbind (GetBlockDetails c (index b)) (\<lambda>fullblock.
          rfold (ledger_tx addr b) (transactions fullblock) ledger))
       (blocks c) []"

definition GetAddressBalance :: "Blockchain \<Rightarrow> string \<Rightarrow> double result" where
  "GetAddressBalance c addr =
     rbind (GetAddressLedger c addr) (\<lambda>ledger. Ok (dbl_sum (map li_amount ledger)))"

subsection \<open>New transactions\<close>

text \<open>
  The loop over the sender's unspent outputs; it stops as soon as they cover the amount. The
  result is the collected amount, what is left over, and the outputs taken.
\<close>

fun select_unspent ::
  "double \<Rightarrow> UnspentTxOuts \<Rightarrow> double \<Rightarrow> UnspentTxOuts \<Rightarrow> (double \<times> double \<times> UnspentTxOuts) result" where
  "select_unspent amt [] currentAmount included = Ok (currentAmount, dbl_zero, included)"
| "select_unspent amt (unspent # rest) currentAmount included =
     rbind (massert (pt_amount unspent \<noteq> None)) (\<lambda>_.
     rbind (deref (pt_amount unspent)) (\<lambda>a.
       let included = included @ [unspent];
           currentAmount = dbl_add currentAmount a
       in if dbl_ge currentAmount amt
          then Ok (currentAmount, dbl_sub currentAmount amt, included)
          else select_unspent amt rest currentAmount included))"

text \<open>\<open>ieq\<close> stands for \<^verbatim>\<open>boost::iequals\<close>.\<close>

definition CreateTransaction ::
  "cryptopp \<Rightarrow> hash_lib \<Rightarrow> (string \<Rightarrow> string \<Rightarrow> bool) \<Rightarrow> Blockchain \<Rightarrow> string \<Rightarrow> string \<Rightarrow> double
   \<Rightarrow> (TxResult \<times> Transaction) result" where
  "CreateTransaction cp H ieq c senderPK receiver amt =
     (let senderAddress = GetAddressFromPrivateKey cp senderPK in
      if ieq receiver senderAddress then Ok (NOOP_TRANSACTION, empty_Transaction)
      else rbind (GetUnspentTxOuts H c senderAddress) (\<lambda>senderUnspentList.
        if senderUnspentList = [] then Ok (TXOUTS_EMPTY, empty_Transaction)
        else rbind (select_unspent amt senderUnspentList dbl_zero []) (\<lambda>(currentAmount, leftoverAmount, included).
          if dbl_lt currentAmount amt then Ok (INSUFFICIENT_FUNDS, empty_Transaction)
          else let ins = map (\<lambda>uout. mk_TxIn (blockIndex uout) (txIndex uout) (txOutIndex uout) ''signature'') included;
                   outs = [mk_TxOut receiver amt]
                        @ (if dbl_lt dbl_zero leftoverAmount then [mk_TxOut senderAddress leftoverAmount] else [])
               in Ok (SUCCESS, empty_Transaction\<lparr>txIns := ins, txOuts := outs\<rparr>))))"

text \<open>The search stops at the first transaction with the id.\<close>

fun find_in_txs :: "string \<Rightarrow> u64 \<Rightarrow> (nat \<times> Transaction) list \<Rightarrow> (u64 \<times> u64) option" where
  "find_in_txs i bi [] = None"
| "find_in_txs i bi ((n, tx) # txs) = (if tx_id tx = i then Some (bi, of_nat n) else find_in_txs i bi txs)"

fun find_in_blocks :: "string \<Rightarrow> Block list \<Rightarrow> (u64 \<times> u64) option" where
  "find_in_blocks i [] = None"
| "find_in_blocks i (b # bs) =
     (case find_in_txs i (index b) (enumerate 0 (transactions b)) of
        Some p \<Rightarrow> Some p
      | None \<Rightarrow> find_in_blocks i bs)"

definition FindTransaction :: "Blockchain \<Rightarrow> string \<Rightarrow> (u64 \<times> u64) option" where
  "FindTransaction c i = find_in_blocks i (blocks c)"

subsection \<open>JSON\<close>

definition LedgerInfo_to_json :: "('j, 'b) json_lib_scheme \<Rightarrow> LedgerInfo \<Rightarrow> 'j" where
  "LedgerInfo_to_json J li =
     set_all J [(''txid'', j_of_string J (txid li)), (''blockid'', j_of_u64 J (blockIdx li)),
                (''amount'', j_of_double J (li_amount li)), (''time'', j_of_u64 J (li_time li))]"

definition LedgerInfo_from_json :: "('j, 'b) json_lib_scheme \<Rightarrow> 'j \<Rightarrow> LedgerInfo result" where
  "LedgerInfo_from_json J j =
     rbind (at_get J (j_get_u64 J) j ''blockid'') (\<lambda>b.
     rbind (at_get J (j_get_string J) j ''txid'') (\<lambda>i.
     rbind (at_get J (j_get_double J) j ''amount'') (\<lambda>a.
     rbind (at_get J (j_get_u64 J) j ''time'') (\<lambda>t.
       Ok \<lparr>blockIdx = b, txid = i, li_time = t, li_amount = a\<rparr>))))"

definition AddressLedger_to_json :: "('j, 'b) json_lib_scheme \<Rightarrow> AddressLedger \<Rightarrow> 'j" where
  "AddressLedger_to_json J ledger = push_all J (LedgerInfo_to_json J) ledger"

definition AddressLedger_from_json :: "('j, 'b) json_lib_scheme \<Rightarrow> 'j \<Rightarrow> AddressLedger result" where
  "AddressLedger_from_json J j = items_get J (LedgerInfo_from_json J) j"

context json_library
begin

lemma LedgerInfo_json: "LedgerInfo_from_json J (LedgerInfo_to_json J li) = Ok li"
  by (simp add: LedgerInfo_from_json_def LedgerInfo_to_json_def at_get_def at_set_all)

end

sublocale json_library \<subseteq> ledger_json: json_pair J "LedgerInfo_to_json J" "LedgerInfo_from_json J"
  by unfold_locales (rule LedgerInfo_json)

subsection \<open>The contract of the keyed set\<close>

text \<open>
  What \<^verbatim>\<open>GetUnspentTxOuts\<close> relies on of \<^verbatim>\<open>std::set\<close>: insertion adds an element unless
  an equivalent one is present, and erasing what \<^verbatim>\<open>find_if\<close> found removes the only match.
\<close>

locale keyed_set =
  fixes key :: "'a \<Rightarrow> 'k"
    and ins :: "'a \<Rightarrow> 'a list \<Rightarrow> 'a list"
    and del :: "('a \<Rightarrow> bool) \<Rightarrow> 'a list \<Rightarrow> 'a list"
    and ok :: "'a list \<Rightarrow> bool"
  assumes ok_Nil: "ok []"
    and ok_ins: "ok xs \<Longrightarrow> ok (ins x xs)"
    and ins_fresh: "ok xs \<Longrightarrow> key x \<notin> key ` set xs \<Longrightarrow> set (ins x xs) = insert x (set xs)"
    and ins_present: "ok xs \<Longrightarrow> key x \<in> key ` set xs \<Longrightarrow> ins x xs = xs"
    and ok_del: "ok xs \<Longrightarrow> ok (del P xs)"
    and set_del: "ok xs \<Longrightarrow> (\<And>x y. x \<in> set xs \<Longrightarrow> y \<in> set xs \<Longrightarrow> P x \<Longrightarrow> P y \<Longrightarrow> x = y)
      \<Longrightarrow> set (del P xs) = {x \<in> set xs. \<not> P x}"
begin

text \<open>On a universe without collisions it is a set.\<close>

lemma ins_set:
  assumes "ok xs" and "inj_on key U" and "set xs \<subseteq> U" and "x \<in> U"
  shows "set (ins x xs) = insert x (set xs)"
proof (cases "key x \<in> key ` set xs")
  case True
  then have "x \<in> set xs" using assms(2-4) by (auto dest: inj_onD)
  with True show ?thesis by (auto simp: ins_present [OF assms(1)])
qed (rule ins_fresh [OF assms(1)])

lemma fold_ins:
  assumes "ok xs" and "inj_on key U" and "set xs \<subseteq> U" and "set ys \<subseteq> U"
  shows "ok (fold ins ys xs) \<and> set (fold ins ys xs) = set xs \<union> set ys"
  using assms(1,3,4)
proof (induction ys arbitrary: xs)
  case (Cons y ys)
  moreover have "set (ins y xs) = insert y (set xs)" using Cons.prems by (intro ins_set [OF _ assms(2)]) auto
  ultimately show ?case by (simp add: ok_ins)
qed simp

lemma fold_del:
  assumes "ok xs" and "\<And>p x y. p \<in> set ps \<Longrightarrow> x \<in> set xs \<Longrightarrow> y \<in> set xs \<Longrightarrow> Q p x \<Longrightarrow> Q p y \<Longrightarrow> x = y"
  shows "ok (fold (\<lambda>p. del (Q p)) ps xs)
    \<and> set (fold (\<lambda>p. del (Q p)) ps xs) = {x \<in> set xs. \<not> (\<exists>p \<in> set ps. Q p x)}"
  using assms
proof (induction ps arbitrary: xs)
  case (Cons p ps)
  have "set (del (Q p) xs) = {x \<in> set xs. \<not> Q p x}"
    by (rule set_del [OF Cons.prems(1)]) (use Cons.prems(2) [of p] in auto)
  moreover from this have "ok (fold (\<lambda>p. del (Q p)) ps (del (Q p) xs))
    \<and> set (fold (\<lambda>p. del (Q p)) ps (del (Q p) xs)) = {x \<in> set (del (Q p) xs). \<not> (\<exists>p \<in> set ps. Q p x)}"
    by (intro Cons.IH) (use Cons.prems in \<open>auto simp: ok_del\<close>)
  ultimately show ?case by auto
qed simp

end

definition keyed_ok :: "('a \<Rightarrow> u64) \<Rightarrow> 'a list \<Rightarrow> bool" where
  "keyed_ok key xs \<longleftrightarrow> sorted_wrt (\<lambda>x y. key x < key y) xs"

lemma set_set_insert_subset: "set (set_insert key x xs) \<subseteq> insert x (set xs)"
  by (induction xs) auto

lemma keyed_ok_insert: "keyed_ok key xs \<Longrightarrow> keyed_ok key (set_insert key x xs)"
proof (induction xs)
  case (Cons y ys)
  then show ?case
    using set_set_insert_subset [of key x ys] by (auto simp: keyed_ok_def dest: order.strict_trans)
qed (simp add: keyed_ok_def)

lemma set_erase_first_subset: "set (erase_first P xs) \<subseteq> set xs"
  by (induction xs) auto

interpretation outset: keyed_set key "set_insert key" erase_first "keyed_ok key" for key :: "'a \<Rightarrow> u64"
proof unfold_locales
  fix xs :: "'a list" and x P
  show "keyed_ok key []" by (simp add: keyed_ok_def)
  show "keyed_ok key xs \<Longrightarrow> keyed_ok key (set_insert key x xs)" by (rule keyed_ok_insert)
  show "keyed_ok key xs \<Longrightarrow> key x \<notin> key ` set xs \<Longrightarrow> set (set_insert key x xs) = insert x (set xs)"
    by (induction xs) (auto simp: keyed_ok_def)
  show "keyed_ok key xs \<Longrightarrow> key x \<in> key ` set xs \<Longrightarrow> set_insert key x xs = xs"
    by (induction xs) (auto simp: keyed_ok_def)
  show "keyed_ok key xs \<Longrightarrow> keyed_ok key (erase_first P xs)"
    by (induction xs) (use set_erase_first_subset in \<open>fastforce simp: keyed_ok_def\<close>)+
  assume ok: "keyed_ok key xs"
    and one: "\<And>x y. x \<in> set xs \<Longrightarrow> y \<in> set xs \<Longrightarrow> P x \<Longrightarrow> P y \<Longrightarrow> x = y"
  then show "set (erase_first P xs) = {x \<in> set xs. \<not> P x}"
  proof (induction xs)
    case (Cons y ys)
    then have "y \<notin> set ys" by (auto simp: keyed_ok_def)
    with Cons show ?case by (auto simp: keyed_ok_def)
  qed simp
qed

subsection \<open>The unspent outputs of a chain\<close>

text \<open>
  The specification: all transactions of a chain in order with their position, the outputs one
  creates (for an address, or for every address when it is empty), and the outputs it spends.
\<close>

definition chain_txs :: "Blockchain \<Rightarrow> (u64 \<times> nat \<times> Transaction) list" where
  "chain_txs c =
     concat (map (\<lambda>b. map (\<lambda>(i, tx). (index b, i, tx)) (enumerate 0 (transactions b))) (blocks c))"

definition wf_tx :: "Transaction \<Rightarrow> bool" where
  "wf_tx tx \<longleftrightarrow> txIns tx \<noteq> [] \<and> txOuts tx \<noteq> []"

definition wf_txs :: "Blockchain \<Rightarrow> bool" where
  "wf_txs c \<longleftrightarrow> (\<forall>b \<in> set (blocks c). \<forall>tx \<in> set (transactions b). wf_tx tx)"

definition created :: "string \<Rightarrow> u64 \<times> nat \<times> Transaction \<Rightarrow> UnspentTxOuts" where
  "created addr e = (case e of (bi, ti, tx) \<Rightarrow>
     map (\<lambda>(oi, out). \<lparr>blockIndex = bi, txIndex = of_nat ti, txOutIndex = of_nat oi,
                      pt_address = Some (address out), pt_amount = Some (amount out)\<rparr>)
       (filter (\<lambda>(oi, out). addr = [] \<or> address out = addr) (enumerate 0 (txOuts tx))))"

definition spends :: "u64 \<times> nat \<times> Transaction \<Rightarrow> TxOutPoint \<Rightarrow> bool" where
  "spends e u \<longleftrightarrow> (case e of (bi, ti, tx) \<Rightarrow>
     isCoinbase tx = Ok False \<and> (\<exists>txin \<in> set (txIns tx). same_point (txOutPt txin) u))"

definition utxo_step :: "string \<Rightarrow> u64 \<times> nat \<times> Transaction \<Rightarrow> TxOutPoint set \<Rightarrow> TxOutPoint set" where
  "utxo_step addr e S = {u \<in> S \<union> set (created addr e). \<not> spends e u}"

lemma same_point_hash: "same_point p q \<Longrightarrow> hash_TxOutPoint H p = hash_TxOutPoint H q"
  by (simp add: same_point_def hash_TxOutPoint_def)

lemma same_point_trans: "same_point p q \<Longrightarrow> same_point p r \<Longrightarrow> same_point q r"
  by (simp add: same_point_def)

lemma fold_insert_out:
  "fold (unspent_insert_out H addr bi (of_nat ti)) (enumerate 0 (txOuts tx)) outs =
   fold (set_insert (hash_TxOutPoint H)) (created addr (bi, ti, tx)) outs"
proof -
  have "fold (unspent_insert_out H addr bi (of_nat ti)) xs outs =
    fold (set_insert (hash_TxOutPoint H))
      (map (\<lambda>(oi, out). \<lparr>blockIndex = bi, txIndex = of_nat ti, txOutIndex = of_nat oi,
                      pt_address = Some (address out), pt_amount = Some (amount out)\<rparr>)
       (filter (\<lambda>(oi, out). addr = [] \<or> address out = addr) xs)) outs" for xs
    by (induction xs arbitrary: outs) (simp_all add: unspent_insert_out_def split: prod.split)
  then show ?thesis by (simp add: created_def)
qed

lemma unspent_tx_step:
  assumes ok: "keyed_ok (hash_TxOutPoint H) outs" and inj: "inj_on (hash_TxOutPoint H) U"
    and sub: "set outs \<subseteq> U" and new: "set (created addr (bi, ti, tx)) \<subseteq> U"
    and "wf_tx tx"
  shows "\<exists>outs'. unspent_tx H addr bi (ti, tx) outs = Ok outs' \<and> keyed_ok (hash_TxOutPoint H) outs'
    \<and> set outs' = utxo_step addr (bi, ti, tx) (set outs)"
proof -
  have wf: "txIns tx \<noteq> []" "txOuts tx \<noteq> []" using \<open>wf_tx tx\<close> by (simp_all add: wf_tx_def)
  define outs1 where
    "outs1 = fold (set_insert (hash_TxOutPoint H)) (created addr (bi, ti, tx)) outs"
  have 1: "keyed_ok (hash_TxOutPoint H) outs1"
      "set outs1 = set outs \<union> set (created addr (bi, ti, tx))"
    using outset.fold_ins [OF ok inj sub new] by (simp_all add: outs1_def)
  obtain cb where cb: "isCoinbase tx = Ok cb" using wf by (auto simp: result_simps)
  define outs2 where
    "outs2 = fold (\<lambda>txin. erase_first (same_point (txOutPt txin))) (txIns tx) outs1"
  have 2: "keyed_ok (hash_TxOutPoint H) outs2
      \<and> set outs2 = {u \<in> set outs1. \<not> (\<exists>txin \<in> set (txIns tx). same_point (txOutPt txin) u)}"
    unfolding outs2_def
  proof (rule outset.fold_del [OF 1(1)])
    fix p x y
    assume "x \<in> set outs1" and "y \<in> set outs1" and "same_point (txOutPt p) x" and "same_point (txOutPt p) y"
    then have "hash_TxOutPoint H x = hash_TxOutPoint H y" by (metis same_point_hash)
    then show "x = y"
      using inj 1(2) sub new \<open>x \<in> set outs1\<close> \<open>y \<in> set outs1\<close> by (auto dest: inj_onD)
  qed
  have "unspent_tx H addr bi (ti, tx) outs = Ok (if cb then outs1 else outs2)"
    using wf cb by (simp add: unspent_tx_def fold_insert_out outs1_def outs2_def Let_def)
  with 1 2 cb show ?thesis by (auto simp: utxo_step_def spends_def)
qed

lemma GetUnspentTxOuts_flat:
  "GetUnspentTxOuts H c addr = rfold (\<lambda>(bi, item). unspent_tx H addr bi item) (chain_txs c) []"
proof -
  have "unspent_block H addr =
      (\<lambda>b. rfold (\<lambda>p. unspent_tx H addr (fst p) (snd p)) (map (Pair (index b)) (enumerate 0 (transactions b))))"
    by (rule ext)+ (simp add: unspent_block_def rfold_map)
  then show ?thesis
    by (simp add: GetUnspentTxOuts_def chain_txs_def rfold_concat rfold_map case_prod_unfold)
qed

lemma unspent_fold:
  assumes inj: "inj_on (hash_TxOutPoint H) U" and "keyed_ok (hash_TxOutPoint H) outs" and "set outs \<subseteq> U"
    and "\<forall>e \<in> set evs. set (created addr e) \<subseteq> U"
    and "\<forall>e \<in> set evs. wf_tx (snd (snd e))"
  shows "\<exists>outs'. rfold (\<lambda>(bi, item). unspent_tx H addr bi item) evs outs = Ok outs'
    \<and> keyed_ok (hash_TxOutPoint H) outs' \<and> set outs' = fold (utxo_step addr) evs (set outs)"
  using assms(2-)
proof (induction evs arbitrary: outs)
  case (Cons e evs)
  obtain bi ti tx where e: "e = (bi, ti, tx)" by (cases e)
  have "set (created addr (bi, ti, tx)) \<subseteq> U" and "wf_tx tx"
    using Cons.prems(3,4) e by simp_all
  with unspent_tx_step [OF Cons.prems(1) inj Cons.prems(2)]
  obtain outs1 where 1: "unspent_tx H addr bi (ti, tx) outs = Ok outs1"
      "keyed_ok (hash_TxOutPoint H) outs1" "set outs1 = utxo_step addr e (set outs)"
    using e by blast
  moreover have "set outs1 \<subseteq> U" using 1(3) Cons.prems(2) Cons.prems(3) by (auto simp: utxo_step_def)
  ultimately show ?case using Cons.IH [of outs1] Cons.prems(3,4) e by auto
qed simp

lemma wf_chain_txs: "wf_txs c \<Longrightarrow> \<forall>e \<in> set (chain_txs c). wf_tx (snd (snd e))"
  by (fastforce simp: wf_txs_def chain_txs_def dest: in_set_enumerate_eq [THEN iffD1])

text \<open>The steps in closed form: an output is left if nothing from its creation on spends it.\<close>

lemma utxo_closed_form:
  "u \<in> fold (utxo_step addr) evs {} \<longleftrightarrow>
     (\<exists>i < length evs. u \<in> set (created addr (evs ! i))
        \<and> (\<forall>j < length evs. i \<le> j \<longrightarrow> \<not> spends (evs ! j) u))"
proof (induction evs rule: rev_induct)
  case (snoc e evs)
  have *: "(\<forall>j < Suc (length evs). i \<le> j \<longrightarrow> \<not> spends ((evs @ [e]) ! j) u) \<longleftrightarrow>
      (\<forall>j < length evs. i \<le> j \<longrightarrow> \<not> spends (evs ! j) u) \<and> (i \<le> length evs \<longrightarrow> \<not> spends e u)" for i
    by (auto simp: less_Suc_eq nth_append)
  have "(\<exists>i < Suc (length evs). P i) \<longleftrightarrow> (\<exists>i < length evs. P i) \<or> P (length evs)" for P
    by (auto simp: less_Suc_eq)
  note split = this [of "\<lambda>i. u \<in> set (created addr ((evs @ [e]) ! i))
        \<and> (\<forall>j < Suc (length evs). i \<le> j \<longrightarrow> \<not> spends ((evs @ [e]) ! j) u)"]
  show ?case
    unfolding fold_append comp_apply length_append_singleton split unfolding *
    by (auto simp: utxo_step_def nth_append snoc.IH)
qed simp

lemma GetUnspentTxOuts_set:
  assumes "inj_on (hash_TxOutPoint H) (\<Union>e \<in> set (chain_txs c). set (created addr e))" and "wf_txs c"
  shows "\<exists>outs. GetUnspentTxOuts H c addr = Ok outs \<and> keyed_ok (hash_TxOutPoint H) outs
    \<and> set outs = fold (utxo_step addr) (chain_txs c) {}"
  unfolding GetUnspentTxOuts_flat
  using unspent_fold [OF assms(1), of "[]" "chain_txs c" addr] wf_chain_txs [OF assms(2)]
  by (auto simp: keyed_ok_def)

text \<open>Every unspent output carries its address and amount, for the address that was asked for.\<close>

lemma fold_insert_subset: "set (fold (set_insert key) xs outs) \<subseteq> set outs \<union> set xs"
proof (induction xs arbitrary: outs)
  case (Cons x xs)
  then show ?case using set_set_insert_subset [of key x outs] by fastforce
qed simp

lemma fold_erase_subset: "set (fold (\<lambda>p. erase_first (Q p)) ps outs) \<subseteq> set outs"
proof (induction ps arbitrary: outs)
  case (Cons p ps)
  then show ?case using set_erase_first_subset [of "Q p" outs] by fastforce
qed simp

lemma unspent_tx_subset:
  assumes "unspent_tx H addr bi (ti, tx) outs = Ok outs'"
  shows "set outs' \<subseteq> set outs \<union> set (created addr (bi, ti, tx))"
proof -
  let ?o = "fold (set_insert (hash_TxOutPoint H)) (created addr (bi, ti, tx)) outs"
  have "outs' = ?o \<or> outs' = fold (\<lambda>txin. erase_first (same_point (txOutPt txin))) (txIns tx) ?o"
    using assms by (auto simp: unspent_tx_def fold_insert_out Let_def rbind_Ok_iff split: if_splits)
  moreover have "set ?o \<subseteq> set outs \<union> set (created addr (bi, ti, tx))" by (rule fold_insert_subset)
  moreover have "set (fold (\<lambda>txin. erase_first (same_point (txOutPt txin))) (txIns tx) ?o) \<subseteq> set ?o"
    by (rule fold_erase_subset)
  ultimately show ?thesis by blast
qed

definition filled_for :: "string \<Rightarrow> TxOutPoint \<Rightarrow> bool" where
  "filled_for addr u \<longleftrightarrow>
     (\<exists>a. pt_address u = Some a \<and> (addr \<noteq> [] \<longrightarrow> a = addr)) \<and> pt_amount u \<noteq> None"

lemma created_filled: "u \<in> set (created addr e) \<Longrightarrow> filled_for addr u"
  by (cases e) (auto simp: created_def filled_for_def)

lemma unspent_filled:
  assumes "GetUnspentTxOuts H c addr = Ok outs"
  shows "\<forall>u \<in> set outs. filled_for addr u"
proof (rule rfold_invariant [OF assms [unfolded GetUnspentTxOuts_flat]])
  fix e s t
  assume "\<forall>u \<in> set s. filled_for addr u" and "(case e of (bi, item) \<Rightarrow> unspent_tx H addr bi item) s = Ok t"
  then show "\<forall>u \<in> set t. filled_for addr u"
    using created_filled [of _ addr e] by (cases e) (auto dest!: unspent_tx_subset)
qed simp

subsection \<open>Selecting outputs\<close>

abbreviation paid :: "TxOutPoint \<Rightarrow> double" where
  "paid u \<equiv> the (pt_amount u)"

text \<open>The amount collected from the first \<open>n\<close> outputs.\<close>

definition collected :: "UnspentTxOuts \<Rightarrow> nat \<Rightarrow> double" where
  "collected us n = dbl_sum (map paid (take n us))"

definition enough :: "double \<Rightarrow> UnspentTxOuts \<Rightarrow> nat \<Rightarrow> bool" where
  "enough amt us n \<longleftrightarrow> 0 < n \<and> n \<le> length us \<and> dbl_ge (collected us n) amt"

lemma collected_Suc:
  "n < length us \<Longrightarrow> collected us (Suc n) = dbl_add (collected us n) (paid (us ! n))"
  by (simp add: collected_def dbl_sum_def take_Suc_conv_app_nth)

lemma select_unspent_from:
  assumes "\<forall>u \<in> set us. pt_amount u \<noteq> None" and "m \<le> length us" and "\<forall>n \<le> m. \<not> enough amt us n"
  shows "select_unspent amt (drop m us) (collected us m) (take m us) =
    (if \<exists>n. enough amt us n
     then let n = (LEAST n. enough amt us n)
          in Ok (collected us n, dbl_sub (collected us n) amt, take n us)
     else Ok (collected us (length us), dbl_zero, us))"
  using assms(2,3)
proof (induction "length us - m" arbitrary: m)
  case 0
  then have "m = length us" by simp
  with 0 have "\<not> (\<exists>n. enough amt us n)" by (auto simp: enough_def)
  with \<open>m = length us\<close> show ?case by simp
next
  case (Suc k)
  then have m: "m < length us" by simp
  then have d: "drop m us = us ! m # drop (Suc m) us" by (simp add: Cons_nth_drop_Suc)
  obtain a where a: "pt_amount (us ! m) = Some a" using assms(1) m nth_mem by blast
  have c: "dbl_add (collected us m) a = collected us (Suc m)" using m a by (simp add: collected_Suc)
  have t: "take m us @ [us ! m] = take (Suc m) us" using m by (simp add: take_Suc_conv_app_nth)
  show ?case
  proof (cases "enough amt us (Suc m)")
    case True
    have "(LEAST n. enough amt us n) = Suc m"
      using True Suc.prems(2) by (intro Least_equality) (auto simp: not_le[symmetric] Suc_le_eq)
    moreover have "dbl_ge (collected us (Suc m)) amt" using True by (simp add: enough_def)
    moreover have "\<exists>n. enough amt us n" using True by blast
    ultimately show ?thesis by (simp add: d a c t deref_def Let_def)
  next
    case False
    then have "\<forall>n \<le> Suc m. \<not> enough amt us n" using Suc.prems(2) by (auto simp: le_Suc_eq)
    then have "select_unspent amt (drop (Suc m) us) (collected us (Suc m)) (take (Suc m) us) = 
      (if \<exists>n. enough amt us n
     then let n = (LEAST n. enough amt us n)
          in Ok (collected us n, dbl_sub (collected us n) amt, take n us)
     else Ok (collected us (length us), dbl_zero, us))"
      using Suc.hyps m by (intro Suc.hyps(1)) auto
    moreover have "\<not> dbl_ge (collected us (Suc m)) amt" using False m by (simp add: enough_def)
    ultimately show ?thesis by (simp add: d a c t deref_def Let_def)
  qed
qed

lemma select_unspent_eq:
  assumes "\<forall>u \<in> set us. pt_amount u \<noteq> None"
  shows "select_unspent amt us dbl_zero [] =
    (if \<exists>n. enough amt us n
     then let n = (LEAST n. enough amt us n)
          in Ok (collected us n, dbl_sub (collected us n) amt, take n us)
     else Ok (collected us (length us), dbl_zero, us))"
  using select_unspent_from [OF assms, of 0 amt] by (simp add: enough_def collected_def dbl_sum_def)

text \<open>The transaction that spends \<open>us\<close>, with the change if there is any.\<close>

definition payment :: "string \<Rightarrow> string \<Rightarrow> double \<Rightarrow> double \<Rightarrow> UnspentTxOuts \<Rightarrow> Transaction" where
  "payment sender receiver amt change us =
     \<lparr>tx_id = [],
      txIns = map (\<lambda>u. mk_TxIn (blockIndex u) (txIndex u) (txOutIndex u) ''signature'') us,
      txOuts = mk_TxOut receiver amt
               # (if dbl_lt dbl_zero change then [mk_TxOut sender change] else [])\<rparr>"

lemma dbl_ge_not_lt: "dbl_ge a b \<Longrightarrow> \<not> dbl_lt a b"
  by (simp add: dbl_ge_def dbl_lt_def)

lemma enough_Least: "enough amt us n \<Longrightarrow> enough amt us (LEAST n. enough amt us n)"
  by (rule LeastI)

lemma CreateTransaction_eq:
  assumes "GetAddressFromPrivateKey cp pk = sender" and us: "GetUnspentTxOuts H c sender = Ok us"
  shows "CreateTransaction cp H ieq c pk receiver amt =
    (if ieq receiver sender then Ok (NOOP_TRANSACTION, empty_Transaction)
     else if us = [] then Ok (TXOUTS_EMPTY, empty_Transaction)
     else if \<exists>n. enough amt us n
     then let n = (LEAST n. enough amt us n)
          in Ok (SUCCESS, payment sender receiver amt (dbl_sub (collected us n) amt) (take n us))
     else if dbl_lt (collected us (length us)) amt then Ok (INSUFFICIENT_FUNDS, empty_Transaction)
     else Ok (SUCCESS, payment sender receiver amt dbl_zero us))"
proof -
  have "\<forall>u \<in> set us. pt_amount u \<noteq> None"
    using unspent_filled [OF us] by (auto simp: filled_for_def)
  note sel = select_unspent_eq [OF this, of amt]
  show ?thesis
  proof (cases "\<exists>n. enough amt us n")
    case True
    then have "\<not> dbl_lt (collected us (LEAST n. enough amt us n)) amt"
      using enough_Least by (auto simp: enough_def dest: dbl_ge_not_lt)
    with True sel show ?thesis
      by (simp add: CreateTransaction_def assms Let_def payment_def empty_Transaction_def)
  next
    case False
    from sel show ?thesis
      unfolding if_not_P [OF False]
      by (simp add: CreateTransaction_def assms Let_def payment_def empty_Transaction_def)
  qed
qed

subsection \<open>Exact amounts\<close>

text \<open>
  Amounts on a common grid whose total stays below the precision of a double: the sums of the
  code are then exact. Any amounts with a bounded number of binary places qualify.
\<close>

definition exact_amounts :: "nat \<Rightarrow> UnspentTxOuts \<Rightarrow> bool" where
  "exact_amounts g us \<longleftrightarrow> g < 2045
     \<and> (\<forall>u \<in> set us. on_grid g (paid u) \<and> 0 \<le> dbl_units (paid u))
     \<and> (\<Sum>u\<leftarrow>us. dbl_units (paid u)) < 2 ^ (g + 53)"

definition total_units :: "UnspentTxOuts \<Rightarrow> int" where
  "total_units us = (\<Sum>u\<leftarrow>us. dbl_units (paid u))"

definition out_units :: "Transaction \<Rightarrow> int" where
  "out_units tx = (\<Sum>out\<leftarrow>txOuts tx. dbl_units (amount out))"

lemma total_units_take:
  assumes "exact_amounts g us"
  shows "0 \<le> total_units (take n us)" and "total_units (take n us) \<le> total_units us"
proof -
  have nn: "\<forall>u \<in> set us. 0 \<le> dbl_units (paid u)" using assms by (simp add: exact_amounts_def)
  then show "0 \<le> total_units (take n us)"
    unfolding total_units_def by (intro sum_list_nonneg) (auto dest: in_set_takeD)
  have "0 \<le> total_units (drop n us)"
    unfolding total_units_def using nn by (intro sum_list_nonneg) (auto dest: in_set_dropD)
  moreover have "total_units us = total_units (take n us) + total_units (drop n us)"
    by (metis append_take_drop_id map_append sum_list_append total_units_def)
  ultimately show "total_units (take n us) \<le> total_units us" by simp
qed

lemma collected_exact:
  assumes "exact_amounts g us"
  shows "on_grid g (collected us n)" and "dbl_units (collected us n) = total_units (take n us)"
proof -
  have "total_units us < 2 ^ (g + 53)" using assms by (simp add: exact_amounts_def total_units_def)
  then have "total_units (take n us) < 2 ^ (g + 53)" using total_units_take(2) [OF assms, of n] by simp
  then have "on_grid g (collected us n) \<and>
      dbl_units (collected us n) = dbl_units dbl_zero + (\<Sum>d\<leftarrow>map paid (take n us). dbl_units d)"
    unfolding collected_def dbl_sum_def using assms
    by (intro dbl_fold_exact) (auto simp: exact_amounts_def total_units_def comp_def dest!: in_set_takeD)
  then show "on_grid g (collected us n)" and "dbl_units (collected us n) = total_units (take n us)"
    by (simp_all add: total_units_def comp_def)
qed

lemma enough_exact:
  assumes "exact_amounts g us" and "on_grid g amt"
  shows "enough amt us n \<longleftrightarrow> 0 < n \<and> n \<le> length us \<and> dbl_units amt \<le> total_units (take n us)"
  using dbl_ge_iff [OF collected_exact(1) [OF assms(1)] assms(2)] collected_exact(2) [OF assms(1)]
  by (simp add: enough_def)

lemma payment_exact:
  assumes ex: "exact_amounts g us" and amt: "on_grid g amt"
    and "dbl_units amt \<le> total_units (take n us)" and "total_units us - dbl_units amt < 2 ^ (g + 53)"
  shows "out_units (payment sender receiver amt (dbl_sub (collected us n) amt) (take n us))
      = total_units (take n us)"
    and "dbl_units (dbl_sub (collected us n) amt) = total_units (take n us) - dbl_units amt"
    and "on_grid g (dbl_sub (collected us n) amt)"
proof -
  have "\<bar>dbl_units (collected us n) - dbl_units amt\<bar> < 2 ^ (g + 53)"
    using assms(3,4) total_units_take(2) [OF ex, of n] by (simp add: collected_exact(2) [OF ex])
  note sub = dbl_sub_exact [OF collected_exact(1) [OF ex] amt _ this]
  show grid: "on_grid g (dbl_sub (collected us n) amt)" using sub(1) ex by (simp add: exact_amounts_def)
  show units: "dbl_units (dbl_sub (collected us n) amt) = total_units (take n us) - dbl_units amt"
    using sub(2) ex by (simp add: exact_amounts_def collected_exact(2) [OF ex])
  show "out_units (payment sender receiver amt (dbl_sub (collected us n) amt) (take n us))
      = total_units (take n us)"
    using dbl_lt_iff [OF on_grid_zero(1) [of g] grid] units assms(3)
    by (auto simp: out_units_def payment_def mk_TxOut_def)
qed

subsection \<open>Block details\<close>

text \<open>The output a point refers to, if it exists.\<close>

definition referenced :: "Blockchain \<Rightarrow> TxOutPoint \<Rightarrow> TxOut option" where
  "referenced c pt =
     (if unat (blockIndex pt) < length (blocks c)
      then let txs = transactions (blocks c ! unat (blockIndex pt)) in
           if unat (txIndex pt) < length txs
           then let outs = txOuts (txs ! unat (txIndex pt)) in
                if unat (txOutIndex pt) < length outs then Some (outs ! unat (txOutIndex pt)) else None
           else None
      else None)"

definition fill_txin :: "Blockchain \<Rightarrow> TxIn \<Rightarrow> TxIn" where
  "fill_txin c txin = (case referenced c (txOutPt txin) of None \<Rightarrow> txin
     | Some out \<Rightarrow> txin\<lparr>txOutPt := (txOutPt txin)\<lparr>pt_address := Some (address out),
                                               pt_amount := Some (amount out)\<rparr>\<rparr>)"

definition fill_tx :: "Blockchain \<Rightarrow> Transaction \<Rightarrow> Transaction" where
  "fill_tx c tx = tx\<lparr>txIns := map (fill_txin c) (txIns tx)\<rparr>"

text \<open>Every vector of the chain has a size that fits its type.\<close>

definition sized :: "Blockchain \<Rightarrow> bool" where
  "sized c \<longleftrightarrow> length (blocks c) < 2 ^ 64 \<and>
     (\<forall>b \<in> set (blocks c). length (transactions b) < 2 ^ 64 \<and>
        (\<forall>tx \<in> set (transactions b). length (txOuts tx) < 2 ^ 64))"

lemma resolve_txin_eq:
  assumes "sized c"
  shows "resolve_txin c txin =
    (if referenced c (txOutPt txin) = None then Err AssertFailed else Ok (fill_txin c txin))"
proof (cases "unat (blockIndex (txOutPt txin)) < length (blocks c)")
  case b: True
  let ?b = "blocks c ! unat (blockIndex (txOutPt txin))"
  have B: "?b \<in> set (blocks c)" using b by simp
  have sz: "length (blocks c) < 2 ^ 64" "length (transactions ?b) < 2 ^ 64"
    using assms B by (auto simp: sized_def)
  show ?thesis
  proof (cases "unat (txIndex (txOutPt txin)) < length (transactions ?b)")
    case t: True
    let ?t = "transactions ?b ! unat (txIndex (txOutPt txin))"
    have "length (txOuts ?t) < 2 ^ 64" using assms B t nth_mem [OF t] by (auto simp: sized_def)
    then show ?thesis using b t sz
      by (simp add: resolve_txin_def referenced_def fill_txin_def Let_def word_less_nat_alt chain_size_def
          unat_vec_size chain_at_def vec_at_def)
  qed (use b sz in \<open>simp add: resolve_txin_def referenced_def Let_def word_less_nat_alt chain_size_def
          unat_vec_size chain_at_def vec_at_def\<close>)
next
  case False
  moreover have "length (blocks c) < 2 ^ 64" using assms by (simp add: sized_def)
  ultimately show ?thesis
    by (simp add: resolve_txin_def referenced_def Let_def word_less_nat_alt chain_size_def unat_vec_size)
qed

definition inputs_exist :: "Blockchain \<Rightarrow> Transaction \<Rightarrow> bool" where
  "inputs_exist c tx \<longleftrightarrow> (\<forall>txin \<in> set (txIns tx). referenced c (txOutPt txin) \<noteq> None)"

lemma resolve_tx_eq:
  "sized c \<Longrightarrow> inputs_exist c tx \<Longrightarrow> resolve_tx c tx = Ok (fill_tx c tx)"
  by (simp add: resolve_tx_def fill_tx_def inputs_exist_def resolve_txin_eq rmap_all_Ok [of _ _ "fill_txin c"])

lemma GetBlockDetails_eq:
  assumes "sized c"
  shows "GetBlockDetails c i =
    (if length (blocks c) \<le> unat i then Err OutOfRange
     else let b = blocks c ! unat i in
          if \<forall>tx \<in> set (transactions b). inputs_exist c tx
          then Ok (setTransactions (map (fill_tx c) (transactions b)) b)
          else Err AssertFailed)"
proof (cases "length (blocks c) \<le> unat i")
  case False
  let ?b = "blocks c ! unat i"
  have at: "chain_at c i = Ok ?b" using False by (simp add: chain_at_def vec_at_def)
  show ?thesis
  proof (cases "\<forall>tx \<in> set (transactions ?b). inputs_exist c tx")
    case True
    with assms have "rmap (resolve_tx c) (transactions ?b) = Ok (map (fill_tx c) (transactions ?b))"
      by (intro rmap_all_Ok) (simp add: resolve_tx_eq)
    with False True at show ?thesis by (simp add: GetBlockDetails_def Let_def)
  next
    case bad: False
    have err: "resolve_tx c tx = Err e \<longleftrightarrow> e = AssertFailed \<and> \<not> inputs_exist c tx" for tx e
    proof (cases "inputs_exist c tx")
      case no: False
      then obtain txin where "txin \<in> set (txIns tx)" and "referenced c (txOutPt txin) = None"
        by (auto simp: inputs_exist_def)
      then have "rmap (resolve_txin c) (txIns tx) = Err AssertFailed"
        by (intro rmap_Err) (auto simp: resolve_txin_eq [OF assms] split: if_splits)
      with no show ?thesis by (auto simp: resolve_tx_def)
    qed (simp add: resolve_tx_eq [OF assms])
    from bad obtain tx where "tx \<in> set (transactions ?b)" and "\<not> inputs_exist c tx" by blast
    then have "rmap (resolve_tx c) (transactions ?b) = Err AssertFailed"
      by (intro rmap_Err) (auto simp: err)
    with False bad at show ?thesis by (simp add: GetBlockDetails_def Let_def)
  qed
qed (simp add: GetBlockDetails_def chain_at_def vec_at_def)

subsection \<open>Balances\<close>

text \<open>
  What a transaction gives to an address and takes from it, in exact units: all its outputs to the address, and
  all its inputs, unless it is a coinbase, that refer to outputs to the address.
\<close>

definition received :: "string \<Rightarrow> Transaction \<Rightarrow> int" where
  "received addr tx = (\<Sum>out\<leftarrow>txOuts tx. if address out = addr then dbl_units (amount out) else 0)"

definition spent :: "Blockchain \<Rightarrow> string \<Rightarrow> Transaction \<Rightarrow> int" where
  "spent c addr tx = (if isCoinbase tx = Ok False
     then \<Sum>txin\<leftarrow>txIns tx. case referenced c (txOutPt txin) of None \<Rightarrow> 0
       | Some out \<Rightarrow> if address out = addr then dbl_units (amount out) else 0
     else 0)"

text \<open>
  What the ledger books: the first output to the address, and, when the first input is the address's, all inputs, whoever owns them.
\<close>

definition booked_credit :: "string \<Rightarrow> Transaction \<Rightarrow> int" where
  "booked_credit addr tx = (case find (\<lambda>txout. address txout = addr) (txOuts tx) of
     None \<Rightarrow> 0 | Some out \<Rightarrow> dbl_units (amount out))"

definition input_units :: "Blockchain \<Rightarrow> TxIn \<Rightarrow> int" where
  "input_units c txin = (case referenced c (txOutPt txin) of None \<Rightarrow> 0 | Some out \<Rightarrow> dbl_units (amount out))"

definition debits :: "Blockchain \<Rightarrow> string \<Rightarrow> Transaction \<Rightarrow> bool" where
  "debits c addr tx \<longleftrightarrow> isCoinbase tx = Ok False
     \<and> map_option address (referenced c (txOutPt (hd (txIns tx)))) = Some addr"

definition booked_debit :: "Blockchain \<Rightarrow> string \<Rightarrow> Transaction \<Rightarrow> int" where
  "booked_debit c addr tx = (if debits c addr tx then \<Sum>txin\<leftarrow>txIns tx. input_units c txin else 0)"

definition credits :: "string \<Rightarrow> Transaction \<Rightarrow> bool" where
  "credits addr tx \<longleftrightarrow> addr \<in> address ` set (txOuts tx)"

text \<open>
  The two agree on transactions with at most one output to the address and inputs that are all the address's or all of others. The
  transactions that \<open>CreateTransaction\<close> builds are of this kind (lemma \<open>CreateTransaction_regular\<close>), but nothing checks it for those of received blocks.
\<close>

definition one_output :: "string \<Rightarrow> Transaction \<Rightarrow> bool" where
  "one_output addr tx \<longleftrightarrow> length (filter (\<lambda>out. address out = addr) (txOuts tx)) \<le> 1"

definition one_owner :: "Blockchain \<Rightarrow> string \<Rightarrow> Transaction \<Rightarrow> bool" where
  "one_owner c addr tx \<longleftrightarrow> (isCoinbase tx = Ok False \<longrightarrow> (\<forall>txin \<in> set (txIns tx).
     (map_option address (referenced c (txOutPt txin)) = Some addr)
       = (map_option address (referenced c (txOutPt (hd (txIns tx)))) = Some addr)))"

lemma received_filter: "received addr tx = (\<Sum>out\<leftarrow>filter (\<lambda>out. address out = addr) (txOuts tx). dbl_units (amount out))"
  unfolding received_def by (induction "txOuts tx") (simp_all add: sum_list_map_filter')

lemma booked_credit_filter:
  "booked_credit addr tx = (case filter (\<lambda>out. address out = addr) (txOuts tx) of [] \<Rightarrow> 0 | out # _ \<Rightarrow> dbl_units (amount out))"
proof -
  have "find P xs = (case filter P xs of [] \<Rightarrow> None | x # _ \<Rightarrow> Some x)" for P and xs :: "TxOut list" by (induction xs) auto
  then show ?thesis by (simp add: booked_credit_def split: list.split)
qed

lemma booked_credit_received: "one_output addr tx \<Longrightarrow> booked_credit addr tx = received addr tx"
  by (auto simp: one_output_def received_filter booked_credit_filter split: list.split)

lemma booked_debit_spent:
  assumes "one_owner c addr tx"
  shows "booked_debit c addr tx = spent c addr tx"
proof (cases "isCoinbase tx = Ok False")
  case True
  let ?own = "\<lambda>txin. map_option address (referenced c (txOutPt txin)) = Some addr"
  have "?own txin = debits c addr tx" if "txin \<in> set (txIns tx)" for txin
    using assms that True by (simp add: one_owner_def debits_def)
  then have "(if debits c addr tx then input_units c txin else 0) = (case referenced c (txOutPt txin) of None \<Rightarrow> 0
       | Some out \<Rightarrow> if address out = addr then dbl_units (amount out) else 0)" if "txin \<in> set (txIns tx)" for txin
    using that by (fastforce simp: input_units_def split: option.split)
  then have "(\<Sum>txin\<leftarrow>txIns tx. if debits c addr tx then input_units c txin else 0) = spent c addr tx"
    using True unfolding spent_def by (simp cong: map_cong)
  then show ?thesis by (cases "debits c addr tx") (simp_all add: booked_debit_def)
qed (simp add: booked_debit_def spent_def debits_def)

text \<open>Every amount on the chain is a nonnegative multiple of the grid.\<close>

definition grid_outputs :: "nat \<Rightarrow> Blockchain \<Rightarrow> bool" where
  "grid_outputs g c \<longleftrightarrow> (\<forall>b \<in> set (blocks c). \<forall>tx \<in> set (transactions b). \<forall>out \<in> set (txOuts tx).
     on_grid g (amount out) \<and> 0 \<le> dbl_units (amount out))"

lemma referenced_mem:
  "referenced c pt = Some out \<Longrightarrow>
     \<exists>b \<in> set (blocks c). \<exists>tx \<in> set (transactions b). out \<in> set (txOuts tx)"
  by (fastforce simp: referenced_def Let_def split: if_splits intro: nth_mem)

lemma input_units_nonneg: "grid_outputs g c \<Longrightarrow> 0 \<le> input_units c txin"
  using referenced_mem [of c "txOutPt txin"]
  by (fastforce simp: input_units_def grid_outputs_def split: option.split)

lemma debit_nonneg: "grid_outputs g c \<Longrightarrow> 0 \<le> booked_debit c addr tx"
  by (auto simp: booked_debit_def intro!: sum_list_nonneg input_units_nonneg)

lemma credit_grid:
  assumes "\<forall>out \<in> set (txOuts tx). on_grid g (amount out) \<and> 0 \<le> dbl_units (amount out)"
  shows "0 \<le> booked_credit addr tx"
  using assms by (auto simp: booked_credit_def find_Some_iff split: option.split)

lemma isCoinbase_fill [simp]: "isCoinbase (fill_tx c tx) = isCoinbase tx"
proof (cases "txIns tx")
  case (Cons x xs)
  have "txIndex (txOutPt (fill_txin c x)) = txIndex (txOutPt x)"
    and "txOutIndex (txOutPt (fill_txin c x)) = txOutIndex (txOutPt x)"
    and "signature (fill_txin c x) = signature x"
    by (simp_all add: fill_txin_def split: option.split)
  with Cons show ?thesis by (simp add: isCoinbase_def fill_tx_def vec_at_def Let_def)
qed (simp add: isCoinbase_def fill_tx_def)

lemma fill_tx_simps [simp]:
  "txOuts (fill_tx c tx) = txOuts tx" "tx_id (fill_tx c tx) = tx_id tx"
  "txIns (fill_tx c tx) = map (fill_txin c) (txIns tx)"
  by (simp_all add: fill_tx_def)

lemma txIn_total_exact:
  assumes "\<forall>txin \<in> set ins. referenced c (txOutPt txin) \<noteq> None" and g: "grid_outputs g c" "g < 2045"
    and "(\<Sum>txin\<leftarrow>ins. input_units c txin) < 2 ^ (g + 53)"
  shows "\<exists>d. txIn_total (map (fill_txin c) ins) = Ok d \<and> on_grid g d
    \<and> dbl_units d = (\<Sum>txin\<leftarrow>ins. input_units c txin)"
proof -
  let ?a = "\<lambda>txin. amount (the (referenced c (txOutPt txin)))"
  have a: "pt_amount (txOutPt (fill_txin c txin)) = Some (?a txin)"
    and gr: "on_grid g (?a txin)" and u: "input_units c txin = dbl_units (?a txin)"
    and nn: "0 \<le> dbl_units (?a txin)" if "txin \<in> set ins" for txin
    using assms(1) that referenced_mem [of c "txOutPt txin"] g
    by (fastforce simp: fill_txin_def input_units_def grid_outputs_def)+
  have f: "rfold (\<lambda>txin accum. rbind (deref (pt_amount (txOutPt txin))) (\<lambda>a. Ok (dbl_add accum a)))
      (map (fill_txin c) xs) acc = Ok (fold (\<lambda>d acc. dbl_add acc d) (map ?a xs) acc)"
    if "set xs \<subseteq> set ins" for xs acc
    using that by (induction xs arbitrary: acc) (simp_all add: a deref_def)
  have S: "(\<Sum>txin\<leftarrow>ins. input_units c txin) = (\<Sum>txin\<leftarrow>ins. dbl_units (?a txin))"
    and "(\<Sum>txin\<leftarrow>ins. \<bar>dbl_units (?a txin)\<bar>) = (\<Sum>txin\<leftarrow>ins. dbl_units (?a txin))"
    using u nn by (auto intro!: arg_cong [of _ _ sum_list])
  with assms(4) have "(\<Sum>d\<leftarrow>map ?a ins. \<bar>dbl_units d\<bar>) < 2 ^ (g + 53)" by (simp add: comp_def)
  with dbl_sum_exact [of "map ?a ins" g] gr g(2)
  have "on_grid g (dbl_sum (map ?a ins)) \<and> dbl_units (dbl_sum (map ?a ins)) = (\<Sum>txin\<leftarrow>ins. dbl_units (?a txin))"
    by (simp add: comp_def)
  then show ?thesis
    unfolding S using f [of ins dbl_zero] by (simp add: txIn_total_def dbl_sum_def)
qed

text \<open>
  The ledger after some transactions: its entries are exact, they add up to the flow of the
  address, and it has an entry once the address has been paid.
\<close>

definition ledger_inv ::
  "nat \<Rightarrow> Blockchain \<Rightarrow> string \<Rightarrow> Transaction list \<Rightarrow> AddressLedger \<Rightarrow> bool" where
  "ledger_inv g c addr txs l \<longleftrightarrow>
     (\<forall>e \<in> set l. on_grid g (li_amount e))
     \<and> (\<Sum>e\<leftarrow>l. dbl_units (li_amount e)) = (\<Sum>tx\<leftarrow>txs. booked_credit addr tx - booked_debit c addr tx)
     \<and> (\<Sum>e\<leftarrow>l. \<bar>dbl_units (li_amount e)\<bar>) \<le> (\<Sum>tx\<leftarrow>txs. booked_credit addr tx + booked_debit c addr tx)
     \<and> ((\<exists>tx \<in> set txs. credits addr tx) \<longrightarrow> l \<noteq> [])"

lemma ledger_credit:
  assumes "ledger_inv g c addr txs l"
    and "\<forall>out \<in> set (txOuts tx). on_grid g (amount out) \<and> 0 \<le> dbl_units (amount out)"
    and l'_def: "l' = (case find (\<lambda>txout. address txout = addr) (txOuts tx) of
                   None \<Rightarrow> l
                 | Some txout \<Rightarrow> l @ [\<lparr>blockIdx = bi, txid = i, li_time = t, li_amount = amount txout\<rparr>])"
  shows "\<forall>e \<in> set l'. on_grid g (li_amount e)" (is ?A)
    and "(\<Sum>e\<leftarrow>l'. dbl_units (li_amount e)) = (\<Sum>tx\<leftarrow>txs. booked_credit addr tx - booked_debit c addr tx) + booked_credit addr tx" (is ?B)
    and "(\<Sum>e\<leftarrow>l'. \<bar>dbl_units (li_amount e)\<bar>) \<le> (\<Sum>tx\<leftarrow>txs. booked_credit addr tx + booked_debit c addr tx) + booked_credit addr tx" (is ?C)
    and "(\<exists>tx \<in> set (txs @ [tx]). credits addr tx) \<longrightarrow> l' \<noteq> []" (is ?D)
proof -
  have "?A \<and> ?B \<and> ?C \<and> ?D"
  proof (cases "find (\<lambda>txout. address txout = addr) (txOuts tx)")
  case None
  moreover from None have "\<not> credits addr tx" by (auto simp: credits_def find_None_iff)
  ultimately have "l' = l" and "booked_credit addr tx = 0" and "\<not> credits addr tx"
    by (simp_all add: l'_def booked_credit_def)
  with assms(1) show "?A \<and> ?B \<and> ?C \<and> ?D" by (simp add: ledger_inv_def)
next
  case (Some out)
  then have "l' = l @ [\<lparr>blockIdx = bi, txid = i, li_time = t, li_amount = amount out\<rparr>]"
    and "booked_credit addr tx = dbl_units (amount out)" and "out \<in> set (txOuts tx)"
    by (simp_all add: l'_def booked_credit_def) (auto simp: find_Some_iff)
  with assms(1,2) show "?A \<and> ?B \<and> ?C \<and> ?D" by (simp add: ledger_inv_def)
  qed
  then show ?A ?B ?C ?D by blast+
qed

lemma ledger_debit:
  assumes "\<forall>e \<in> set (l0 @ [e]). on_grid g (li_amount e)" and "on_grid g T" and "g < 2045"
    and "0 \<le> dbl_units T"
    and "(\<Sum>e\<leftarrow>l0 @ [e]. \<bar>dbl_units (li_amount e)\<bar>) + dbl_units T < 2 ^ (g + 53)"
  shows "on_grid g (dbl_times_minus1 (dbl_sub T (li_amount e)))"
    and "dbl_units (dbl_times_minus1 (dbl_sub T (li_amount e))) = dbl_units (li_amount e) - dbl_units T"
proof -
  have "0 \<le> (\<Sum>e\<leftarrow>l0. \<bar>dbl_units (li_amount e)\<bar>)" by (intro sum_list_nonneg) auto
  with assms(4,5) have "\<bar>dbl_units T - dbl_units (li_amount e)\<bar> < 2 ^ (g + 53)" by simp
  moreover have "on_grid g (li_amount e)" using assms(1) by simp
  ultimately have "on_grid g (dbl_sub T (li_amount e))"
    and "dbl_units (dbl_sub T (li_amount e)) = dbl_units T - dbl_units (li_amount e)"
    using dbl_sub_exact [OF assms(2) _ assms(3)] by simp_all
  then show "on_grid g (dbl_times_minus1 (dbl_sub T (li_amount e)))"
    and "dbl_units (dbl_times_minus1 (dbl_sub T (li_amount e))) = dbl_units (li_amount e) - dbl_units T"
    using dbl_times_minus1_exact [of g "dbl_sub T (li_amount e)"] by simp_all
qed

lemma ledger_tx_step:
  assumes inv: "ledger_inv g c addr txs l" and wf: "wf_tx tx" "inputs_exist c tx"
    and out: "\<forall>out \<in> set (txOuts tx). on_grid g (amount out) \<and> 0 \<le> dbl_units (amount out)"
    and g: "grid_outputs g c" "g < 2045"
    and bound: "(\<Sum>tx\<leftarrow>txs @ [tx]. booked_credit addr tx + booked_debit c addr tx) < 2 ^ (g + 53)"
    and paid: "debits c addr tx \<Longrightarrow> \<exists>tx' \<in> set (txs @ [tx]). credits addr tx'"
    and nonneg: "0 \<le> (\<Sum>tx\<leftarrow>txs. booked_credit addr tx + booked_debit c addr tx)"
  shows "\<exists>l'. ledger_tx addr b (fill_tx c tx) l = Ok l' \<and> ledger_inv g c addr (txs @ [tx]) l'"
proof -
  define l1 where "l1 = (case find (\<lambda>txout. address txout = addr) (txOuts tx) of
                   None \<Rightarrow> l
                 | Some txout \<Rightarrow> l @ [\<lparr>blockIdx = index b, txid = tx_id tx, li_time = btime b,
                                      li_amount = amount txout\<rparr>])"
  note l1 = ledger_credit [OF inv out l1_def]
  obtain txin ins where ins: "txIns tx = txin # ins" using wf by (cases "txIns tx") (auto simp: wf_tx_def)
  obtain cb where cb: "isCoinbase tx = Ok cb" using wf by (auto simp: wf_tx_def result_simps)
  obtain o0 where o0: "referenced c (txOutPt txin) = Some o0"
    using wf(2) ins by (auto simp: inputs_exist_def)
  have first: "pt_address (txOutPt (fill_txin c txin)) = Some (address o0)"
    by (simp add: fill_txin_def o0)
  have dbs: "debits c addr tx \<longleftrightarrow> \<not> cb \<and> address o0 = addr" by (simp add: debits_def cb ins o0)
  show ?thesis
  proof (cases "debits c addr tx")
    case False
    then have "ledger_tx addr b (fill_tx c tx) l = Ok l1"
      using wf(1) by (auto simp: ledger_tx_def wf_tx_def l1_def[symmetric] ins vec_at_def first cb dbs
          cong: option.case_cong)
    moreover have "ledger_inv g c addr (txs @ [tx]) l1"
      using l1 False by (simp add: ledger_inv_def booked_debit_def)
    ultimately show ?thesis by blast
  next
    case True
    then have d: "booked_debit c addr tx = (\<Sum>txin\<leftarrow>txIns tx. input_units c txin)" by (simp add: booked_debit_def)
    have c0: "0 \<le> booked_credit addr tx" using out by (rule credit_grid)
    have d0: "0 \<le> booked_debit c addr tx" using g(1) by (rule debit_nonneg)
    have "booked_debit c addr tx < 2 ^ (g + 53)" using bound c0 nonneg by simp
    then obtain T where T: "txIn_total (map (fill_txin c) (txIns tx)) = Ok T" "on_grid g T"
        "dbl_units T = booked_debit c addr tx"
      using txIn_total_exact [OF _ g, of "txIns tx"] wf(2) d by (auto simp: inputs_exist_def)
    have "l1 \<noteq> []" using l1(4) paid [OF True] by blast
    then obtain l0 e where l0: "l1 = l0 @ [e]" by (metis append_butlast_last_id)
    let ?amt = "dbl_times_minus1 (dbl_sub T (li_amount e))"
    have A: "on_grid g ?amt" "dbl_units ?amt = dbl_units (li_amount e) - booked_debit c addr tx"
      using ledger_debit [of l0 e g T] l1(1,3) l0 T g(2) bound d0 by simp_all
    define l' where "l' = l0 @ [\<lparr>blockIdx = index b, txid = tx_id tx, li_time = btime b,
                                 li_amount = ?amt\<rparr>]"
    have "ledger_tx addr b (fill_tx c tx) l = Ok l'"
      using wf(1) T(1) True
      by (simp add: ledger_tx_def wf_tx_def l1_def[symmetric] ins vec_at_def first cb dbs l0 l'_def
          Let_def cong: option.case_cong)
    moreover have "ledger_inv g c addr (txs @ [tx]) l'"
      using l1 A d0 by (auto simp: ledger_inv_def l'_def l0)
    ultimately show ?thesis by blast
  qed
qed

subsection \<open>The whole ledger\<close>

definition block_txs :: "Blockchain \<Rightarrow> Transaction list" where
  "block_txs c = concat (map transactions (blocks c))"

text \<open>Blocks stand at the position their index names.\<close>

definition indexed :: "Blockchain \<Rightarrow> bool" where
  "indexed c \<longleftrightarrow> (\<forall>i < length (blocks c). index (blocks c ! i) = of_nat i)"

lemma indexed_details:
  assumes "sized c" and "indexed c" and "b \<in> set (blocks c)"
    and "\<forall>tx \<in> set (block_txs c). inputs_exist c tx"
  shows "GetBlockDetails c (index b) = Ok (setTransactions (map (fill_tx c) (transactions b)) b)"
proof -
  obtain i where i: "i < length (blocks c)" "b = blocks c ! i" using assms(3) by (metis in_set_conv_nth)
  then have "unat (index b) = i" using assms(1,2) by (simp add: indexed_def sized_def unat_of_nat64)
  with i assms show ?thesis by (auto simp: GetBlockDetails_eq block_txs_def Let_def)
qed

lemma GetAddressLedger_flat:
  assumes "sized c" and "indexed c" and "\<forall>tx \<in> set (block_txs c). inputs_exist c tx"
  shows "GetAddressLedger c addr =
    rfold (\<lambda>(b, tx). ledger_tx addr b (fill_tx c tx))
      (concat (map (\<lambda>b. map (Pair b) (transactions b)) (blocks c))) []"
proof -
  have "GetAddressLedger c addr =
      rfold (\<lambda>b. rfold (\<lambda>(b, tx). ledger_tx addr b (fill_tx c tx)) (map (Pair b) (transactions b))) (blocks c) []"
    unfolding GetAddressLedger_def
    by (rule rfold_cong)
      (simp_all add: indexed_details [OF assms(1,2) _ assms(3)] rfold_map setTransactions_def)
  then show ?thesis by (simp add: rfold_concat rfold_map)
qed

text \<open>The address never pays before it was paid.\<close>

definition funded :: "Blockchain \<Rightarrow> string \<Rightarrow> bool" where
  "funded c addr \<longleftrightarrow> (\<forall>k < length (block_txs c). debits c addr (block_txs c ! k) \<longrightarrow>
     (\<exists>tx \<in> set (take (Suc k) (block_txs c)). credits addr tx))"

lemma ledger_fold:
  assumes "\<forall>tx \<in> set (map snd evs). wf_tx tx \<and> inputs_exist c tx"
    and "\<forall>tx \<in> set (map snd evs). \<forall>out \<in> set (txOuts tx). on_grid g (amount out) \<and> 0 \<le> dbl_units (amount out)"
    and g: "grid_outputs g c" "g < 2045"
    and "(\<Sum>tx\<leftarrow>map snd evs. booked_credit addr tx + booked_debit c addr tx) < 2 ^ (g + 53)"
    and "\<forall>k < length evs. debits c addr (map snd evs ! k) \<longrightarrow>
      (\<exists>tx \<in> set (take (Suc k) (map snd evs)). credits addr tx)"
  shows "\<exists>l. rfold (\<lambda>(b, tx). ledger_tx addr b (fill_tx c tx)) evs [] = Ok l
    \<and> ledger_inv g c addr (map snd evs) l"
  using assms(1,2,5,6)
proof (induction evs rule: rev_induct)
  case Nil
  show ?case by (simp add: ledger_inv_def)
next
  case (snoc e evs)
  obtain b tx where e: "e = (b, tx)" by (cases e)
  have pos: "0 \<le> booked_credit addr tx + booked_debit c addr tx" if "tx \<in> set (map snd (evs @ [e]))" for tx
    using snoc.prems(2) that debit_nonneg [OF g(1)] credit_grid [of tx g] by fastforce
  then have nn: "0 \<le> (\<Sum>tx\<leftarrow>map snd evs. booked_credit addr tx + booked_debit c addr tx)"
    by (intro sum_list_nonneg) auto
  have "\<forall>k < length evs. debits c addr (map snd evs ! k) \<longrightarrow>
      (\<exists>tx \<in> set (take (Suc k) (map snd evs)). credits addr tx)"
  proof (intro allI impI)
    fix k assume k: "k < length evs" and "debits c addr (map snd evs ! k)"
    then show "\<exists>tx \<in> set (take (Suc k) (map snd evs)). credits addr tx"
      using snoc.prems(4) [rule_format, of k] by (simp add: nth_append)
  qed
  moreover have "(\<Sum>tx\<leftarrow>map snd evs. booked_credit addr tx + booked_debit c addr tx) < 2 ^ (g + 53)"
    using snoc.prems(3) pos [of tx] e by simp
  ultimately obtain l where l: "rfold (\<lambda>(b, tx). ledger_tx addr b (fill_tx c tx)) evs [] = Ok l"
      "ledger_inv g c addr (map snd evs) l"
    using snoc.IH snoc.prems(1,2) by auto
  have "debits c addr tx \<Longrightarrow> \<exists>tx' \<in> set (map snd evs @ [tx]). credits addr tx'"
    using snoc.prems(4) [rule_format, of "length evs"] e by (simp add: nth_append)
  then obtain l' where "ledger_tx addr b (fill_tx c tx) l = Ok l'" "ledger_inv g c addr (map snd evs @ [tx]) l'"
    using ledger_tx_step [OF l(2) _ _ _ g _ _ nn, of tx b] snoc.prems(1-3) e by auto
  with l(1) e show ?case by (simp add: rfold_append)
qed

lemma GetAddressLedger_inv:
  assumes "sized c" "indexed c" "wf_txs c" and ex: "\<forall>tx \<in> set (block_txs c). inputs_exist c tx"
    and g: "grid_outputs g c" "g < 2045"
    and "(\<Sum>tx\<leftarrow>block_txs c. booked_credit addr tx + booked_debit c addr tx) < 2 ^ (g + 53)" and "funded c addr"
  shows "\<exists>l. GetAddressLedger c addr = Ok l \<and> ledger_inv g c addr (block_txs c) l"
proof -
  let ?evs = "concat (map (\<lambda>b. map (Pair b) (transactions b)) (blocks c))"
  have snds: "map snd ?evs = block_txs c" by (simp add: block_txs_def map_concat comp_def)
  then have "length ?evs = length (block_txs c)" by (metis length_map)
  moreover have "\<forall>tx \<in> set (block_txs c). wf_tx tx \<and> inputs_exist c tx"
    using assms(3) ex by (auto simp: wf_txs_def block_txs_def)
  moreover have "\<forall>tx \<in> set (block_txs c). \<forall>out \<in> set (txOuts tx). on_grid g (amount out) \<and> 0 \<le> dbl_units (amount out)"
    using g(1) by (auto simp: grid_outputs_def block_txs_def)
  ultimately show ?thesis
    using ledger_fold [of ?evs c g addr, unfolded snds] GetAddressLedger_flat [OF assms(1,2) ex] g assms(7,8)
    by (simp add: funded_def)
qed

lemma GetAddressBalance_booked:
  assumes "sized c" and "indexed c" and "wf_txs c" and "\<forall>tx \<in> set (block_txs c). inputs_exist c tx"
    and "grid_outputs g c" and "g < 2045"
    and "(\<Sum>tx\<leftarrow>block_txs c. booked_credit addr tx + booked_debit c addr tx) < 2 ^ (g + 53)" and "funded c addr"
  shows "\<exists>d. GetAddressBalance c addr = Ok d
    \<and> dbl_units d = (\<Sum>tx\<leftarrow>block_txs c. booked_credit addr tx - booked_debit c addr tx)"
proof -
  obtain l where l: "GetAddressLedger c addr = Ok l" "ledger_inv g c addr (block_txs c) l"
    using GetAddressLedger_inv [OF assms] by blast
  then have "dbl_units (dbl_sum (map li_amount l)) = (\<Sum>d\<leftarrow>map li_amount l. dbl_units d)"
    using dbl_sum_exact [of "map li_amount l" g] assms(6,7) by (auto simp: ledger_inv_def comp_def)
  with l show ?thesis by (simp add: GetAddressBalance_def ledger_inv_def comp_def)
qed

text \<open>
  Only the first output of a transaction to an address counts. When a transaction has a second one that is worth something, the balance is
  less than what the address was paid and did not spend.
\<close>

lemma sum_list_strict:
  fixes f h :: "'a \<Rightarrow> int"
  assumes "\<And>x. x \<in> set xs \<Longrightarrow> f x \<le> h x" and "f y < h y" and "y \<in> set xs"
  shows "(\<Sum>x\<leftarrow>xs. f x) < (\<Sum>x\<leftarrow>xs. h x)"
  using assms
proof (induction xs)
  case (Cons a xs)
  have "(\<Sum>x\<leftarrow>xs. f x) \<le> (\<Sum>x\<leftarrow>xs. h x)" using Cons.prems(1) by (intro sum_list_mono) simp
  with Cons show ?case by (cases "y \<in> set xs") (fastforce intro: add_le_less_mono)+
qed simp

theorem GetAddressBalance_first_output:
  assumes "sized c" and "indexed c" and "wf_txs c" and "\<forall>tx \<in> set (block_txs c). inputs_exist c tx"
    and g: "grid_outputs g c" "g < 2045"
    and bound: "(\<Sum>tx\<leftarrow>block_txs c. received addr tx + spent c addr tx) < 2 ^ (g + 53)" and "funded c addr"
    and own: "\<forall>tx \<in> set (block_txs c). one_owner c addr tx"
    and two: "tx \<in> set (block_txs c)" "filter (\<lambda>out. address out = addr) (txOuts tx) = out1 # out2 # outs" "0 < dbl_units (amount out2)"
  shows "\<exists>d. GetAddressBalance c addr = Ok d
    \<and> dbl_units d < (\<Sum>tx\<leftarrow>block_txs c. received addr tx) - (\<Sum>tx\<leftarrow>block_txs c. spent c addr tx)"
proof -
  have pos: "0 \<le> dbl_units (amount out)" if "tx \<in> set (block_txs c)" "out \<in> set (txOuts tx)" for tx out
    using g(1) that by (auto simp: grid_outputs_def block_txs_def)
  have rest: "0 \<le> (\<Sum>out\<leftarrow>xs. dbl_units (amount out))" if "tx \<in> set (block_txs c)" "set xs \<subseteq> set (txOuts tx)" for tx xs
    using pos that by (intro sum_list_nonneg) auto
  have le: "booked_credit addr tx \<le> received addr tx" if "tx \<in> set (block_txs c)" for tx
  proof (cases "filter (\<lambda>out. address out = addr) (txOuts tx)")
    case (Cons out outs)
    then have "set outs \<subseteq> set (txOuts tx)" by (metis filter_is_subset list.set(2) insert_subset)
    with Cons rest [OF that] show ?thesis by (simp add: received_filter booked_credit_filter)
  qed (simp add: received_filter booked_credit_filter)
  have "set outs \<subseteq> set (txOuts tx)" using two(2) by (metis filter_is_subset list.set(2) insert_subset)
  from rest [OF two(1) this] two(2,3) have less: "booked_credit addr tx < received addr tx"
    by (simp add: received_filter booked_credit_filter)
  have same: "(\<Sum>tx\<leftarrow>block_txs c. booked_debit c addr tx) = (\<Sum>tx\<leftarrow>block_txs c. spent c addr tx)"
    using own by (simp add: booked_debit_spent cong: map_cong)
  have sums: "(\<Sum>tx\<leftarrow>block_txs c. booked_credit addr tx) < (\<Sum>tx\<leftarrow>block_txs c. received addr tx)"
    using le less two(1) by (rule sum_list_strict)
  with bound have "(\<Sum>tx\<leftarrow>block_txs c. booked_credit addr tx + booked_debit c addr tx) < 2 ^ (g + 53)"
    by (simp add: sum_list_addf same)
  from GetAddressBalance_booked [OF assms(1-6) this assms(8)] sums show ?thesis
    by (auto simp: sum_list_subtractf same)
qed

text \<open>
  The transactions that \<open>CreateTransaction\<close> builds are regular for every address: they have one output to the receiver and at most
  one to the sender, and all their inputs refer to outputs to the sender.
\<close>

lemma unspent_created:
  assumes "GetUnspentTxOuts H c addr = Ok outs" and "u \<in> set outs"
  shows "\<exists>e \<in> set (chain_txs c). u \<in> set (created addr e)"
proof -
  have "set outs' \<subseteq> set outs \<union> (\<Union>e \<in> set evs. set (created addr e))"
    if "rfold (\<lambda>(bi, item). unspent_tx H addr bi item) evs outs = Ok outs'" for evs outs outs'
    using that
  proof (induction evs arbitrary: outs)
    case (Cons e evs)
    obtain bi ti tx where e: "e = (bi, ti, tx)" by (cases e)
    with Cons.prems obtain outs1 where 1: "unspent_tx H addr bi (ti, tx) outs = Ok outs1"
        "rfold (\<lambda>(bi, item). unspent_tx H addr bi item) evs outs1 = Ok outs'" by (auto simp: rbind_Ok_iff)
    with Cons.IH [OF 1(2)] unspent_tx_subset [OF 1(1)] e show ?case by auto
  qed simp
  from this [OF assms(1) [unfolded GetUnspentTxOuts_flat]] assms(2) show ?thesis by auto
qed

lemma created_referenced:
  assumes "sized c" and "indexed c" and "e \<in> set (chain_txs c)" and "u \<in> set (created addr e)"
  shows "map_option address (referenced c u) = pt_address u"
proof -
  obtain bi n tx where e: "e = (bi, n, tx)" by (cases e)
  then obtain b where b: "b \<in> set (blocks c)" "bi = index b" "n < length (transactions b)" "tx = transactions b ! n"
    using assms(3) by (auto simp: chain_txs_def in_set_enumerate_eq)
  then obtain i where i: "i < length (blocks c)" "b = blocks c ! i" by (metis in_set_conv_nth)
  obtain k where k: "k < length (txOuts tx)" and u: "blockIndex u = bi" "txIndex u = of_nat n" "txOutIndex u = of_nat k"
      "pt_address u = Some (address (txOuts tx ! k))"
    using assms(4) e by (auto simp: created_def in_set_enumerate_eq)
  have "length (blocks c) < 2 ^ 64" "length (transactions b) < 2 ^ 64" "length (txOuts tx) < 2 ^ 64"
    using assms(1) b by (auto simp: sized_def)
  then have "unat (blockIndex u) = i" "unat (txIndex u) = n" "unat (txOutIndex u) = k"
    using assms(2) b i k u by (simp_all add: indexed_def unat_of_nat64)
  then show ?thesis using b i k u by (simp add: referenced_def)
qed

lemma CreateTransaction_regular:
  assumes "CreateTransaction cp H ieq c pk receiver amt = Ok (SUCCESS, tx)" and "sized c" "indexed c"
    and "\<And>a. ieq a a" and "GetAddressFromPrivateKey cp pk \<noteq> []"
  shows "one_output addr tx" and "one_owner c addr tx"
proof -
  let ?s = "GetAddressFromPrivateKey cp pk"
  obtain us where us: "GetUnspentTxOuts H c ?s = Ok us" and ne: "\<not> ieq receiver ?s"
    using assms(1) by (auto simp: CreateTransaction_def Let_def rbind_Ok_iff split: if_splits)
  then obtain change vs where tx: "tx = payment ?s receiver amt change vs" "set vs \<subseteq> set us"
    using assms(1) by (auto simp: CreateTransaction_eq [OF refl us] Let_def split: if_splits dest: in_set_takeD)
  have "receiver \<noteq> ?s" using ne assms(4) by auto
  then show "one_output addr tx" by (auto simp: tx(1) one_output_def payment_def mk_TxOut_def)
  have "map_option address (referenced c (txOutPt txin)) = Some ?s" if mem: "txin \<in> set (txIns tx)" for txin
  proof -
    obtain u where u: "u \<in> set us" "txin = mk_TxIn (blockIndex u) (txIndex u) (txOutIndex u) ''signature''"
      using mem tx by (auto simp: payment_def)
    then obtain e where e: "e \<in> set (chain_txs c)" "u \<in> set (created ?s e)" using unspent_created [OF us] by blast
    have "referenced c (txOutPt txin) = referenced c u" by (simp add: u mk_TxIn_def referenced_def Let_def)
    moreover have "pt_address u = Some ?s" using unspent_filled [OF us] u(1) assms(5) by (auto simp: filled_for_def)
    ultimately show ?thesis using created_referenced [OF assms(2,3) e] by simp
  qed
  moreover have "hd (txIns tx) \<in> set (txIns tx)" if "txin \<in> set (txIns tx)" for txin using that by (cases "txIns tx") auto
  ultimately show "one_owner c addr tx" unfolding one_owner_def by metis
qed

subsection \<open>Finding a transaction\<close>

lemma find_in_txs_eq:
  "find_in_txs i bi xs =
     map_option (\<lambda>(n, tx). (bi, of_nat n)) (find (\<lambda>(n, tx). tx_id tx = i) xs)"
  by (induction xs) auto

lemma find_append: "find P (xs @ ys) = (case find P xs of None \<Rightarrow> find P ys | Some x \<Rightarrow> Some x)"
  by (induction xs) auto

lemma find_map: "find P (map f xs) = map_option f (find (\<lambda>x. P (f x)) xs)"
  by (induction xs) auto

lemma find_in_blocks_eq:
  "find_in_blocks i bs =
     map_option (\<lambda>(bi, n, tx). (bi, of_nat n)) (find (\<lambda>(bi, n, tx). tx_id tx = i)
       (concat (map (\<lambda>b. map (\<lambda>(n, tx). (index b, n, tx)) (enumerate 0 (transactions b))) bs)))"
  by (induction bs)
    (auto simp: find_in_txs_eq find_append find_map case_prod_unfold split: option.splits)

lemma FindTransaction_eq:
  "FindTransaction c i =
     map_option (\<lambda>(bi, n, tx). (bi, of_nat n)) (find (\<lambda>(bi, n, tx). tx_id tx = i) (chain_txs c))"
  by (simp add: FindTransaction_def find_in_blocks_eq chain_txs_def)

lemma txAt_chain_txs:
  assumes "sized c" and "indexed c" and "(bi, n, tx) \<in> set (chain_txs c)"
  shows "txAt c bi (of_nat n) = Ok tx"
proof -
  obtain b where b: "b \<in> set (blocks c)" "bi = index b" "(n, tx) \<in> set (enumerate 0 (transactions b))"
    using assms(3) by (auto simp: chain_txs_def)
  then obtain i where i: "i < length (blocks c)" "b = blocks c ! i" by (metis in_set_conv_nth)
  have n: "n < length (transactions b)" "tx = transactions b ! n"
    using b(3) by (auto simp: in_set_enumerate_eq)
  have sz: "length (blocks c) < 2 ^ 64" "length (transactions b) < 2 ^ 64"
    using assms(1) b(1) by (auto simp: sized_def)
  then have "unat bi = i" "unat (of_nat n :: u64) = n"
    using assms(2) b(2) i n by (simp_all add: indexed_def unat_of_nat64)
  then show ?thesis
    using i n sz by (simp add: txAt_def chain_at_def vec_at_def chain_size_def word_less_nat_alt unat_vec_size)
qed

context json_library
begin

lemma AddressLedger_json: "AddressLedger_from_json J (AddressLedger_to_json J l) = Ok l"
  by (simp add: AddressLedger_from_json_def AddressLedger_to_json_def ledger_json.vector_roundtrip)

end

subsection \<open>A sample chain\<close>

definition sample_hashes :: hash_lib where
  "sample_hashes = \<lparr>hash_u64 = (\<lambda>x. x), hash_combine = (\<lambda>s x. s * 100 + x)\<rparr>"

definition sample_sender :: string where
  "sample_sender = GetAddressFromPrivateKey sample_cp ''key''"

lemma sample_sender_neq [simp]: "sample_sender \<noteq> []" "sample_sender \<noteq> ''x''" "''x'' \<noteq> sample_sender"
  by (auto simp: sample_sender_def GetAddressFromPrivateKey_def Let_def)

text \<open>A chain in which the sender earns a reward, pays 20 of it and keeps 37 as change.\<close>

definition sample_chain :: Blockchain where
  "sample_chain = empty_Blockchain\<lparr>blocks :=
     [sample_block 0 1 5 [CreateCoinbaseTransaction sample_cp 0 sample_sender],
      sample_block 1 2 9 [CreateCoinbaseTransaction sample_cp 1 ''x'',
        \<lparr>tx_id = ''t'', txIns = [mk_TxIn 0 0 0 ''s''],
         txOuts = [mk_TxOut ''x'' (dbl_of_nat 20), mk_TxOut sample_sender (dbl_of_nat 37)]\<rparr>]]\<rparr>"

lemmas sample_chain_simps =
  sample_chain_def empty_Blockchain_def mk_TxIn_def mk_TxOut_def

lemma sample_chain_txs:
  "chain_txs sample_chain =
     [(0, 0, CreateCoinbaseTransaction sample_cp 0 sample_sender),
      (1, 0, CreateCoinbaseTransaction sample_cp 1 ''x''),
      (1, 1, \<lparr>tx_id = ''t'', txIns = [mk_TxIn 0 0 0 ''s''],
         txOuts = [mk_TxOut ''x'' (dbl_of_nat 20), mk_TxOut sample_sender (dbl_of_nat 37)]\<rparr>)]"
  by (simp add: chain_txs_def sample_chain_def empty_Blockchain_def)

definition sample_unspent :: TxOutPoint where
  "sample_unspent = \<lparr>blockIndex = 1, txIndex = 1, txOutIndex = 1, pt_address = Some sample_sender,
     pt_amount = Some (dbl_of_nat 37)\<rparr>"

lemma sample_unspent_eq: "GetUnspentTxOuts sample_hashes sample_chain sample_sender = Ok [sample_unspent]"
  by (simp add: GetUnspentTxOuts_flat sample_chain_txs unspent_tx_def unspent_insert_out_def
      isCoinbase_def vec_at_def mk_TxIn_def mk_TxOut_def same_point_def Let_def sample_unspent_def
      hash_TxOutPoint_def sample_hashes_def)

lemma enough_single: "enough amt [u] n \<longleftrightarrow> n = 1 \<and> dbl_ge (collected [u] 1) amt"
  by (auto simp: enough_def le_Suc_eq)

lemma sample_collected: "collected [sample_unspent] (Suc 0) = dbl_of_nat 37"
  using dbl_sum_of_nat [of "[37]"] by (simp add: collected_def sample_unspent_def)

subsection \<open>Main results\<close>

text \<open>
  C8: \<open>GetUnspentTxOuts\<close> is correct on every chain in which transactions have inputs and outputs
  and no two of the considered outputs have the same 64-bit hash. It returns, ordered by that
  hash, exactly the outputs (of the given address, or of every address if it is empty) that were
  created by some transaction and that neither this nor a later transaction other than a coinbase
  names as an input.
\<close>

theorem GetUnspentTxOuts_correct:
  assumes "inj_on (hash_TxOutPoint H) (\<Union>e \<in> set (chain_txs c). set (created addr e))"
    and "\<forall>b \<in> set (blocks c). \<forall>tx \<in> set (transactions b). txIns tx \<noteq> [] \<and> txOuts tx \<noteq> []"
  shows "\<exists>outs. GetUnspentTxOuts H c addr = Ok outs
    \<and> sorted_wrt (\<lambda>u v. hash_TxOutPoint H u < hash_TxOutPoint H v) outs
    \<and> (\<forall>u. u \<in> set outs \<longleftrightarrow>
         (\<exists>i < length (chain_txs c). u \<in> set (created addr (chain_txs c ! i))
            \<and> (\<forall>j < length (chain_txs c). i \<le> j \<longrightarrow> \<not> spends (chain_txs c ! j) u)))"
  using GetUnspentTxOuts_set [OF assms(1)] assms(2)
  by (auto simp: wf_txs_def wf_tx_def keyed_ok_def utxo_closed_form)

theorem GetUnspentTxOuts_correct_witness:
  "\<exists>outs. GetUnspentTxOuts sample_hashes sample_chain sample_sender = Ok outs
    \<and> sorted_wrt (\<lambda>u v. hash_TxOutPoint sample_hashes u < hash_TxOutPoint sample_hashes v) outs
    \<and> (\<forall>u. u \<in> set outs \<longleftrightarrow>
         (\<exists>i < length (chain_txs sample_chain). u \<in> set (created sample_sender (chain_txs sample_chain ! i))
            \<and> (\<forall>j < length (chain_txs sample_chain). i \<le> j \<longrightarrow> \<not> spends (chain_txs sample_chain ! j) u)))"
proof (rule GetUnspentTxOuts_correct)
  show "inj_on (hash_TxOutPoint sample_hashes)
      (\<Union>e \<in> set (chain_txs sample_chain). set (created sample_sender e))"
    by (simp add: sample_chain_txs created_def mk_TxOut_def hash_TxOutPoint_def sample_hashes_def Let_def
        del: set_filter)
qed (simp add: sample_chain_simps)

text \<open>
  \<open>CreateTransaction\<close> on every branch, given the unspent outputs of the sender. Paying
  oneself is a no-op and a sender without unspent outputs is refused. Otherwise the outputs are
  taken in their order up to the first point where the sum of doubles reaches the amount: that
  many inputs are spent, the receiver gets the amount and the sender the difference, if it is
  positive. If no prefix reaches the amount the result is insufficient funds, except when the
  comparison is unordered (the amount is not a number), where every output is spent.
\<close>

theorem CreateTransaction_correct:
  assumes "GetUnspentTxOuts H c (GetAddressFromPrivateKey cp pk) = Ok us"
  shows "CreateTransaction cp H ieq c pk receiver amt =
    (let sender = GetAddressFromPrivateKey cp pk in
     if ieq receiver sender then Ok (NOOP_TRANSACTION, empty_Transaction)
     else if us = [] then Ok (TXOUTS_EMPTY, empty_Transaction)
     else if \<exists>n. enough amt us n
     then let n = (LEAST n. enough amt us n)
          in Ok (SUCCESS, payment sender receiver amt (dbl_sub (collected us n) amt) (take n us))
     else if dbl_lt (collected us (length us)) amt then Ok (INSUFFICIENT_FUNDS, empty_Transaction)
     else Ok (SUCCESS, payment sender receiver amt dbl_zero us))"
  unfolding Let_def [of "GetAddressFromPrivateKey cp pk"]
  by (rule CreateTransaction_eq [OF refl assms])

theorem CreateTransaction_correct_witness:
  "CreateTransaction sample_cp sample_hashes (=) sample_chain ''key'' ''x'' (dbl_of_nat 40)
     = Ok (INSUFFICIENT_FUNDS, empty_Transaction)"
proof -
  have "GetUnspentTxOuts sample_hashes sample_chain (GetAddressFromPrivateKey sample_cp ''key'') = Ok [sample_unspent]"
    using sample_unspent_eq by (simp add: sample_sender_def)
  moreover have lt: "dbl_lt (collected [sample_unspent] 1) (dbl_of_nat 40)"
    by (simp add: sample_collected dbl_cmp_of_nat)
  moreover have no: "\<not> (\<exists>n. enough (dbl_of_nat 40) [sample_unspent] n)"
    using dbl_ge_not_lt lt by (auto simp: enough_single)
  moreover have "''x'' \<noteq> GetAddressFromPrivateKey sample_cp ''key''"
    using sample_sender_neq by (simp add: sample_sender_def)
  ultimately show ?thesis
    using CreateTransaction_correct [of sample_hashes sample_chain sample_cp "''key''" "[sample_unspent]"
        "(=)" "''x''" "dbl_of_nat 40"] by (simp add: if_not_P [OF no])
qed

text \<open>
  C13: a payment conserves money. For a positive amount on a common binary grid with the sender's
  outputs, small enough for sums to be exact, and a receiver other than the sender,
  \<open>CreateTransaction\<close> succeeds exactly if the unspent outputs cover the amount. The transaction
  then spends a prefix of them, no shorter prefix would do, its first output pays the receiver
  the amount, and its outputs add up to exactly what the inputs are worth.
\<close>

theorem CreateTransaction_conserves:
  assumes "GetUnspentTxOuts H c (GetAddressFromPrivateKey cp pk) = Ok us" and ex: "exact_amounts g us"
    and amt: "on_grid g amt" "0 < dbl_units amt"
    and "\<not> ieq receiver (GetAddressFromPrivateKey cp pk)"
  shows "if dbl_units amt \<le> total_units us
    then \<exists>n tx. CreateTransaction cp H ieq c pk receiver amt = Ok (SUCCESS, tx)
       \<and> map txOutPt (txIns tx) = map (\<lambda>u. u\<lparr>pt_address := None, pt_amount := None\<rparr>) (take n us)
       \<and> (\<forall>m < n. total_units (take m us) < dbl_units amt)
       \<and> hd (txOuts tx) = \<lparr>address = receiver, amount = amt\<rparr>
       \<and> out_units tx = total_units (take n us)
    else (\<exists>r. r \<in> {TXOUTS_EMPTY, INSUFFICIENT_FUNDS}
       \<and> CreateTransaction cp H ieq c pk receiver amt = Ok (r, empty_Transaction))"
proof (cases "dbl_units amt \<le> total_units us")
  case True
  then have us: "us \<noteq> []" using amt(2) by (auto simp: total_units_def)
  then have "enough amt us (length us)" using True by (simp add: enough_exact [OF ex amt(1)])
  then have some: "\<exists>n. enough amt us n" by blast
  define n where "n = (LEAST n. enough amt us n)"
  have n: "enough amt us n" unfolding n_def using some by (rule LeastI_ex)
  have "total_units (take m us) < dbl_units amt" if "m < n" for m
  proof (cases "m = 0")
    case False
    moreover have "\<not> enough amt us m" using that unfolding n_def by (rule not_less_Least)
    moreover have "n \<le> length us" using n by (simp add: enough_def)
    ultimately show ?thesis using that by (simp add: enough_exact [OF ex amt(1)])
  qed (use amt(2) in \<open>simp add: total_units_def\<close>)
  moreover have "out_units (payment (GetAddressFromPrivateKey cp pk) receiver amt
      (dbl_sub (collected us n) amt) (take n us)) = total_units (take n us)"
    using n ex amt by (intro payment_exact) (auto simp: enough_exact [OF ex amt(1)] exact_amounts_def total_units_def)
  ultimately show ?thesis
    using True us some assms(5)
    by (auto simp: CreateTransaction_eq [OF refl assms(1)] Let_def n_def [symmetric] payment_def mk_TxIn_def mk_TxOut_def
        intro!: exI [of _ n])
next
  case False
  have no: "\<not> (\<exists>n. enough amt us n)"
    using False total_units_take(2) [OF ex] by (auto simp: enough_exact [OF ex amt(1)] dest: order_trans)
  have "dbl_lt (collected us (length us)) amt"
    using False dbl_lt_iff [OF collected_exact(1) [OF ex] amt(1)] by (simp add: collected_exact(2) [OF ex])
  then show ?thesis
    using False assms(5) by (simp add: CreateTransaction_eq [OF refl assms(1)] if_not_P [OF no])
qed

theorem CreateTransaction_conserves_witness:
  "\<exists>n tx. CreateTransaction sample_cp sample_hashes (=) sample_chain ''key'' ''x'' (dbl_of_nat 20) = Ok (SUCCESS, tx)
       \<and> map txOutPt (txIns tx) = map (\<lambda>u. u\<lparr>pt_address := None, pt_amount := None\<rparr>) (take n [sample_unspent])
       \<and> (\<forall>m < n. total_units (take m [sample_unspent]) < dbl_units (dbl_of_nat 20))
       \<and> hd (txOuts tx) = \<lparr>address = ''x'', amount = dbl_of_nat 20\<rparr>
       \<and> out_units tx = total_units (take n [sample_unspent])"
proof -
  have u: "GetUnspentTxOuts sample_hashes sample_chain (GetAddressFromPrivateKey sample_cp ''key'') = Ok [sample_unspent]"
    using sample_unspent_eq by (simp add: sample_sender_def)
  have e: "exact_amounts 1074 [sample_unspent]"
    using dbl_of_nat_exact [of 37] scaled_less [of 37] by (simp add: exact_amounts_def sample_unspent_def)
  have n: "\<not> ''x'' = GetAddressFromPrivateKey sample_cp ''key''"
    using sample_sender_neq by (simp add: sample_sender_def)
  have "dbl_units (dbl_of_nat 20) \<le> total_units [sample_unspent]"
    using dbl_of_nat_exact(2) [of 37] dbl_of_nat_exact(2) [of 20] by (simp add: total_units_def sample_unspent_def)
  then show ?thesis
    using CreateTransaction_conserves [OF u e, of "dbl_of_nat 20" "(=)" "''x''"] n dbl_of_nat_exact [of 20]
    by simp
qed

text \<open>
  Negative amounts are accepted. For a negative amount on the grid the first unspent output
  always suffices: \<open>CreateTransaction\<close> succeeds, gives the receiver a negative output, and the
  change it returns to the sender is worth more than the output that was spent.
\<close>

theorem CreateTransaction_negative_amount:
  assumes "GetUnspentTxOuts H c (GetAddressFromPrivateKey cp pk) = Ok us" and ex: "exact_amounts g us"
    and amt: "on_grid g amt" "dbl_units amt < 0" "total_units us - dbl_units amt < 2 ^ (g + 53)"
    and "\<not> ieq receiver (GetAddressFromPrivateKey cp pk)" and "us \<noteq> []"
  shows "\<exists>tx change. CreateTransaction cp H ieq c pk receiver amt = Ok (SUCCESS, tx)
    \<and> txOuts tx = [\<lparr>address = receiver, amount = amt\<rparr>,
                    \<lparr>address = GetAddressFromPrivateKey cp pk, amount = change\<rparr>]
    \<and> length (txIns tx) = 1
    \<and> dbl_units change = dbl_units (paid (hd us)) - dbl_units amt
    \<and> dbl_units (paid (hd us)) < dbl_units change"
proof -
  obtain u us' where us: "us = u # us'" using assms(7) by (cases us) auto
  have "enough amt us 1"
    unfolding enough_exact [OF ex amt(1)] using amt(2) total_units_take(1) [OF ex, of 1] us by simp
  moreover have "\<not> enough amt us 0" by (simp add: enough_def)
  ultimately have n: "(LEAST n. enough amt us n) = 1" and some: "\<exists>n. enough amt us n"
    by (auto intro!: Least_equality simp: Suc_le_eq intro: gr0I)
  have one: "total_units (take 1 us) = dbl_units (paid u)" by (simp add: us total_units_def)
  have le: "dbl_units amt \<le> total_units (take 1 us)"
    using amt(2) total_units_take(1) [OF ex, of 1] by simp
  note change = payment_exact(2,3) [OF ex amt(1) le amt(3)]
  have "0 \<le> dbl_units (paid u)" using ex us by (simp add: exact_amounts_def)
  then have "dbl_lt dbl_zero (dbl_sub (collected us 1) amt)"
    using dbl_lt_iff [OF on_grid_zero(1) [of g] change(2)] change(1) amt(2) one by simp
  then show ?thesis
    using some n assms(6,7) change amt(2) one us
    by (auto simp: CreateTransaction_eq [OF refl assms(1)] payment_def mk_TxOut_def)
qed

theorem CreateTransaction_negative_amount_witness:
  "\<exists>tx change. CreateTransaction sample_cp sample_hashes (=) sample_chain ''key'' ''x'' (dbl_flip (dbl_of_nat 20))
       = Ok (SUCCESS, tx)
    \<and> txOuts tx = [\<lparr>address = ''x'', amount = dbl_flip (dbl_of_nat 20)\<rparr>,
                    \<lparr>address = GetAddressFromPrivateKey sample_cp ''key'', amount = change\<rparr>]
    \<and> length (txIns tx) = 1
    \<and> dbl_units change = dbl_units (paid (hd [sample_unspent])) - dbl_units (dbl_flip (dbl_of_nat 20))
    \<and> dbl_units (paid (hd [sample_unspent])) < dbl_units change"
proof (rule CreateTransaction_negative_amount [where g = 1074 and us = "[sample_unspent]"])
  show "GetUnspentTxOuts sample_hashes sample_chain (GetAddressFromPrivateKey sample_cp ''key'') = Ok [sample_unspent]"
    using sample_unspent_eq by (simp add: sample_sender_def)
  show "exact_amounts 1074 [sample_unspent]"
    using dbl_of_nat_exact [of 37] scaled_less [of 37] by (simp add: exact_amounts_def sample_unspent_def)
  show "\<not> ''x'' = GetAddressFromPrivateKey sample_cp ''key''"
    using sample_sender_neq by (simp add: sample_sender_def)
  have "total_units [sample_unspent] - dbl_units (dbl_flip (dbl_of_nat 20)) = int 57 * one_units"
    using dbl_of_nat_exact(2) [of 37] dbl_of_nat_exact(2) [of 20] by (simp add: total_units_def sample_unspent_def)
  then show "total_units [sample_unspent] - dbl_units (dbl_flip (dbl_of_nat 20)) < 2 ^ (1074 + 53)"
    using scaled_less [of 57] by simp
qed (use dbl_of_nat_exact [of 20] in simp_all)

text \<open>
  C39: outputs can be spent twice. \<open>CreateTransaction\<close> reads only the blocks, so after its result
  has been queued it returns the same transaction again; queueing that as well, the next block
  contains two transactions with the same inputs and outputs.
\<close>

theorem CreateTransaction_double_spend:
  assumes "CreateTransaction cp H ieq c pk receiver amt = Ok (SUCCESS, tx)" and "txQueue c = []"
    and "blocks c \<noteq> []"
  shows "CreateTransaction cp H ieq (queueTransaction tx c) pk receiver amt = Ok (SUCCESS, tx)
    \<and> (\<exists>b c' cb t1 t2.
         createUnminedBlock cp J now w (queueTransaction tx (queueTransaction tx c)) = Ok (b, c')
         \<and> transactions b = [cb, t1, t2] \<and> txIns t1 = txIns tx \<and> t2 = t1)"
proof -
  have "GetUnspentTxOuts H (queueTransaction tx c) a = GetUnspentTxOuts H c a" for a
    by (simp add: GetUnspentTxOuts_def queueTransaction_def)
  then have "CreateTransaction cp H ieq (queueTransaction tx c) pk receiver amt
      = CreateTransaction cp H ieq c pk receiver amt" by (simp only: CreateTransaction_def)
  moreover have "blocks (queueTransaction tx (queueTransaction tx c)) \<noteq> []"
    and "txQueue (queueTransaction tx (queueTransaction tx c)) = [tx, tx]"
    using assms(2,3) by (simp_all add: queueTransaction_def)
  ultimately show ?thesis
    using assms(1) by (simp add: createUnminedBlock_eq new_Block_def)
qed

theorem CreateTransaction_double_spend_witness:
  "\<exists>tx. CreateTransaction sample_cp sample_hashes (=) (queueTransaction tx sample_chain) ''key'' ''x'' (dbl_of_nat 20)
      = Ok (SUCCESS, tx)
    \<and> (\<exists>b c' cb t1 t2.
         createUnminedBlock sample_cp jval_lib 7 ''w'' (queueTransaction tx (queueTransaction tx sample_chain)) = Ok (b, c')
         \<and> transactions b = [cb, t1, t2] \<and> txIns t1 = txIns tx \<and> t2 = t1)"
proof -
  have u: "GetUnspentTxOuts sample_hashes sample_chain (GetAddressFromPrivateKey sample_cp ''key'') = Ok [sample_unspent]"
    using sample_unspent_eq by (simp add: sample_sender_def)
  have "enough (dbl_of_nat 20) [sample_unspent] 1"
    by (simp add: enough_single sample_collected dbl_cmp_of_nat)
  then have "\<exists>n. enough (dbl_of_nat 20) [sample_unspent] n" by blast
  moreover have "''x'' \<noteq> GetAddressFromPrivateKey sample_cp ''key''"
    using sample_sender_neq by (simp add: sample_sender_def)
  ultimately obtain tx where
    "CreateTransaction sample_cp sample_hashes (=) sample_chain ''key'' ''x'' (dbl_of_nat 20) = Ok (SUCCESS, tx)"
    by (simp add: CreateTransaction_eq [OF refl u] Let_def)
  from CreateTransaction_double_spend [OF this, of jval_lib 7 "''w''"] show ?thesis
    by (auto simp: sample_chain_def empty_Blockchain_def)
qed

text \<open>
  C35: \<open>GetBlockDetails\<close> on every branch, for a chain whose vectors have representable sizes. An
  index outside the chain throws. Otherwise the block is returned with the address and the amount
  of the referenced output filled into every input and everything else, the hash included, as it
  was; if an input refers to a block, transaction or output that does not exist, an assertion fails.
\<close>

theorem GetBlockDetails_correct:
  assumes "sized c"
  shows "if length (blocks c) \<le> unat i then GetBlockDetails c i = Err OutOfRange
    else if \<forall>tx \<in> set (transactions (blocks c ! unat i)). \<forall>txin \<in> set (txIns tx).
              referenced c (txOutPt txin) \<noteq> None
    then \<exists>b. GetBlockDetails c i = Ok b
       \<and> setTransactions (transactions (blocks c ! unat i)) b = blocks c ! unat i
       \<and> list_all2 (\<lambda>tx tx'. tx_id tx' = tx_id tx \<and> txOuts tx' = txOuts tx
            \<and> list_all2 (\<lambda>txin txin'. \<exists>out. referenced c (txOutPt txin) = Some out
                 \<and> txin' = txin\<lparr>txOutPt := (txOutPt txin)\<lparr>pt_address := Some (address out),
                                                       pt_amount := Some (amount out)\<rparr>\<rparr>)
                (txIns tx) (txIns tx'))
           (transactions (blocks c ! unat i)) (transactions b)
    else GetBlockDetails c i = Err AssertFailed"
proof -
  let ?txs = "transactions (blocks c ! unat i)"
  let ?R = "\<lambda>txin txin'. \<exists>out. referenced c (txOutPt txin) = Some out
                 \<and> txin' = txin\<lparr>txOutPt := (txOutPt txin)\<lparr>pt_address := Some (address out),
                                                       pt_amount := Some (amount out)\<rparr>\<rparr>"
  have "list_all2 (\<lambda>tx tx'. tx_id tx' = tx_id tx \<and> txOuts tx' = txOuts tx \<and> list_all2 ?R (txIns tx) (txIns tx'))
      ?txs (map (fill_tx c) ?txs)"
    if "\<forall>tx \<in> set ?txs. \<forall>txin \<in> set (txIns tx). referenced c (txOutPt txin) \<noteq> None"
    using that by (fastforce simp: list_all2_map2 fill_txin_def intro!: list.rel_refl_strong split: option.split)
  moreover have "setTransactions ?txs (setTransactions txs (blocks c ! unat i)) = blocks c ! unat i" for txs
    by (simp add: setTransactions_def)
  moreover have "transactions (setTransactions txs b) = txs" for txs b by (simp add: setTransactions_def)
  ultimately show ?thesis
    unfolding GetBlockDetails_eq [OF assms] inputs_exist_def Let_def by (simp split: if_split) fastforce
qed

lemma sample_chain_sized: "sized sample_chain"
  by (simp add: sized_def sample_chain_simps)

lemma sample_referenced:
  "referenced sample_chain \<lparr>blockIndex = 0, txIndex = 0, txOutIndex = 0, pt_address = None, pt_amount = None\<rparr>
     = Some (mk_TxOut sample_sender COINBASE_REWARD)"
  "referenced sample_chain \<lparr>blockIndex = 1, txIndex = 0, txOutIndex = 0, pt_address = None, pt_amount = None\<rparr>
     = Some (mk_TxOut ''x'' COINBASE_REWARD)"
  by (simp_all add: referenced_def sample_chain_def empty_Blockchain_def)

lemma sample_txs: "block_txs sample_chain =
     [CreateCoinbaseTransaction sample_cp 0 sample_sender, CreateCoinbaseTransaction sample_cp 1 ''x'',
      \<lparr>tx_id = ''t'', txIns = [mk_TxIn 0 0 0 ''s''],
         txOuts = [mk_TxOut ''x'' (dbl_of_nat 20), mk_TxOut sample_sender (dbl_of_nat 37)]\<rparr>]"
  by (simp add: block_txs_def sample_chain_def empty_Blockchain_def)

lemma sample_not_coinbase: "isCoinbase \<lparr>tx_id = i, txIns = [mk_TxIn 0 0 0 ''s''], txOuts = out # outs\<rparr> = Ok False"
  by (simp add: isCoinbase_Ok_iff mk_TxIn_def)

theorem GetBlockDetails_correct_witness:
  "GetBlockDetails sample_chain 2 = Err OutOfRange \<and> (\<exists>b. GetBlockDetails sample_chain 1 = Ok b \<and> hash b = sample_hash)"
  using GetBlockDetails_correct [OF sample_chain_sized, of 2] GetBlockDetails_correct [OF sample_chain_sized, of 1]
    sample_referenced
  by (auto simp: sample_chain_simps setTransactions_def dest: arg_cong [of _ _ hash])

text \<open>
  C14: the balance of an address is exact. If blocks stand at the positions their indices name,
  transactions have inputs and outputs, inputs refer to existing outputs, amounts are nonnegative
  multiples of a common binary grid, the flow of the address fits the precision of a double, the address
  does not spend before it was paid, and every transaction has at most one output to the address and takes either all its inputs from
  it or none, then \<open>GetAddressBalance\<close> returns, and its result is the sum of all outputs to the address
  minus the sum of the outputs to it that inputs spend. In particular
  the ledger's trick of replacing its last entry does not change the balance. The last condition holds for the transactions the program
  builds (lemma \<open>CreateTransaction_regular\<close>); theorem \<open>GetAddressBalance_first_output\<close> shows that it cannot be left out.
\<close>

theorem GetAddressBalance_correct:
  assumes "sized c" and "indexed c" and "wf_txs c" and "\<forall>tx \<in> set (block_txs c). inputs_exist c tx"
    and "grid_outputs g c" and "g < 2045"
    and "(\<Sum>tx\<leftarrow>block_txs c. received addr tx + spent c addr tx) < 2 ^ (g + 53)" and "funded c addr"
    and "\<forall>tx \<in> set (block_txs c). one_output addr tx \<and> one_owner c addr tx"
  shows "\<exists>d. GetAddressBalance c addr = Ok d
    \<and> dbl_units d = (\<Sum>tx\<leftarrow>block_txs c. received addr tx) - (\<Sum>tx\<leftarrow>block_txs c. spent c addr tx)"
proof -
  have same: "booked_credit addr tx = received addr tx" "booked_debit c addr tx = spent c addr tx" if "tx \<in> set (block_txs c)" for tx
    using assms(9) that by (simp_all add: booked_credit_received booked_debit_spent)
  then have "(\<Sum>tx\<leftarrow>block_txs c. booked_credit addr tx + booked_debit c addr tx) < 2 ^ (g + 53)"
    using assms(7) by (simp cong: map_cong)
  from GetAddressBalance_booked [OF assms(1-6) this assms(8)] same show ?thesis by (simp add: sum_list_subtractf cong: map_cong)
qed

theorem GetAddressBalance_correct_witness:
  "\<exists>d. GetAddressBalance sample_chain sample_sender = Ok d \<and> dbl_units d = int 37 * one_units"
proof -
  note txs = sample_txs and units = dbl_of_nat_exact(2) and cb = sample_not_coinbase
  have flow: "(\<Sum>tx\<leftarrow>block_txs sample_chain. received sample_sender tx) = int 94 * one_units"
    "(\<Sum>tx\<leftarrow>block_txs sample_chain. spent sample_chain sample_sender tx) = int 57 * one_units"
    by (simp_all add: txs received_def spent_def mk_TxIn_def mk_TxOut_def
        sample_referenced [unfolded mk_TxOut_def] cb [unfolded mk_TxIn_def] COINBASE_REWARD_def units)
  have "\<exists>d. GetAddressBalance sample_chain sample_sender = Ok d
    \<and> dbl_units d = (\<Sum>tx\<leftarrow>block_txs sample_chain. received sample_sender tx) - (\<Sum>tx\<leftarrow>block_txs sample_chain. spent sample_chain sample_sender tx)"
  proof (rule GetAddressBalance_correct [where g = 1074, OF sample_chain_sized])
    show "indexed sample_chain" by (auto simp: indexed_def sample_chain_simps less_Suc_eq)
    show "wf_txs sample_chain" by (simp add: wf_txs_def wf_tx_def sample_chain_simps)
    show "\<forall>tx \<in> set (block_txs sample_chain). inputs_exist sample_chain tx"
      by (simp add: txs inputs_exist_def mk_TxIn_def sample_referenced)
    show "grid_outputs 1074 sample_chain"
      using dbl_of_nat_exact(1) units
      by (simp add: grid_outputs_def sample_chain_simps COINBASE_REWARD_def)
    show "funded sample_chain sample_sender"
      by (auto simp: funded_def txs credits_def mk_TxOut_def)
    show "(\<Sum>tx\<leftarrow>block_txs sample_chain. received sample_sender tx + spent sample_chain sample_sender tx) < 2 ^ (1074 + 53)"
      unfolding sum_list_addf flow using scaled_less [of 151] by simp
    show "\<forall>tx \<in> set (block_txs sample_chain). one_output sample_sender tx \<and> one_owner sample_chain sample_sender tx"
      by (simp add: txs one_output_def one_owner_def mk_TxOut_def)
  qed simp
  then show ?thesis unfolding flow by (simp flip: left_diff_distrib)
qed

text \<open>
  C36: \<open>FindTransaction\<close> is a sound and complete search. It returns nothing exactly if no
  transaction of the chain has the id; otherwise, when blocks stand at the positions their
  indices name, reading the chain at the returned position with \<open>txAt\<close> gives a transaction with
  the id, and no earlier transaction has it.
\<close>

theorem FindTransaction_correct:
  assumes "sized c" and "indexed c"
  shows "case FindTransaction c i of
      None \<Rightarrow> \<forall>b \<in> set (blocks c). \<forall>tx \<in> set (transactions b). tx_id tx \<noteq> i
    | Some (bi, ti) \<Rightarrow> \<exists>k tx. txAt c bi ti = Ok tx \<and> tx_id tx = i \<and> k < length (chain_txs c)
        \<and> snd (snd (chain_txs c ! k)) = tx
        \<and> (\<forall>j < k. tx_id (snd (snd (chain_txs c ! j))) \<noteq> i)"
proof (cases "find (\<lambda>(bi, n, tx). tx_id tx = i) (chain_txs c)")
  case None
  have "tx_id tx \<noteq> i" if b: "b \<in> set (blocks c)" and tx: "tx \<in> set (transactions b)" for b tx
  proof -
    obtain n where "n < length (transactions b)" and "tx = transactions b ! n"
      using tx by (metis in_set_conv_nth)
    then have "(n, tx) \<in> set (enumerate 0 (transactions b))" by (simp add: in_set_enumerate_eq)
    with b have "(index b, n, tx) \<in> set (chain_txs c)" by (force simp: chain_txs_def)
    with None show ?thesis by (auto simp: find_None_iff)
  qed
  with None show ?thesis by (simp add: FindTransaction_eq)
next
  case (Some e)
  obtain bi n tx where e: "e = (bi, n, tx)" by (cases e)
  from Some obtain k where "k < length (chain_txs c)" "chain_txs c ! k = e" "tx_id (snd (snd e)) = i"
      "\<forall>j < k. tx_id (snd (snd (chain_txs c ! j))) \<noteq> i"
    by (auto simp: find_Some_iff case_prod_unfold)
  then have k: "k < length (chain_txs c)" "chain_txs c ! k = e" "tx_id tx = i"
      "\<forall>j < k. tx_id (snd (snd (chain_txs c ! j))) \<noteq> i" using e by simp_all
  from k(1,2) have "e \<in> set (chain_txs c)" by auto
  then have "txAt c bi (of_nat n) = Ok tx" using txAt_chain_txs [OF assms] e by simp
  with k show ?thesis using Some e by (auto simp: FindTransaction_eq intro!: exI [of _ k])
qed

theorem FindTransaction_correct_witness:
  "(\<exists>bi ti tx. FindTransaction sample_chain ''t'' = Some (bi, ti) \<and> txAt sample_chain bi ti = Ok tx \<and> tx_id tx = ''t'')"
proof -
  have "indexed sample_chain" by (auto simp: indexed_def sample_chain_simps less_Suc_eq)
  from FindTransaction_correct [OF sample_chain_sized this, of "''t''"] show ?thesis
    by (auto simp: sample_chain_simps split: option.splits)
qed

text \<open>The JSON form of a ledger, as the REST service delivers it, can be read back without loss.\<close>

theorem AddressLedger_json_roundtrip:
  assumes "json_library J"
  shows "AddressLedger_from_json J (AddressLedger_to_json J ledger) = Ok ledger"
  by (rule json_library.AddressLedger_json [OF assms])

theorem AddressLedger_json_roundtrip_witness:
  "AddressLedger_from_json jval_lib (AddressLedger_to_json jval_lib
     [\<lparr>blockIdx = 1, txid = ''t'', li_time = 9, li_amount = Double 1\<rparr>])
   = Ok [\<lparr>blockIdx = 1, txid = ''t'', li_time = 9, li_amount = Double 1\<rparr>]"
  by (rule AddressLedger_json_roundtrip [OF json_library_jval])

end
