(* ===== verification/Ash_Node.thy ===== *)
theory Ash_Node
  imports Ash_Database Ash_Miner Ash_Ledger
begin

section \<open>The node: mining, messages and synchronisation\<close>

text \<open>
  The class \<^verbatim>\<open>MinerApp\<close> of \<^verbatim>\<open>src/src/MinerApp.cpp\<close> without its web pages: the start with the
  genesis block, the rounds of the mining thread, the handlers of the messages that nodes
  exchange and the adoption of a chain received from a peer, with the message layer of
  \<^verbatim>\<open>ConnectionProxy\<close> in \<^verbatim>\<open>src/src/PeerManager.h\<close>.

  A handler returns the texts it sends and the new state. The settings the handlers read, the clock and
  what other threads do during the search for a nonce are arguments. Log output is left out.

  The database is used through the contract \<open>chain_store\<close>: the main invariant is that what a
  restart would load is the chain in memory.
\<close>

subsection \<open>Messages\<close>

text \<open>The text \<^verbatim>\<open>ConnectionProxy::sendMessage\<close> sends.\<close>

definition sendMessage :: "('j, 'b) json_wire_scheme \<Rightarrow> string \<Rightarrow> string \<Rightarrow> string \<Rightarrow> string result" where
  "sendMessage W msg msgtype payload =
     rbind (if payload \<noteq> []
            then (case j_parse W payload of None \<Rightarrow> Err JsonParseError | Some j \<Rightarrow> Ok j)
            else Ok (j_null W)) (\<lambda>json.
       let json = j_set W json ''message'' (j_of_string W msg);
           json = j_set W json ''message-type'' (j_of_string W msgtype)
       in Ok (j_dump W json))"

definition sendRequest :: "('j, 'b) json_wire_scheme \<Rightarrow> string \<Rightarrow> string result" where
  "sendRequest W msg = sendMessage W msg ''request'' []"

text \<open>\<^verbatim>\<open>sendRequestFmt\<close> with the text the format string produces.\<close>

definition sendRequestFmt :: "('j, 'b) json_wire_scheme \<Rightarrow> string \<Rightarrow> string \<Rightarrow> string result" where
  "sendRequestFmt W msg formatted = sendMessage W msg ''request'' formatted"

definition sendResponse :: "('j, 'b) json_wire_scheme \<Rightarrow> string \<Rightarrow> string \<Rightarrow> string result" where
  "sendResponse W msg payload = sendMessage W msg ''response'' payload"

definition sendError :: "('j, 'b) json_wire_scheme \<Rightarrow> string \<Rightarrow> string result" where
  "sendError W msg = sendMessage W msg ''error'' []"

text \<open>
  The other overloads: the one of \<^verbatim>\<open>sendRequest\<close> with a payload does not use it, \<^verbatim>\<open>sendErrorFmt\<close> formats the message itself.
\<close>

definition sendRequest_data :: "('j, 'b) json_wire_scheme \<Rightarrow> string \<Rightarrow> string \<Rightarrow> string result" where
  "sendRequest_data W msg payload = sendMessage W msg ''request'' []"

definition sendResponse_plain :: "('j, 'b) json_wire_scheme \<Rightarrow> string \<Rightarrow> string result" where
  "sendResponse_plain W msg = sendMessage W msg ''response'' []"

definition sendResponseFmt :: "('j, 'b) json_wire_scheme \<Rightarrow> string \<Rightarrow> string \<Rightarrow> string result" where
  "sendResponseFmt W msg formatted = sendMessage W msg ''response'' formatted"

definition sendErrorFmt :: "('j, 'b) json_wire_scheme \<Rightarrow> string \<Rightarrow> string result" where
  "sendErrorFmt W formatted = sendMessage W formatted ''error'' []"

text \<open>The payload of a request that is sent with the second overload of \<^verbatim>\<open>sendRequest\<close> is lost.\<close>

theorem sendRequest_data_lost: "sendRequest_data W msg payload = sendRequest W msg"
  by (simp add: sendRequest_data_def sendRequest_def)

text \<open>The payloads of the requests for a range of blocks.\<close>

definition range_payload :: "u64 \<Rightarrow> u64 \<Rightarrow> string" where
  "range_payload startIdx stopIdx =
     ''{ '' @ [CHR 0x22] @ ''id1'' @ [CHR 0x22] @ '':'' @ show_u64 startIdx @ '','' @ [CHR 0x22] @ ''id2'' @ [CHR 0x22]
     @ '':'' @ show_u64 stopIdx @ '' }''"

definition gap_payload :: "u64 \<Rightarrow> u64 \<Rightarrow> string" where
  "gap_payload startIdx stopIdx =
     ''{ '' @ [CHR 0x22] @ ''message'' @ [CHR 0x22] @ '':'' @ [CHR 0x22] @ ''chain'' @ [CHR 0x22] @ '',''
     @ [CHR 0x22] @ ''id1'' @ [CHR 0x22] @ '':'' @ show_u64 startIdx @ '','' @ [CHR 0x22] @ ''id2'' @ [CHR 0x22]
     @ '':'' @ show_u64 stopIdx @ '' }''"

subsection \<open>State\<close>

record MinerApp =
  uuid :: string
  rewardAddress :: string
  database :: ChainDatabase
  blockchain :: Blockchain
  tempchain :: "Blockchain option"
  app_done :: bool
  miningDone :: bool
  app_miner :: Miner

definition stopMining :: "MinerApp \<Rightarrow> MinerApp" where
  "stopMining s = s\<lparr>miningDone := True\<rparr>"

definition signalExit :: "MinerApp \<Rightarrow> MinerApp" where
  "signalExit s = (stopMining s)\<lparr>app_done := True\<rparr>"

subsection \<open>Adopting a received chain\<close>

text \<open>The two loops of \<^verbatim>\<open>syncBlockchain\<close> over the received blocks.\<close>

definition sync_extend ::
  "cryptopp \<Rightarrow> ('j, 'b) json_lib_scheme \<Rightarrow> Block list \<Rightarrow> Blockchain \<Rightarrow> Blockchain result" where
  "sync_extend cp J bs c = rfold (\<lambda>b c. rbind (addNewBlock cp J b c) (\<lambda>(added, c'). Ok c')) bs c"

definition sync_append ::
  "cryptopp \<Rightarrow> ('j, 'b) json_lib_scheme \<Rightarrow> Block list \<Rightarrow> Blockchain \<times> ChainDatabase
   \<Rightarrow> (Blockchain \<times> ChainDatabase) result" where
  "sync_append cp J bs cd =
     rfold (\<lambda>b (c, db). rbind (addNewBlock cp J b c) (\<lambda>(added, c').
              Ok (c', if added then db_write b db else db))) bs cd"

definition syncBlockchain ::
  "cryptopp \<Rightarrow> ('j, 'b) json_lib_scheme \<Rightarrow> MinerApp \<Rightarrow> (bool \<times> MinerApp) result" where
  "syncBlockchain cp J s =
     (case tempchain s of
        None \<Rightarrow> Ok (False, s)
      | Some temp \<Rightarrow>
          rbind (chain_front temp) (\<lambda>tfront.
          if index tfront = 0
          then Ok (True, s\<lparr>blockchain := temp, database := db_writeChain temp (db_reset (database s)),
                           tempchain := None\<rparr>)
          else rbind (chain_back (blockchain s)) (\<lambda>lback.
          if index tfront \<le> index lback
          then rbind (sync_extend cp J (blocks temp) (chain_resize (index tfront) (blockchain s))) (\<lambda>c.
                 Ok (True, s\<lparr>blockchain := c, database := db_writeChain c (db_reset (database s)),
                             tempchain := None\<rparr>))
          else if index tfront = index lback + 1
          then rbind (sync_append cp J (blocks temp) (blockchain s, database s)) (\<lambda>(c, db).
                 Ok (True, s\<lparr>blockchain := c, database := db, tempchain := None\<rparr>))
          else Ok (False, s\<lparr>tempchain := None\<rparr>))))"

subsection \<open>Announcing a block\<close>

definition broadcastNewBlock :: "('j, 'b) json_lib_scheme \<Rightarrow> MinerApp \<Rightarrow> string result" where
  "broadcastNewBlock J s =
     rbind (chain_back (blockchain s)) (\<lambda>b.
     rbind (cumDifficulty (blockchain s)) (\<lambda>cum.
       Ok (j_dump J (set_all J [(''message'', j_of_string J ''newblock''),
                                (''message-type'', j_of_string J ''request''),
                                (''block'', Block_to_json J b), (''cumdiff'', j_of_u64 J cum)]))))"

subsection \<open>Rounds of the mining thread\<close>

definition keepMiningCallback :: "MinerApp \<Rightarrow> u64 \<Rightarrow> bool result" where
  "keepMiningCallback s idx =
     (case tempchain s of
        None \<Rightarrow> Ok True
      | Some temp \<Rightarrow> if chain_size temp = 0 then Ok True
                     else rbind (chain_back temp) (\<lambda>b. Ok (index b < idx)))"

text \<open>The start of a round, under the lock: the difficulty is adjusted and the block built.\<close>

definition mine_begin ::
  "cryptopp \<Rightarrow> ('j, 'b) json_lib_scheme \<Rightarrow> bool \<Rightarrow> BlockTime \<Rightarrow> MinerApp \<Rightarrow> (Block \<times> MinerApp) result" where
  "mine_begin cp J release now s =
     rbind (getAdjustedDifficulty release (blockchain s)) (\<lambda>newDifficulty.
       let s = s\<lparr>app_miner := setDifficulty newDifficulty (app_miner s)\<rparr>
       in rbind (createUnminedBlock cp J now (rewardAddress s) (blockchain s)) (\<lambda>(newblock, c).
          let newblock = setMiner (uuid s) newblock;
              newblock = setData (''coinbase block #'' @ show_u64 (index newblock)) newblock
          in Ok (newblock, s\<lparr>blockchain := c\<rparr>)))"

text \<open>The end of a round, with the outcome of the search and the block it was run on.\<close>

definition mine_end ::
  "cryptopp \<Rightarrow> ('j, 'b) json_lib_scheme \<Rightarrow> ResultType \<Rightarrow> Block \<Rightarrow> MinerApp \<Rightarrow> (string list \<times> MinerApp) result" where
  "mine_end cp J r newblock s =
     (if r \<noteq> MINE_SUCCESS
      then rbind (reQueueTransactions newblock (blockchain s)) (\<lambda>(count, c).
           rbind (syncBlockchain cp J (s\<lparr>blockchain := c\<rparr>)) (\<lambda>(synced, s). Ok ([], s)))
      else rbind (addNewBlock cp J newblock (blockchain s)) (\<lambda>(added, c).
           if \<not> added then Ok ([], s\<lparr>miningDone := True\<rparr>)
           else let s = s\<lparr>blockchain := c, database := db_write newblock (database s)\<rparr>
                in rbind (syncBlockchain cp J s) (\<lambda>(synced, s).
                   if synced then Ok ([], s)
                   else rbind (broadcastNewBlock J s) (\<lambda>msg. Ok ([msg], s)))))"

text \<open>
  One iteration of \<^verbatim>\<open>runMineThread\<close> when no other thread touches the chain during the search;
  nothing when the search does not return.
\<close>

definition mine_iteration ::
  "cryptopp \<Rightarrow> ('j, 'b) json_lib_scheme \<Rightarrow> bool \<Rightarrow> BlockTime \<Rightarrow> mine_env \<Rightarrow> MinerApp
   \<Rightarrow> (string list \<times> MinerApp) result option" where
  "mine_iteration cp J release now env s =
     (if miningDone s \<or> app_done s then Some (Ok ([], s))
      else case mine_begin cp J release now s of
             Inl e \<Rightarrow> Some (Err e)
           | Inr (newblock, s) \<Rightarrow>
               (case mineBlock cp J (app_miner s) env newblock of
                  None \<Rightarrow> None
                | Some (Inl e) \<Rightarrow> Some (Err e)
                | Some (Inr (r, newblock)) \<Rightarrow> Some (mine_end cp J r newblock s)))"

subsection \<open>Handling requests\<close>

text \<open>The part of the chain that a request for the blocks from \<open>id1\<close> to \<open>id2\<close> is answered with.\<close>

definition chain_slice :: "u64 \<Rightarrow> u64 \<Rightarrow> Block list \<Rightarrow> Block list" where
  "chain_slice id1 id2 bs = takeWhile (\<lambda>b. index b \<le> id2) (dropWhile (\<lambda>b. index b \<noteq> id1) bs)"

definition jerror :: "('j, 'b) json_lib_scheme \<Rightarrow> string \<Rightarrow> 'j" where
  "jerror J msg = set_all J [(''error'', j_of_string J msg)]"

definition chain_response :: "('j, 'b) json_lib_scheme \<Rightarrow> Blockchain \<Rightarrow> 'j \<Rightarrow> 'j result" where
  "chain_response J c json =
     (if \<not> j_contains J json ''id1'' \<and> \<not> j_contains J json ''id2''
      then Ok (set_all J [(''blocks'', Blockchain_to_json J c)])
      else rbind (j_at J json ''id1'') (\<lambda>v1.
      if \<not> j_is_number J v1 then Ok (jerror J ''invalid 'id1' value'')
      else rbind (j_at J json ''id2'') (\<lambda>v2.
      if \<not> j_is_number J v2 then Ok (jerror J ''invalid 'id2' value'')
      else rbind (j_get_u64 J v1) (\<lambda>id1.
      rbind (j_get_u64 J v2) (\<lambda>id2.
        if dropWhile (\<lambda>b. index b \<noteq> id1) (blocks c) = [] then Ok (jerror J ''could not find id1 in chain'')
        else let bs = chain_slice id1 id2 (blocks c)
             in Ok (if bs = [] then j_null J
                    else set_all J [(''blocks'', push_all J (Block_to_json J) bs)])))))) "

definition dispatchRequest ::
  "('j, 'b) json_wire_scheme \<Rightarrow> MinerApp \<Rightarrow> 'j \<Rightarrow> string list result" where
  "dispatchRequest W s json =
     (let c = blockchain s;
          respond = (\<lambda>message j. rbind (sendResponse W message (j_dump W j)) (\<lambda>t. Ok [t]))
      in rbind (at_get W (j_get_string W) json ''message'') (\<lambda>message.
      if message = ''summary''
      then rbind (chain_front c) (\<lambda>f.
           rbind (chain_back c) (\<lambda>l.
           rbind (cumDifficulty c) (\<lambda>cum.
             respond message (set_all W [(''blocks'', push_all W (Block_to_json W) [f, l]),
                                         (''cumdiff'', j_of_u64 W cum)]))))
      else if message = ''chain''
      then rbind (chain_response W c json) (respond message)
      else if message = ''newblock''
      then rbind (at_get W (Block_from_json W) json ''block'') (\<lambda>newblock.
           rbind (at_get W (j_get_u64 W) json ''cumdiff'') (\<lambda>remote_cumdiff.
           rbind (cumDifficulty c) (\<lambda>local_cumdiff.
           rbind (if remote_cumdiff > local_cumdiff then Ok True
                  else if remote_cumdiff = local_cumdiff
                  then rbind (chain_back c) (\<lambda>l. Ok (index newblock > index l)) else Ok False) (\<lambda>ahead.
             if ahead then rbind (sendRequest W ''summary'') (\<lambda>t. Ok [t])
             else respond message (j_null W)))))
      else if message = ''createtx''
      then if \<not> j_contains W json ''privatekey'' \<or> \<not> j_contains W json ''toaddress''
              \<or> \<not> j_contains W json ''amount''
           then respond message (jerror W ''invalid transaction'')
           else rbind (at_get W (j_get_string W) json ''privatekey'') (\<lambda>_.
                rbind (at_get W (j_get_string W) json ''toaddress'') (\<lambda>_.
                rbind (at_get W (j_get_double W) json ''amount'') (\<lambda>_.
                  respond message (j_null W))))
      else Ok []))"

subsection \<open>Handling responses\<close>

definition handleChainResponse ::
  "('j, 'b) json_wire_scheme \<Rightarrow> Blockchain \<Rightarrow> MinerApp \<Rightarrow> (string list \<times> MinerApp) result" where
  "handleChainResponse W temp s =
     rbind (chain_front temp) (\<lambda>tfront.
     if index tfront = 0 then Ok ([], s\<lparr>tempchain := Some temp\<rparr>)
     else rbind (chain_back (blockchain s)) (\<lambda>lback.
     rbind (chain_back temp) (\<lambda>tback.
     if index tfront > index lback + 1
     then rbind (sendRequestFmt W ''chain'' (gap_payload (index lback + 1) (index tback))) (\<lambda>t. Ok ([t], s))
     else let tempStartIdx = index tfront - 1
          in rbind (massert (tempStartIdx < chain_size (blockchain s) \<and> tempStartIdx > 0)) (\<lambda>_.
             rbind (chain_at (blockchain s) tempStartIdx) (\<lambda>b.
             if previousHash tfront = hash b
             then Ok ([], s\<lparr>tempchain := Some temp\<rparr>)
             else rbind (sendRequestFmt W ''chain'' (range_payload (index tfront - 1) (index tback)))
                    (\<lambda>t. Ok ([t], s)))))))"

text \<open>\<open>reset_enable\<close> is the setting \<^verbatim>\<open>chain.reset.enable\<close>.\<close>

definition summary_response ::
  "('j, 'b) json_wire_scheme \<Rightarrow> bool \<Rightarrow> 'j list \<Rightarrow> 'j \<Rightarrow> MinerApp \<Rightarrow> string list result" where
  "summary_response W reset_enable items json s =
     rbind (Block_from_json W (items ! 0)) (\<lambda>remote_gen.
     rbind (Block_from_json W (items ! 1)) (\<lambda>remote_last.
     rbind (cumDifficulty (blockchain s)) (\<lambda>local_cumdiff.
     rbind (at_get W (j_get_u64 W) json ''cumdiff'') (\<lambda>remote_cumdiff.
       let view = (case tempchain s of Some temp \<Rightarrow> temp | None \<Rightarrow> blockchain s)
       in rbind (chain_front view) (\<lambda>genesis.
          rbind (chain_back view) (\<lambda>lastblock.
            if \<not> Block_eq genesis remote_gen
            then if reset_enable then rbind (sendRequest W ''chain'') (\<lambda>t. Ok [t]) else Ok []
            else if local_cumdiff < remote_cumdiff
            then rbind (sendRequestFmt W ''chain'' (range_payload (index lastblock + 1) (index remote_last)))
                   (\<lambda>t. Ok [t])
            else Ok []))))))"

text \<open>The end of \<^verbatim>\<open>handleResponse\<close>: an idle node adopts what was received at once.\<close>

definition sync_if_idle ::
  "cryptopp \<Rightarrow> ('j, 'b) json_lib_scheme \<Rightarrow> string list \<times> MinerApp \<Rightarrow> (string list \<times> MinerApp) result" where
  "sync_if_idle cp J ts = (case ts of (ts, s) \<Rightarrow>
     if miningDone s then rbind (syncBlockchain cp J s) (\<lambda>(synced, s). Ok (ts, s)) else Ok (ts, s))"

definition handleResponse ::
  "cryptopp \<Rightarrow> ('j, 'b) json_wire_scheme \<Rightarrow> bool \<Rightarrow> 'j \<Rightarrow> MinerApp \<Rightarrow> (string list \<times> MinerApp) result" where
  "handleResponse cp W reset_enable json s =
     rbind (at_get W (j_get_string W) json ''message'') (\<lambda>message.
     if message = ''summary''
     then if \<not> j_contains W json ''blocks'' then Ok ([], s)
          else rbind (j_at W json ''blocks'') (\<lambda>jblocks.
          if j_type W jblocks \<noteq> JT_array \<or> length (j_items W jblocks) \<noteq> 2 \<or> \<not> j_contains W json ''cumdiff''
          then Ok ([], s)
          else rbind (summary_response W reset_enable (j_items W jblocks) json s) (\<lambda>ts.
               sync_if_idle cp W (ts, s)))
     else if message = ''chain''
     then rbind (at_get W (\<lambda>j. Blockchain_from_json W j empty_Blockchain) json ''blocks'') (\<lambda>temp.
          if chain_size temp = 0 then Ok ([], s)
          else rbind (isValidChain cp W temp) (\<lambda>valid.
          if \<not> valid then Ok ([], s)
          else rbind (handleChainResponse W temp s) (sync_if_idle cp W)))
     else sync_if_idle cp W ([], s))"

text \<open>An error that a peer reports is only logged.\<close>

definition handleError :: "('j, 'b) json_lib_scheme \<Rightarrow> 'j \<Rightarrow> MinerApp \<Rightarrow> (string list \<times> MinerApp) result" where
  "handleError J json s = rbind (at_get J (j_get_string J) json ''message'') (\<lambda>_. Ok ([], s))"

text \<open>The handler of a text received on the chain endpoint.\<close>

definition onChainMessage ::
  "cryptopp \<Rightarrow> ('j, 'b) json_wire_scheme \<Rightarrow> bool \<Rightarrow> string \<Rightarrow> MinerApp \<Rightarrow> (string list \<times> MinerApp) result" where
  "onChainMessage cp W reset_enable rawmsg s =
     (let malformed = rbind (sendError W ''the recieved message was malformed'') (\<lambda>t. Ok ([t], s))
      in case j_parse W rawmsg of
           None \<Rightarrow> malformed
         | Some json \<Rightarrow>
             if \<not> j_contains W json ''message'' \<or> \<not> j_contains W json ''message-type'' then malformed
             else rbind (at_get W (j_get_string W) json ''message'') (\<lambda>_.
                  rbind (at_get W (j_get_string W) json ''message-type'') (\<lambda>msgtype.
                    if msgtype = ''request'' then rbind (dispatchRequest W s json) (\<lambda>ts. Ok (ts, s))
                    else if msgtype = ''response'' then handleResponse cp W reset_enable json s
                    else if msgtype = ''error'' then handleError W json s
                    else rbind (sendErrorFmt W (''the received message-type was unknown '' @ [CHR 0x27] @ msgtype @ [CHR 0x27]))
                           (\<lambda>t. Ok ([t], s)))))"

subsection \<open>Start\<close>

text \<open>\<open>gendata\<close> is the text with the local time that the genesis block carries.\<close>

definition genesisBlock ::
  "cryptopp \<Rightarrow> ('j, 'b) json_lib_scheme \<Rightarrow> BlockTime \<Rightarrow> string \<Rightarrow> MinerApp \<Rightarrow> Block" where
  "genesisBlock cp J now gendata s =
     (let gen = new_Block cp J now 0 [] [CreateCoinbaseTransaction cp 0 (rewardAddress s)];
          gen = setMiner (uuid s) gen
      in setData gendata gen)"

text \<open>
  \<^verbatim>\<open>run\<close> up to the waiting loop: nothing without a reward address, and otherwise the node with its
  chain loaded, mining or not.
\<close>

definition app_run ::
  "cryptopp \<Rightarrow> ('j, 'b) json_lib_scheme \<Rightarrow> string \<Rightarrow> bool \<Rightarrow> BlockTime \<Rightarrow> string \<Rightarrow> string option \<Rightarrow> MinerApp
   \<Rightarrow> MinerApp option result" where
  "app_run cp J miner_address autostart now gendata index_status s =
     (let s = s\<lparr>rewardAddress := miner_address\<rparr>
      in if miner_address = [] \<or> miner_address = ''<CHANGE ME>'' then Ok None
         else rbind (db_initialize cp J (genesisBlock cp J now gendata s) index_status (blockchain s) (database s))
           (\<lambda>(c, db). Ok (Some (s\<lparr>blockchain := c, database := db, miningDone := miningDone s \<or> \<not> autostart\<rparr>))))"

subsection \<open>The loops over received blocks\<close>

text \<open>
  What is added is a part of what was received; and when the received blocks have valid hashes
  and continue the chain, all of them are added.
\<close>

definition extension :: "cryptopp \<Rightarrow> ('j, 'b) json_lib_scheme \<Rightarrow> Block \<Rightarrow> Block list \<Rightarrow> bool" where
  "extension cp J lst bs \<longleftrightarrow> chain_linked cp J (lst # bs) \<and> (\<forall>b \<in> set bs. ValidHash cp J b)"

lemma extension_simps [simp]:
  "extension cp J lst []"
  "extension cp J lst (b # bs) \<longleftrightarrow> linked cp J lst b \<and> ValidHash cp J b \<and> extension cp J b bs"
  by (auto simp: extension_def)

text \<open>Which of the blocks are added after a block with the given hash.\<close>

fun accepted :: "cryptopp \<Rightarrow> ('j, 'b) json_lib_scheme \<Rightarrow> string \<Rightarrow> Block list \<Rightarrow> Block list" where
  "accepted cp J h [] = []"
| "accepted cp J h (b # bs) =
     (if ValidHash cp J b \<and> previousHash b = h then b # accepted cp J (hash b) bs else accepted cp J h bs)"

lemma accepted_none:
  "chain_linked cp J (x # bs) \<Longrightarrow> h \<notin> hash ` set (x # bs) \<Longrightarrow> accepted cp J h bs = []"
  by (induction bs arbitrary: x) (auto simp: linked_def)

text \<open>
  When the received blocks continue the block and no two of them have the same hash, these are the blocks before the
  first one without proof of work.
\<close>

lemma accepted_prefix:
  "chain_linked cp J (lst # bs) \<Longrightarrow> distinct (map hash (lst # bs)) \<Longrightarrow> accepted cp J (hash lst) bs = takeWhile (ValidHash cp J) bs"
proof (induction bs arbitrary: lst)
  case (Cons b bs)
  then show ?case using accepted_none [of cp J b bs "hash lst"] by (auto simp: linked_def)
qed simp

lemma sync_append_result:
  assumes "blocks c \<noteq> []"
  shows "\<exists>bs'. set bs' \<subseteq> set bs \<and> bs' = accepted cp J (hash (last (blocks c))) bs
    \<and> sync_append cp J bs (c, db) = Ok (c\<lparr>blocks := blocks c @ bs'\<rparr>, fold db_write bs' db)
    \<and> sync_extend cp J bs c = Ok (c\<lparr>blocks := blocks c @ bs'\<rparr>)
    \<and> (extension cp J (last (blocks c)) bs \<longrightarrow> bs' = bs)"
  using assms
proof (induction bs arbitrary: c db)
  case Nil
  show ?case by (simp add: sync_append_def sync_extend_def)
next
  case (Cons b bs)
  define ok where "ok = (ValidHash cp J b \<and> previousHash b = hash (last (blocks c)))"
  define c1 where "c1 = (if ok then c\<lparr>blocks := blocks c @ [b]\<rparr> else c)"
  define db1 where "db1 = (if ok then db_write b db else db)"
  have "blocks c1 \<noteq> []" using Cons.prems by (simp add: c1_def)
  from Cons.IH [OF this, of db1] obtain bs1 where bs1: "set bs1 \<subseteq> set bs" "bs1 = accepted cp J (hash (last (blocks c1))) bs"
    "sync_append cp J bs (c1, db1) = Ok (c1\<lparr>blocks := blocks c1 @ bs1\<rparr>, fold db_write bs1 db1)"
    "sync_extend cp J bs c1 = Ok (c1\<lparr>blocks := blocks c1 @ bs1\<rparr>)"
    "extension cp J (last (blocks c1)) bs \<longrightarrow> bs1 = bs" by blast
  have "addNewBlock cp J b c = Ok (ok, c1)"
    using Cons.prems by (simp add: addNewBlock_eq ok_def c1_def)
  then have "sync_append cp J (b # bs) (c, db) = sync_append cp J bs (c1, db1)"
    and "sync_extend cp J (b # bs) c = sync_extend cp J bs c1"
    by (simp_all add: sync_append_def sync_extend_def db1_def)
  with bs1 show ?case
    by (intro exI [of _ "(if ok then [b] else []) @ bs1"])
      (auto simp: c1_def db1_def ok_def linked_def)
qed

lemma stored_fold_write:
  assumes "db_stored db = Ok xs" and "list_all block_storable bs"
  shows "db_stored (fold db_write bs db) = Ok (xs @ bs)"
  using assms by (induction bs arbitrary: db xs) (auto dest: store.stored_write)

subsection \<open>Invariants\<close>

text \<open>The database holds the chain: what a restart would load is what is in memory.\<close>

definition in_step :: "MinerApp \<Rightarrow> bool" where
  "in_step s \<longleftrightarrow> blocks (blockchain s) \<noteq> [] \<and> list_all block_storable (blocks (blockchain s))
     \<and> db_stored (database s) = Ok (blocks (blockchain s))"

text \<open>A cached chain is not empty and can be stored.\<close>

definition temp_ok :: "MinerApp \<Rightarrow> bool" where
  "temp_ok s \<longleftrightarrow> (case tempchain s of None \<Rightarrow> True
     | Some temp \<Rightarrow> blocks temp \<noteq> [] \<and> list_all block_storable (blocks temp))"

text \<open>The chain starts at index 0 and is linked.\<close>

definition chain_ok :: "cryptopp \<Rightarrow> ('j, 'b) json_lib_scheme \<Rightarrow> Blockchain \<Rightarrow> bool" where
  "chain_ok cp J c \<longleftrightarrow> blocks c \<noteq> [] \<and> index (hd (blocks c)) = 0 \<and> chain_linked cp J (blocks c)
     \<and> length (blocks c) < 2 ^ 32"

lemma chain_ok_index:
  assumes "chain_ok cp J c" and "i < length (blocks c)"
  shows "index (blocks c ! i) = of_nat i"
  using assms chain_linked_index [of cp J "blocks c" i] by (simp add: chain_ok_def)

lemma chain_ok_last:
  assumes "chain_ok cp J c"
  shows "index (last (blocks c)) = of_nat (length (blocks c) - 1)"
    and "unat (index (last (blocks c))) = length (blocks c) - 1"
    and "unat (index (last (blocks c)) + 1) = length (blocks c)"
proof -
  have ne: "blocks c \<noteq> []" and len: "length (blocks c) < 2 ^ 32" using assms by (simp_all add: chain_ok_def)
  then show idx: "index (last (blocks c)) = of_nat (length (blocks c) - 1)"
    using chain_ok_index [OF assms, of "length (blocks c) - 1"] by (simp add: last_conv_nth)
  then show "unat (index (last (blocks c))) = length (blocks c) - 1"
    using len unat_of_nat64 [of "length (blocks c) - 1"] by simp
  have "index (last (blocks c)) + 1 = of_nat (length (blocks c))"
    unfolding idx using ne by (cases "blocks c") simp_all
  then show "unat (index (last (blocks c)) + 1) = length (blocks c)"
    using len unat_of_nat64 [of "length (blocks c)"] by simp
qed

lemma chain_resize_take:
  assumes "unat n \<le> length (blocks c)"
  shows "chain_resize n c = c\<lparr>blocks := take (unat n) (blocks c)\<rparr>"
  using assms by (simp add: chain_resize_def)

text \<open>The blocks after a synchronisation with \<open>temp\<close>, when the received blocks are good.\<close>

definition adopted :: "Block list \<Rightarrow> Block list \<Rightarrow> Block list" where
  "adopted local temp = (if unat (index (hd temp)) \<le> length local
     then take (unat (index (hd temp))) local @ temp else local)"

lemma adopted_linked:
  assumes "chain_linked cp J local" and "chain_linked cp J temp" and "temp \<noteq> []"
    and "0 < unat (index (hd temp))"
    and "unat (index (hd temp)) \<le> length local \<Longrightarrow> linked cp J (local ! (unat (index (hd temp)) - 1)) (hd temp)"
  shows "chain_linked cp J (adopted local temp)"
proof (cases "unat (index (hd temp)) \<le> length local")
  case True
  let ?n = "unat (index (hd temp))"
  have ne: "take ?n local \<noteq> []" using True assms(4) by auto
  have "last (take ?n local) = local ! (?n - 1)" using True assms(4) by (intro last_take_nth) auto
  then show ?thesis
    using True assms chain_linked_take [OF assms(1)] by (simp add: adopted_def chain_linked_append [OF ne])
qed (simp add: adopted_def assms(1))

lemma syncBlockchain_eq:
  assumes ok: "chain_ok cp J (blockchain s)" and temp: "tempchain s = Some temp" "blocks temp \<noteq> []"
  defines "n \<equiv> unat (index (hd (blocks temp)))"
  shows "if n = 0
    then syncBlockchain cp J s = Ok (True, s\<lparr>blockchain := temp,
           database := db_writeChain temp (db_reset (database s)), tempchain := None\<rparr>)
    else if n < length (blocks (blockchain s))
    then \<exists>bs. set bs \<subseteq> set (blocks temp) \<and> bs = accepted cp J (hash (blocks (blockchain s) ! (n - 1))) (blocks temp)
       \<and> (extension cp J (blocks (blockchain s) ! (n - 1)) (blocks temp) \<longrightarrow> bs = blocks temp)
       \<and> (let c = (blockchain s)\<lparr>blocks := take n (blocks (blockchain s)) @ bs\<rparr>
          in syncBlockchain cp J s = Ok (True, s\<lparr>blockchain := c,
               database := db_writeChain c (db_reset (database s)), tempchain := None\<rparr>))
    else if n = length (blocks (blockchain s))
    then \<exists>bs. set bs \<subseteq> set (blocks temp) \<and> bs = accepted cp J (hash (blocks (blockchain s) ! (n - 1))) (blocks temp)
       \<and> (extension cp J (blocks (blockchain s) ! (n - 1)) (blocks temp) \<longrightarrow> bs = blocks temp)
       \<and> syncBlockchain cp J s = Ok (True, s\<lparr>
            blockchain := (blockchain s)\<lparr>blocks := blocks (blockchain s) @ bs\<rparr>,
            database := fold db_write bs (database s), tempchain := None\<rparr>)
    else syncBlockchain cp J s = Ok (False, s\<lparr>tempchain := None\<rparr>)"
proof -
  let ?c = "blockchain s"
  have ne: "blocks ?c \<noteq> []" using ok by (simp add: chain_ok_def)
  have fr: "chain_front temp = Ok (hd (blocks temp))" "chain_back ?c = Ok (last (blocks ?c))"
    using temp ne by (simp_all add: chain_front_def vec_front_Ok_iff chain_back_def vec_back_Ok_iff)
  have "index (hd (blocks temp)) = 0 \<longleftrightarrow> n = 0"
    and "index (hd (blocks temp)) = index (last (blocks ?c)) + 1 \<longleftrightarrow> n = length (blocks ?c)"
    unfolding n_def word_unat_eq_iff chain_ok_last(3) [OF ok] by simp_all
  moreover have "index (hd (blocks temp)) \<le> index (last (blocks ?c)) \<longleftrightarrow> n < length (blocks ?c)"
    unfolding n_def word_le_nat_alt chain_ok_last(2) [OF ok] using ne by (cases "blocks ?c") auto
  ultimately have cmp: "index (hd (blocks temp)) = 0 \<longleftrightarrow> n = 0"
      "index (hd (blocks temp)) \<le> index (last (blocks ?c)) \<longleftrightarrow> n < length (blocks ?c)"
      "index (hd (blocks temp)) = index (last (blocks ?c)) + 1 \<longleftrightarrow> n = length (blocks ?c)" by blast+
  show ?thesis
  proof (cases "0 < n \<and> n \<le> length (blocks ?c)")
    case True
    have last: "last (take n (blocks ?c)) = blocks ?c ! (n - 1)" using True by (intro last_take_nth) auto
    have res: "chain_resize (index (hd (blocks temp))) ?c = ?c\<lparr>blocks := take n (blocks ?c)\<rparr>"
      using True by (simp add: chain_resize_take n_def)
    obtain bs where bs: "set bs \<subseteq> set (blocks temp)" "bs = accepted cp J (hash (blocks ?c ! (n - 1))) (blocks temp)"
      "sync_append cp J (blocks temp) (?c\<lparr>blocks := take n (blocks ?c)\<rparr>, database s)
        = Ok (?c\<lparr>blocks := take n (blocks ?c) @ bs\<rparr>, fold db_write bs (database s))"
      "sync_extend cp J (blocks temp) (?c\<lparr>blocks := take n (blocks ?c)\<rparr>)
        = Ok (?c\<lparr>blocks := take n (blocks ?c) @ bs\<rparr>)"
      "extension cp J (blocks ?c ! (n - 1)) (blocks temp) \<longrightarrow> bs = blocks temp"
      using sync_append_result [of "?c\<lparr>blocks := take n (blocks ?c)\<rparr>" "blocks temp" cp J "database s"] True ne last
      by auto
    show ?thesis
    proof (cases "n = length (blocks ?c)")
      case eq: True
      then have "?c\<lparr>blocks := take n (blocks ?c)\<rparr> = ?c" by simp
      with True eq bs fr cmp temp show ?thesis
        by (auto simp: syncBlockchain_def intro!: exI [of _ bs])
    next
      case False
      with True bs fr cmp temp res show ?thesis
        by (auto simp: syncBlockchain_def Let_def intro!: exI [of _ bs])
    qed
  next
    case False
    then consider "n = 0" | "n > length (blocks ?c)" by linarith
    then show ?thesis by cases (use fr cmp temp in \<open>auto simp: syncBlockchain_def\<close>)
  qed
qed

lemma sync_none: "tempchain s = None \<Longrightarrow> syncBlockchain cp J s = Ok (False, s)"
  by (simp add: syncBlockchain_def)

lemma list_all_subset: "list_all P xs \<Longrightarrow> set ys \<subseteq> set xs \<Longrightarrow> list_all P ys"
  by (auto simp: list_all_iff)

lemma sync_in_step:
  assumes ok: "chain_ok cp J (blockchain s)" and step: "in_step s" and temp: "temp_ok s"
  shows "\<exists>r s'. syncBlockchain cp J s = Ok (r, s') \<and> in_step s' \<and> tempchain s' = None
    \<and> (\<not> r \<longrightarrow> blockchain s' = blockchain s)"
proof (cases "tempchain s")
  case None
  with step show ?thesis by (auto simp: sync_none)
next
  case (Some t)
  let ?c = "blockchain s" and ?n = "unat (index (hd (blocks t)))"
  have t: "blocks t \<noteq> []" "list_all block_storable (blocks t)" using temp Some by (simp_all add: temp_ok_def)
  have c: "list_all block_storable (blocks ?c)" "blocks ?c \<noteq> []" "db_stored (database s) = Ok (blocks ?c)"
    using step by (simp_all add: in_step_def)
  note eq = syncBlockchain_eq [OF ok Some t(1)]
  have take: "list_all block_storable (take m (blocks ?c) @ bs)" if "set bs \<subseteq> set (blocks t)" for bs m
    using list_all_subset [OF t(2) that] list_all_subset [OF c(1), of "take m (blocks ?c)"] set_take_subset
    by fastforce
  consider "?n = 0" | "0 < ?n" "?n < length (blocks ?c)" | "?n = length (blocks ?c)" "0 < ?n"
    | "length (blocks ?c) < ?n" by linarith
  then show ?thesis
  proof cases
    case 1
    with eq t store.stored_rewrite [OF t(2), of "database s"] show ?thesis by (auto simp: in_step_def)
  next
    case 2
    then obtain bs where "set bs \<subseteq> set (blocks t)" and
      "syncBlockchain cp J s = Ok (True, s\<lparr>blockchain := ?c\<lparr>blocks := take ?n (blocks ?c) @ bs\<rparr>,
         database := db_writeChain (?c\<lparr>blocks := take ?n (blocks ?c) @ bs\<rparr>) (db_reset (database s)),
         tempchain := None\<rparr>)"
      using eq by (auto simp: Let_def)
    moreover note take [OF this(1), of ?n] store.stored_rewrite [of "?c\<lparr>blocks := take ?n (blocks ?c) @ bs\<rparr>"]
    ultimately show ?thesis using c(2) 2 by (auto simp: in_step_def)
  next
    case 3
    then obtain bs where bs: "set bs \<subseteq> set (blocks t)" and
      "syncBlockchain cp J s = Ok (True, s\<lparr>blockchain := ?c\<lparr>blocks := blocks ?c @ bs\<rparr>,
         database := fold db_write bs (database s), tempchain := None\<rparr>)"
      using eq by auto
    with stored_fold_write [OF c(3) list_all_subset [OF t(2) bs]] c list_all_subset [OF t(2) bs]
    show ?thesis by (auto simp: in_step_def)
  qed (use eq step in \<open>auto simp: in_step_def\<close>)
qed

lemma sync_adopts:
  assumes ok: "chain_ok cp J (blockchain s)" and temp: "tempchain s = Some t" "blocks t \<noteq> []" "chain_linked cp J (blocks t)"
    and good: "0 < unat (index (hd (blocks t))) \<Longrightarrow> unat (index (hd (blocks t))) \<le> length (blocks (blockchain s)) \<Longrightarrow>
      extension cp J (blocks (blockchain s) ! (unat (index (hd (blocks t))) - 1)) (blocks t)"
  shows "\<exists>s'. syncBlockchain cp J s = Ok (unat (index (hd (blocks t))) \<le> length (blocks (blockchain s)), s')
    \<and> blocks (blockchain s') = adopted (blocks (blockchain s)) (blocks t) \<and> tempchain s' = None
    \<and> chain_linked cp J (blocks (blockchain s')) \<and> index (hd (blocks (blockchain s'))) = 0"
proof -
  let ?c = "blockchain s" and ?n = "unat (index (hd (blocks t)))"
  have c: "blocks ?c \<noteq> []" "chain_linked cp J (blocks ?c)" "index (hd (blocks ?c)) = 0"
    using ok by (simp_all add: chain_ok_def)
  note eq = syncBlockchain_eq [OF ok temp(1,2)]
  have link: "chain_linked cp J (adopted (blocks ?c) (blocks t))"
  proof (cases "?n = 0")
    case True
    then show ?thesis using temp(3) by (simp add: adopted_def)
  next
    case False
    then show ?thesis
      using c(2) temp good by (intro adopted_linked) (auto simp: neq_Nil_conv extension_def)
  qed
  have hd: "index (hd (adopted (blocks ?c) (blocks t))) = 0"
    using c temp(2) by (cases "?n = 0") (auto simp: adopted_def hd_append hd_take simp flip: unat_eq_0)
  consider "?n = 0" | "0 < ?n" "?n < length (blocks ?c)" | "?n = length (blocks ?c)" "0 < ?n"
    | "length (blocks ?c) < ?n" by linarith
  then show ?thesis
    using eq good link hd by cases (auto simp: adopted_def Let_def)
qed

subsection \<open>Rounds of mining\<close>

lemma setters_keep [simp]:
  "index (setMiner v b) = index b" "index (setData d b) = index b"
  "previousHash (setMiner v b) = previousHash b" "previousHash (setData d b) = previousHash b"
  "transactions (setMiner v b) = transactions b" "transactions (setData d b) = transactions b"
  by (simp_all add: setMiner_def setData_def)

lemma mine_begin_eq:
  assumes "blocks (blockchain s) \<noteq> []" and "getAdjustedDifficulty release (blockchain s) = Ok d"
  shows "\<exists>nb. mine_begin cp J release now s = Ok (nb,
      s\<lparr>app_miner := setDifficulty d (app_miner s), blockchain := (blockchain s)\<lparr>txQueue := []\<rparr>\<rparr>)
    \<and> index nb = chain_size (blockchain s) \<and> previousHash nb = hash (last (blocks (blockchain s)))
    \<and> transactions nb = CreateCoinbaseTransaction cp (chain_size (blockchain s)) (rewardAddress s)
        # map (calcuateId cp (chain_size (blockchain s))) (txQueue (blockchain s))"
  using assms by (simp add: mine_begin_def createUnminedBlock_eq Let_def new_Block_def)

lemma cumDifficulty_returns:
  assumes "blocks c \<noteq> []" and "\<forall>b \<in> set (butlast (blocks c)). unat (difficulty b) < 64"
    and "length (blocks c) < 2 ^ 64"
  shows "\<exists>w. cumDifficulty c = Ok w"
proof -
  have "\<exists>w. rfold (\<lambda>b total. rbind (pow2_u64 (difficulty b)) (\<lambda>p. Ok (total + p))) bs t = Ok w"
    if "\<forall>b \<in> set bs. unat (difficulty b) < 64" for bs t
    using that by (induction bs arbitrary: t) (simp_all add: pow2_u64_def)
  moreover have "unat (chain_size c - 1) = length (blocks c) - 1"
    using assms(1,3) unat_of_nat64_minus [of 1 "length (blocks c)"]
    by (cases "blocks c") (simp_all add: chain_size_def vec_size_def)
  ultimately show ?thesis using assms(2) by (simp add: cumDifficulty_def cumDifficulty_to_def butlast_conv_take)
qed

text \<open>A mined block continues the chain it was built on.\<close>

lemma mined_extends:
  assumes ok: "chain_ok cp J c" and b: "index b = chain_size c" "previousHash b = hash (last (blocks c))" "ValidHash cp J b"
  shows "addNewBlock cp J b c = Ok (True, c\<lparr>blocks := blocks c @ [b]\<rparr>)"
    and "chain_linked cp J (blocks c @ [b])"
proof -
  have ne: "blocks c \<noteq> []" and lk: "chain_linked cp J (blocks c)" using ok by (simp_all add: chain_ok_def)
  show "addNewBlock cp J b c = Ok (True, c\<lparr>blocks := blocks c @ [b]\<rparr>)"
    using ne b by (simp add: addNewBlock_eq)
  have "index b = index (last (blocks c)) + 1"
    unfolding b(1) chain_ok_last(1) [OF ok] chain_size_def vec_size_def using ne by (cases "blocks c") simp_all
  then show "chain_linked cp J (blocks c @ [b])"
    using ne lk b by (simp add: chain_linked_snoc linked_def ValidHash_iff)
qed

lemma chain_size_pos:
  assumes "chain_ok cp J c"
  shows "0 < chain_size c" and "chain_size c - 1 = 0 \<longleftrightarrow> length (blocks c) = 1"
proof -
  have "length (blocks c) < 2 ^ 32" "blocks c \<noteq> []" using assms by (simp_all add: chain_ok_def)
  moreover from this have "unat (chain_size c) = length (blocks c)"
    by (simp add: chain_size_def unat_vec_size)
  moreover have "chain_size c - 1 = 0 \<longleftrightarrow> unat (chain_size c) = 1"
    by (metis diff_eq_diff_eq diff_self eq_iff_diff_eq_0 unat_1 word_unat_eq_iff)
  ultimately show "0 < chain_size c" and "chain_size c - 1 = 0 \<longleftrightarrow> length (blocks c) = 1"
    by (auto simp: word_less_nat_alt)
qed

subsection \<open>Sample states\<close>

definition sample_node :: MinerApp where
  "sample_node = \<lparr>uuid = ''id'', rewardAddress = ''w'',
     database = db_writeChain (empty_Blockchain\<lparr>blocks := [sample_block 0 1 5 [], sample_block 1 1 9 []]\<rparr>) \<lparr>dbfile = None\<rparr>,
     blockchain = empty_Blockchain\<lparr>blocks := [sample_block 0 1 5 [], sample_block 1 1 9 []]\<rparr>,
     tempchain = None, app_done = False, miningDone = False, app_miner = \<lparr>m_difficulty = 1\<rparr>\<rparr>"

lemma sample_node_simps [simp]:
  "blocks (blockchain sample_node) = [sample_block 0 1 5 [], sample_block 1 1 9 []]"
  "txQueue (blockchain sample_node) = []" "tempchain sample_node = None"
  "\<not> miningDone sample_node" "\<not> app_done sample_node"
  by (simp_all add: sample_node_def empty_Blockchain_def)

lemma sample_storable: "block_storable (sample_block i d t [])"
  by (simp add: block_storable_def short_def sample_block_def sample_hash_def)

lemma sample_node_ok: "chain_ok sample_cp J (blockchain sample_node)"
  by (simp add: chain_ok_def linked_def)

lemma sample_node_in_step: "in_step sample_node"
proof -
  let ?c = "empty_Blockchain\<lparr>blocks := [sample_block 0 1 5 [], sample_block 1 1 9 []]\<rparr>"
  have "db_stored (db_writeChain ?c \<lparr>dbfile = None\<rparr>) = Ok (blocks ?c)"
    using store.stored_writeChain [of ?c "\<lparr>dbfile = None\<rparr>" "[]"] by (simp add: sample_storable db_stored_def)
  then show ?thesis by (simp add: in_step_def sample_storable) (simp add: sample_node_def)
qed

subsection \<open>Main results\<close>

text \<open>
  C9: memory and disk agree after every synchronisation. If the chain starts at index 0 and is
  linked and the database holds it, then \<open>syncBlockchain\<close> returns, whatever non-empty storable chain
  was received, the database again holds exactly the chain in memory, the received chain is
  consumed, and a result of false means that the chain was not touched.
\<close>

theorem syncBlockchain_keeps_database:
  assumes "chain_ok cp J (blockchain s)" and "in_step s" and "temp_ok s"
  shows "\<exists>r s'. syncBlockchain cp J s = Ok (r, s') \<and> in_step s' \<and> tempchain s' = None
    \<and> (\<not> r \<longrightarrow> blockchain s' = blockchain s)"
  using assms by (rule sync_in_step)

theorem syncBlockchain_keeps_database_witness:
  "\<exists>r s'. syncBlockchain sample_cp jval_lib
      (sample_node\<lparr>tempchain := Some (empty_Blockchain\<lparr>blocks := [sample_block 1 1 7 [], sample_block 2 65 8 []]\<rparr>)\<rparr>) = Ok (r, s')
    \<and> in_step s' \<and> tempchain s' = None
    \<and> (\<not> r \<longrightarrow> blockchain s' = blockchain sample_node)"
  using syncBlockchain_keeps_database [of sample_cp jval_lib
      "sample_node\<lparr>tempchain := Some (empty_Blockchain\<lparr>blocks := [sample_block 1 1 7 [], sample_block 2 65 8 []]\<rparr>)\<rparr>"]
    sample_node_ok [of jval_lib] sample_node_in_step
  by (simp add: in_step_def temp_ok_def sample_storable)

text \<open>
  C10: synchronisation adopts a good chain completely. Let the received chain be linked and, unless
  it starts at index 0 or beyond the end of the local chain, let its blocks have valid hashes and its first block
  continue the local block before it. Then the local blocks from the first received index on are
  replaced by the received ones (all of them when it starts at index 0), a received chain that
  leaves a gap is dropped, the result says whether something was replaced, and
  the chain is again linked and starts at index 0.
\<close>

theorem syncBlockchain_adopts:
  assumes "chain_ok cp J (blockchain s)" and "tempchain s = Some t" and "blocks t \<noteq> []"
    and "chain_linked cp J (blocks t)" and "unat (index (hd (blocks t))) = n"
    and "0 < n \<and> n \<le> length (blocks (blockchain s)) \<longrightarrow>
      linked cp J (blocks (blockchain s) ! (n - 1)) (hd (blocks t)) \<and> (\<forall>b \<in> set (blocks t). ValidHash cp J b)"
  shows "\<exists>s'. syncBlockchain cp J s = Ok (n \<le> length (blocks (blockchain s)), s')
    \<and> blocks (blockchain s') =
        (if n \<le> length (blocks (blockchain s)) then take n (blocks (blockchain s)) @ blocks t
         else blocks (blockchain s))
    \<and> tempchain s' = None
    \<and> chain_linked cp J (blocks (blockchain s')) \<and> index (hd (blocks (blockchain s'))) = 0"
proof -
  have "0 < n \<Longrightarrow> n \<le> length (blocks (blockchain s)) \<Longrightarrow>
      extension cp J (blocks (blockchain s) ! (n - 1)) (blocks t)"
    using assms(3,4,6) by (cases "blocks t") (auto simp: extension_def)
  then show ?thesis
    using sync_adopts [OF assms(1-4)] unfolding assms(5) adopted_def by simp
qed

theorem syncBlockchain_adopts_witness:
  "\<exists>s'. syncBlockchain sample_cp jval_lib
      (sample_node\<lparr>tempchain := Some (empty_Blockchain\<lparr>blocks := [sample_block 1 1 7 [], sample_block 2 1 8 []]\<rparr>)\<rparr>) = Ok (True, s')
    \<and> blocks (blockchain s') = [sample_block 0 1 5 [], sample_block 1 1 7 [], sample_block 2 1 8 []]"
  using syncBlockchain_adopts [of sample_cp jval_lib
      "sample_node\<lparr>tempchain := Some (empty_Blockchain\<lparr>blocks := [sample_block 1 1 7 [], sample_block 2 1 8 []]\<rparr>)\<rparr>"
      _ 1, OF _ _ _ _ _] sample_node_ok [of jval_lib]
  by (auto simp: linked_def ValidHash_sample)

text \<open>
  C11: a round of mining extends the chain. If no other chain was received and the search
  succeeds, the iteration appends exactly the mined block: it has a valid hash at the adjusted
  difficulty, contains a coinbase transaction for the reward address followed by the queued
  transactions in their order, the chain stays linked, the queue is empty, the database holds the
  new chain, and one announcement is sent.
\<close>

theorem mining_round_success:
  assumes ok: "chain_ok cp J (blockchain s)" and step: "in_step s" and "tempchain s = None" and "\<not> miningDone s" and "\<not> app_done s"
    and d: "getAdjustedDifficulty release (blockchain s) = Ok d"
    and begin_: "mine_begin cp J release now s = Ok (nb, s1)"
    and mined: "mineBlock cp J (app_miner s1) env nb = Some (Ok (MINE_SUCCESS, b))" and "keep_stable env"
    and "block_storable b" and "\<forall>b \<in> set (blocks (blockchain s)). unat (difficulty b) < 64"
  shows "\<exists>msg s'. mine_iteration cp J release now env s = Some (Ok ([msg], s'))
    \<and> blocks (blockchain s') = blocks (blockchain s) @ [b] \<and> txQueue (blockchain s') = []
    \<and> ValidHash cp J b \<and> difficulty b = d
    \<and> (\<exists>cb. transactions b = cb # map (calcuateId cp (index b)) (txQueue (blockchain s))
         \<and> txOuts cb = [\<lparr>address = rewardAddress s, amount = COINBASE_REWARD\<rparr>] \<and> isCoinbase cb = Ok True)
    \<and> chain_linked cp J (blocks (blockchain s')) \<and> in_step s'"
proof -
  let ?c = "blockchain s"
  have ne: "blocks ?c \<noteq> []" and len: "length (blocks ?c) < 2 ^ 32" using ok by (simp_all add: chain_ok_def)
  from mine_begin_eq [OF ne d, of cp J now] begin_
  have s1: "s1 = s\<lparr>app_miner := setDifficulty d (app_miner s), blockchain := ?c\<lparr>txQueue := []\<rparr>\<rparr>"
    and nb: "index nb = chain_size ?c" "previousHash nb = hash (last (blocks ?c))"
      "transactions nb = CreateCoinbaseTransaction cp (chain_size ?c) (rewardAddress s)
        # map (calcuateId cp (chain_size ?c)) (txQueue ?c)" by auto
  note ms = mineBlock_success [OF mined assms(9)]
  then have b: "index b = chain_size ?c" "previousHash b = hash (last (blocks ?c))" "transactions b = transactions nb"
    using nb by (auto simp: setMinedData_def)
  have ok1: "chain_ok cp J (blockchain s1)" using ok by (simp add: s1 chain_ok_def)
  note ext = mined_extends [OF ok1, of b]
  define s2 where "s2 = s1\<lparr>blockchain := ?c\<lparr>txQueue := [], blocks := blocks ?c @ [b]\<rparr>,
      database := db_write b (database s)\<rparr>"
  have add: "addNewBlock cp J b (blockchain s1) = Ok (True, ?c\<lparr>txQueue := [], blocks := blocks ?c @ [b]\<rparr>)"
    using ext(1) b ms by (simp add: s1 chain_size_def)
  have lk: "chain_linked cp J (blocks ?c @ [b])" using ext(2) b ms by (simp add: s1 chain_size_def)
  obtain cum where "cumDifficulty (blockchain s2) = Ok cum"
    using cumDifficulty_returns [of "blockchain s2"] assms(11) len by (auto simp: s2_def)
  then obtain msg where "broadcastNewBlock J s2 = Ok msg"
    by (auto simp: broadcastNewBlock_def s2_def chain_back_def)
  moreover have "syncBlockchain cp J s2 = Ok (False, s2)"
    using assms(3) by (intro sync_none) (simp add: s2_def s1)
  ultimately have "mine_end cp J MINE_SUCCESS b s1 = Ok ([msg], s2)"
    using add by (simp add: mine_end_def s2_def [symmetric] s1 [symmetric]) (simp add: s2_def s1)
  then have "mine_iteration cp J release now env s = Some (Ok ([msg], s2))"
    using assms(4,5) begin_ mined by (simp add: mine_iteration_def)
  moreover have "in_step s2"
    using step assms(10) store.stored_write by (auto simp: in_step_def s2_def)
  ultimately show ?thesis
    using ms b nb lk by (auto simp: s2_def s1 mk_TxOut_def setDifficulty_def)
qed

lemma sample_difficulty: "getAdjustedDifficulty False (blockchain sample_node) = Ok 1"
  by (simp add: getAdjustedDifficulty_def chain_size_def vec_size_def chain_back_def vec_back_def BLOCK_INTERVAL_def)

definition sample_new :: Block where
  "sample_new = \<lparr>hashed = \<lparr>hd_index = 2, hd_nonce = 0, hd_difficulty = 1, hd_data = ''coinbase block #2'',
      hd_time = 7, hd_prev = sample_hash, hd_txs = [CreateCoinbaseTransaction sample_cp 2 ''w'']\<rparr>,
    block_hash = sample_hash, block_miner = ''id''\<rparr>"

lemma sample_begin:
  "mine_begin sample_cp jval_lib False 7 sample_node = Ok (sample_new,
     sample_node\<lparr>app_miner := \<lparr>m_difficulty = 1\<rparr>, blockchain := (blockchain sample_node)\<lparr>txQueue := []\<rparr>\<rparr>)"
proof -
  have "show_nat 2 = ''2''" by (simp add: show_nat.simps digit_char_table)
  then show ?thesis
    by (simp add: mine_begin_def sample_difficulty createUnminedBlock_eq Let_def setDifficulty_def sample_new_def
        new_Block_def setMiner_def setData_def chain_size_def vec_size_def)
      (simp add: sample_node_def)
qed

lemma sample_mined:
  "mineBlock sample_cp jval_lib \<lparr>m_difficulty = 1\<rparr> sample_env sample_new
     = Some (Ok (MINE_SUCCESS, setMinedData 0 1 100 sample_hash sample_new))"
  using mine_from_sample [of 1 jval_lib sample_new]
  by (subst mineBlock_eq)
    (simp_all add: sample_env_def try_hash_def attempt_hash_def CalculateBlockHash_fields_def sample_hash_def sample_new_def)

theorem mining_round_success_witness:
  "\<exists>msg s'. mine_iteration sample_cp jval_lib False 7 sample_env sample_node = Some (Ok ([msg], s'))
    \<and> length (blocks (blockchain s')) = 3 \<and> in_step s'"
proof -
  have "block_storable (setMinedData 0 1 100 sample_hash sample_new)"
    by (simp add: block_storable_def tx_storable_def txin_storable_def txout_storable_def point_storable_def
        short_def sample_new_def setMinedData_def sample_hash_def mk_TxIn_def mk_TxOut_def
        CreateCoinbaseTransaction_def empty_Transaction_def GetTransactionId_def sample_cp_def Let_def)
  moreover have "keep_stable sample_env" by (simp add: keep_stable_def sample_env_def)
  ultimately show ?thesis
    using mining_round_success [OF sample_node_ok sample_node_in_step _ _ _ sample_difficulty sample_begin,
        of sample_env "setMinedData 0 1 100 sample_hash sample_new"] sample_mined
    by auto
qed

text \<open>
  An aborted round loses no transaction. If the search ends without success and no chain was
  received meanwhile, the iteration leaves the blocks and the database as they were, sends
  nothing, and the queue holds the same transactions in the same order, with the ids
  for the abandoned block.
\<close>

theorem mining_round_abort:
  assumes "in_step s" and "tempchain s = None" and "\<not> miningDone s" and "\<not> app_done s"
    and d: "getAdjustedDifficulty release (blockchain s) = Ok d"
    and begin_: "mine_begin cp J release now s = Ok (nb, s1)"
    and mined: "mineBlock cp J (app_miner s1) env nb = Some (Ok (MINE_ABORT, b))"
    and q: "\<forall>tx \<in> set (txQueue (blockchain s)). isCoinbase tx = Ok False"
  shows "\<exists>s'. mine_iteration cp J release now env s = Some (Ok ([], s'))
    \<and> blocks (blockchain s') = blocks (blockchain s) \<and> database s' = database s
    \<and> txQueue (blockchain s') = map (calcuateId cp (chain_size (blockchain s))) (txQueue (blockchain s))
    \<and> in_step s'"
proof -
  let ?c = "blockchain s"
  have ne: "blocks ?c \<noteq> []" using assms(1) by (simp add: in_step_def)
  from mine_begin_eq [OF ne d, of cp J now] begin_
  have s1: "s1 = s\<lparr>app_miner := setDifficulty d (app_miner s), blockchain := ?c\<lparr>txQueue := []\<rparr>\<rparr>"
    and nb: "transactions nb = CreateCoinbaseTransaction cp (chain_size ?c) (rewardAddress s)
        # map (calcuateId cp (chain_size ?c)) (txQueue ?c)" by auto
  have b: "b = nb" using mineBlock_abort [OF mined] .
  define c2 where "c2 = ?c\<lparr>txQueue := map (calcuateId cp (chain_size ?c)) (txQueue ?c)\<rparr>"
  have "\<exists>n. reQueueTransactions b (blockchain s1) = Ok (n, c2)"
    using reQueueTransactions_eq [OF nb] q by (simp add: b s1 c2_def)
  moreover have "syncBlockchain cp J (s1\<lparr>blockchain := c2\<rparr>) = Ok (False, s1\<lparr>blockchain := c2\<rparr>)"
    using assms(2) by (intro sync_none) (simp add: s1)
  ultimately have "mine_end cp J MINE_ABORT b s1 = Ok ([], s1\<lparr>blockchain := c2\<rparr>)"
    by (auto simp: mine_end_def)
  then have "mine_iteration cp J release now env s = Some (Ok ([], s1\<lparr>blockchain := c2\<rparr>))"
    using assms(3,4) begin_ mined by (simp add: mine_iteration_def)
  then show ?thesis using assms(1) by (auto simp: s1 c2_def in_step_def)
qed

theorem mining_round_abort_witness:
  "\<exists>s'. mine_iteration sample_cp jval_lib False 7 (sample_env\<lparr>env_keep := (\<lambda>_. False)\<rparr>) sample_node = Some (Ok ([], s'))
    \<and> blocks (blockchain s') = blocks (blockchain sample_node) \<and> in_step s'"
proof -
  have "mineBlock sample_cp jval_lib \<lparr>m_difficulty = 1\<rparr> (sample_env\<lparr>env_keep := (\<lambda>_. False)\<rparr>) sample_new
      = Some (Ok (MINE_ABORT, sample_new))"
    by (simp add: mineBlock_def mine_loop.simps sample_new_def sample_hash_def Let_def)
  then show ?thesis
    using mining_round_abort [OF sample_node_in_step _ _ _ sample_difficulty sample_begin, of
        "sample_env\<lparr>env_keep := (\<lambda>_. False)\<rparr>" sample_new] by auto
qed

subsection \<open>Requests for a part of the chain\<close>

lemma takeWhile_sorted:
  fixes f :: "'a \<Rightarrow> 'k :: linorder"
  shows "sorted_wrt (\<lambda>a b. f a < f b) xs \<Longrightarrow> takeWhile (\<lambda>x. f x \<le> j) xs = filter (\<lambda>x. f x \<le> j) xs"
proof (induction xs)
  case (Cons x xs)
  have "\<not> f x \<le> j \<Longrightarrow> filter (\<lambda>x. f x \<le> j) xs = []"
    using Cons.prems by (fastforce simp: filter_empty_conv)
  with Cons show ?case by simp
qed simp

lemma slice_sorted:
  fixes f :: "'a \<Rightarrow> 'k :: linorder"
  assumes "sorted_wrt (\<lambda>a b. f a < f b) xs" and "i \<in> f ` set xs"
  shows "takeWhile (\<lambda>x. f x \<le> j) (dropWhile (\<lambda>x. f x \<noteq> i) xs) = filter (\<lambda>x. i \<le> f x \<and> f x \<le> j) xs"
  using assms
proof (induction xs)
  case (Cons y ys)
  show ?case
  proof (cases "f y = i")
    case True
    then have "filter (\<lambda>x. i \<le> f x \<and> f x \<le> j) (y # ys) = filter (\<lambda>x. f x \<le> j) (y # ys)"
      using Cons.prems(1) by (intro filter_cong) auto
    with True takeWhile_sorted [OF Cons.prems(1)] show ?thesis by simp
  next
    case False
    then have "i \<in> f ` set ys" and "f y < i" using Cons.prems by auto
    with False Cons show ?thesis by (simp add: not_le)
  qed
qed simp

lemma chain_ok_sorted:
  assumes "chain_ok cp J c"
  shows "sorted_wrt (\<lambda>a b. index a < index b) (blocks c)"
proof -
  have "length (blocks c) < 2 ^ 32" using assms by (simp add: chain_ok_def)
  then show ?thesis
    unfolding sorted_wrt_iff_nth_less
    by (auto simp: chain_ok_index [OF assms] word_less_nat_alt unat_of_nat64)
qed

context json_library
begin

lemma chain_response_range:
  assumes "chain_ok cp J c" and "id1 \<in> index ` set (blocks c)"
    and json: "j_at J json ''id1'' = Ok (j_of_u64 J id1)" "j_at J json ''id2'' = Ok (j_of_u64 J id2)"
      "j_contains J json ''id1''"
  shows "chain_response J c json =
    (let bs = filter (\<lambda>b. id1 \<le> index b \<and> index b \<le> id2) (blocks c)
     in Ok (if bs = [] then j_null J else set_all J [(''blocks'', push_all J (Block_to_json J) bs)]))"
proof -
  have "chain_slice id1 id2 (blocks c) = filter (\<lambda>b. id1 \<le> index b \<and> index b \<le> id2) (blocks c)"
    unfolding chain_slice_def by (rule slice_sorted [OF chain_ok_sorted [OF assms(1)] assms(2)])
  moreover have "dropWhile (\<lambda>b. index b \<noteq> id1) (blocks c) \<noteq> []"
    using assms(2) by (auto simp: dropWhile_eq_Nil_conv)
  ultimately show ?thesis
    by (simp add: chain_response_def json get_u64 j_is_number_def type_u64 Let_def del: dropWhile_eq_Nil_conv)
qed

end

text \<open>
  A request for a range of blocks is answered with exactly that range. On a linked chain that
  starts at index 0, when the first index occurs in the chain, the response carries the blocks
  whose index lies between the two given ones, in chain order and such that the receiver reads the
  same blocks back; an unknown first index is answered with an error and no blocks.
\<close>

theorem chain_request_range:
  assumes "json_library J" and "chain_ok cp J c"
    and request_def: "request = set_all J [(''id1'', j_of_u64 J id1), (''id2'', j_of_u64 J id2)]"
    and bs_def: "bs = filter (\<lambda>b. id1 \<le> index b \<and> index b \<le> id2) (blocks c)"
  shows "if id1 \<notin> index ` set (blocks c)
    then chain_response J c request = Ok (jerror J ''could not find id1 in chain'')
    else if bs = [] then chain_response J c request = Ok (j_null J)
    else \<exists>j. chain_response J c request = Ok j
      \<and> at_get J (\<lambda>j. Blockchain_from_json J j empty_Blockchain) j ''blocks''
        = Ok (empty_Blockchain\<lparr>blocks := bs\<rparr>)"
proof -
  have req: "j_at J request ''id1'' = Ok (j_of_u64 J id1)" "j_at J request ''id2'' = Ok (j_of_u64 J id2)"
    "j_contains J request ''id1''"
    by (simp_all add: request_def json_library.at_set_all [OF assms(1)] json_library.contains_set_all [OF assms(1)])
  show ?thesis
  proof (cases "id1 \<in> index ` set (blocks c)")
    case True
    note eq = json_library.chain_response_range [OF assms(1,2) True req]
    have "Blockchain_to_json J (c\<lparr>blocks := bs\<rparr>) = push_all J (Block_to_json J) bs"
      by (simp add: Blockchain_to_json_def)
    then have "Blockchain_from_json J (push_all J (Block_to_json J) bs) empty_Blockchain = Ok (empty_Blockchain\<lparr>blocks := bs\<rparr>)"
      using json_library.Blockchain_json [OF assms(1), of "c\<lparr>blocks := bs\<rparr>" empty_Blockchain] by simp
    with True eq show ?thesis
      by (simp add: bs_def [symmetric] Let_def at_get_def json_library.at_set_all [OF assms(1)])
  next
    case False
    then have "dropWhile (\<lambda>b. index b \<noteq> id1) (blocks c) = []" by (auto simp: dropWhile_eq_Nil_conv)
    with False show ?thesis
      by (simp add: chain_response_def req j_is_number_def json_library.type_u64 [OF assms(1)]
          json_library.get_u64 [OF assms(1)])
  qed
qed

theorem chain_request_range_witness:
  "\<exists>j. chain_response jval_lib (blockchain sample_node)
        (set_all jval_lib [(''id1'', j_of_u64 jval_lib 1), (''id2'', j_of_u64 jval_lib 5)]) = Ok j
      \<and> at_get jval_lib (\<lambda>j. Blockchain_from_json jval_lib j empty_Blockchain) j ''blocks''
        = Ok (empty_Blockchain\<lparr>blocks := [sample_block 1 1 9 []]\<rparr>)"
  using chain_request_range [OF json_library_jval sample_node_ok refl refl, of 1 5] by simp

subsection \<open>Where received chains are handled wrongly\<close>

text \<open>
  A node that holds only the genesis block cannot take an update. A received chain that starts
  at index 1, the continuation such a node asks for, makes an assertion of \<open>handleChainResponse\<close> fail,
  because the assertion demands a predecessor with a positive index.
\<close>

theorem handleChainResponse_index_one:
  assumes "chain_ok cp J (blockchain s)" and "blocks temp \<noteq> []" and "index (hd (blocks temp)) = 1"
  shows "handleChainResponse W temp s = Err AssertFailed"
proof -
  have ne: "blocks (blockchain s) \<noteq> []" using assms(1) by (simp add: chain_ok_def)
  have "\<not> index (last (blocks (blockchain s))) + 1 < 1"
    unfolding word_less_nat_alt chain_ok_last(3) [OF assms(1)] using ne by (cases "blocks (blockchain s)") auto
  with assms(2,3) ne show ?thesis
    by (cases "blocks temp")
      (simp_all add: handleChainResponse_def chain_front_def vec_front_def chain_back_def vec_back_def Let_def)
qed

theorem handleChainResponse_index_one_witness:
  "handleChainResponse (jval_wire Map.empty) (empty_Blockchain\<lparr>blocks := [sample_block 1 1 7 []]\<rparr>)
     (sample_node\<lparr>blockchain := empty_Blockchain\<lparr>blocks := [sample_block 0 1 5 []]\<rparr>\<rparr>) = Err AssertFailed"
  by (rule handleChainResponse_index_one [where cp = sample_cp and J = jval_lib]) (simp_all add: chain_ok_def)

text \<open>
  C37: a peer can break the local chain. Validation does not check the hash of the first block of a
  received chain, so a peer can send a first block that names the right
  predecessor but claims the predecessor's hash as its own, followed by a properly mined block.
  Such a chain passes \<open>isValidChain\<close> and \<open>handleChainResponse\<close> caches it; \<open>syncBlockchain\<close> then
  rejects the first block and appends the second one, whose index does not follow. The resulting
  chain is invalid, and a restart from the database refuses to start.
\<close>

theorem unchecked_first_block:
  assumes ok: "chain_ok cp J (blockchain s)" and step: "in_step s" and len: "1 < length (blocks (blockchain s))"
    "length (blocks (blockchain s)) + 1 < 2 ^ 32"
    and F: "index F = index (last (blocks (blockchain s))) + 1" "previousHash F = hash (last (blocks (blockchain s)))"
      "hash F = hash (last (blocks (blockchain s)))" "\<not> ValidHash cp J F"
    and B: "linked cp J F B" "ValidHash cp J B" "block_storable B"
  shows "isValidChain cp J (empty_Blockchain\<lparr>blocks := [F, B]\<rparr>) = Ok True
    \<and> (\<exists>s1 s2. handleChainResponse W (empty_Blockchain\<lparr>blocks := [F, B]\<rparr>) s = Ok ([], s1)
         \<and> syncBlockchain cp J s1 = Ok (True, s2)
         \<and> blocks (blockchain s2) = blocks (blockchain s) @ [B]
         \<and> isValidChain cp J (blockchain s2) = Ok False
         \<and> db_initialize cp J genesis None empty_Blockchain (database s2) = Err (LogicError ''invalid chain''))"
proof -
  let ?c = "blockchain s" and ?t = "empty_Blockchain\<lparr>blocks := [F, B]\<rparr>"
  have ne: "blocks ?c \<noteq> []" using ok by (simp add: chain_ok_def)
  define s1 where "s1 = s\<lparr>tempchain := Some ?t\<rparr>"
  define s2 where "s2 = s\<lparr>blockchain := ?c\<lparr>blocks := blocks ?c @ [B]\<rparr>, database := db_write B (database s), tempchain := None\<rparr>"
  have n: "unat (index F) = length (blocks ?c)" unfolding F(1) by (rule chain_ok_last(3) [OF ok])
  have idx: "index F - 1 = index (last (blocks ?c))" by (simp add: F(1))
  have pos: "index F \<noteq> 0" using n len by auto
  have "0 < index (last (blocks ?c))" "index (last (blocks ?c)) < chain_size ?c"
    using len chain_ok_last(2) [OF ok] by (simp_all add: word_less_nat_alt chain_size_def unat_vec_size)
  moreover have "chain_at ?c (index (last (blocks ?c))) = Ok (last (blocks ?c))"
    using ne chain_ok_last(2) [OF ok] len by (simp add: chain_at_def vec_at_def last_conv_nth)
  ultimately have h: "handleChainResponse W ?t s = Ok ([], s1)"
    using pos ne idx F(2) by (simp add: handleChainResponse_def chain_front_def chain_back_def vec_back_def F(1) s1_def Let_def)
  have "\<not> index F \<le> index (last (blocks ?c))"
    using n len chain_ok_last(2) [OF ok] by (simp add: word_le_nat_alt)
  then have sy: "syncBlockchain cp J s1 = Ok (True, s2)"
    using pos ne F B(1,2)
    by (simp add: syncBlockchain_def s1_def s2_def chain_front_def chain_back_def vec_back_def sync_append_def
        addNewBlock_eq linked_def)
  have bad: "\<not> chain_linked cp J (blocks ?c @ [B])"
    using ne B(1) F(1) by (simp add: chain_linked_snoc linked_def)
  have st: "db_stored (database s2) = Ok (blocks ?c @ [B])"
    using step B(3) store.stored_write by (auto simp: s2_def in_step_def)
  then obtain raw where "dbfile (database s2) = Some raw" and "load_blocks raw = Ok (blocks ?c @ [B])"
    by (auto simp: db_stored_def split: option.splits)
  then have "db_initialize cp J genesis None empty_Blockchain (database s2) = Err (LogicError ''invalid chain'')"
    using bad len by (simp add: db_initialize_def isValidChain_eq empty_Blockchain_def)
  with h sy bad len B(1) show ?thesis
    by (auto simp: isValidChain_eq s2_def)
qed

theorem unchecked_first_block_witness:
  "\<exists>s1 s2. handleChainResponse (jval_wire Map.empty) (empty_Blockchain\<lparr>blocks := [sample_block 2 65 7 [], sample_block 3 1 8 []]\<rparr>) sample_node = Ok ([], s1)
         \<and> syncBlockchain sample_cp jval_lib s1 = Ok (True, s2)
         \<and> db_initialize sample_cp jval_lib default_Block None empty_Blockchain (database s2) = Err (LogicError ''invalid chain'')"
  using unchecked_first_block [OF sample_node_ok sample_node_in_step,
      where F = "sample_block 2 65 7 []" and B = "sample_block 3 1 8 []" and J = jval_lib
        and W = "jval_wire Map.empty" and genesis = default_Block]
  by (auto simp: ValidHash_sample linked_def sample_storable)

text \<open>An idle node takes over a whole chain.\<close>

lemma full_chain_message:
  assumes lib: "json_library W" and "chain_ok cp W (blockchain s)" and "miningDone s" and "chain_ok cp W c"
    and "list_all block_storable (blocks c)"
    and msg: "j_parse W raw = Some (set_all W [(''message'', j_of_string W ''chain''),
      (''message-type'', j_of_string W ''response''), (''blocks'', Blockchain_to_json W c)])"
  shows "\<exists>s'. onChainMessage cp W reset_enable raw s = Ok ([], s') \<and> blocks (blockchain s') = blocks c
    \<and> db_stored (database s') = Ok (blocks c) \<and> miningDone s' \<and> app_done s' = app_done s"
proof -
  let ?t = "empty_Blockchain\<lparr>blocks := blocks c\<rparr>"
  have c: "blocks c \<noteq> []" "index (hd (blocks c)) = 0" "length (blocks c) < 2 ^ 32" "chain_linked cp W (blocks c)"
    using assms(4) by (simp_all add: chain_ok_def)
  have size: "chain_size ?t \<noteq> 0"
    using c unat_vec_size [of "blocks c"] by (auto simp: chain_size_def word_unat_eq_iff)
  have front: "chain_front ?t = Ok (hd (blocks c))" using c by (simp add: chain_front_def vec_front_Ok_iff)
  have valid: "isValidChain cp W ?t = Ok True" using c by (simp add: isValidChain_eq)
  define s' where "s' = s\<lparr>blockchain := ?t, database := db_writeChain ?t (db_reset (database s)), tempchain := None\<rparr>"
  have "handleChainResponse W ?t s = Ok ([], s\<lparr>tempchain := Some ?t\<rparr>)"
    using front c by (simp add: handleChainResponse_def)
  moreover have "syncBlockchain cp W (s\<lparr>tempchain := Some ?t\<rparr>) = Ok (True, s')"
    using front c by (simp add: syncBlockchain_def s'_def)
  ultimately have "onChainMessage cp W reset_enable raw s = Ok ([], s')"
    using assms(3) size valid
    by (simp add: onChainMessage_def msg handleResponse_def at_get_def json_library.at_set_all [OF lib]
        json_library.contains_set_all [OF lib] json_library.get_string [OF lib]
        json_library.Blockchain_json [OF lib] sync_if_idle_def)
  moreover have "db_stored (database s') = Ok (blocks c)"
    using store.stored_rewrite [of ?t "database s"] assms(5) by (simp add: s'_def)
  ultimately show ?thesis using assms(3) by (simp add: s'_def)
qed

text \<open>
  C38: any peer can replace the chain. A message of type response that carries a linked chain
  starting at index 0 makes an idle node take over that chain and rewrite its database,
  without a request for it, whatever the setting for chain resets says and whatever
  the cumulative difficulties are.
\<close>

theorem unsolicited_chain_replaces:
  assumes lib: "json_library W" and "chain_ok cp W (blockchain s)" and "miningDone s" and "chain_ok cp W c"
    and "list_all block_storable (blocks c)"
    and msg: "j_parse W raw = Some (set_all W [(''message'', j_of_string W ''chain''),
      (''message-type'', j_of_string W ''response''), (''blocks'', Blockchain_to_json W c)])"
  shows "\<exists>s'. onChainMessage cp W reset_enable raw s = Ok ([], s') \<and> blocks (blockchain s') = blocks c
    \<and> db_stored (database s') = Ok (blocks c)"
  using full_chain_message [OF assms] by blast

theorem unsolicited_chain_replaces_witness:
  "\<exists>(W :: jval json_wire) s'. onChainMessage sample_cp W False ''m'' (sample_node\<lparr>miningDone := True\<rparr>) = Ok ([], s')
     \<and> blocks (blockchain s') = [sample_block 0 1 4 []]"
proof -
  let ?c = "empty_Blockchain\<lparr>blocks := [sample_block 0 1 4 []]\<rparr>"
  let ?j = "set_all jval_lib [(''message'', j_of_string jval_lib ''chain''),
      (''message-type'', j_of_string jval_lib ''response''), (''blocks'', Blockchain_to_json jval_lib ?c)]"
  define W where "W = jval_wire [''m'' \<mapsto> ?j]"
  have parse: "j_parse W ''m'' = Some (set_all W [(''message'', j_of_string W ''chain''),
      (''message-type'', j_of_string W ''response''), (''blocks'', Blockchain_to_json W ?c)])"
    by (simp add: W_def jval_wire_fields set_all_def push_all_def Blockchain_to_json_def Block_to_json_def Transactions_to_json_def)
  have lib: "json_library W" unfolding W_def by (rule json_library_wire)
  have "chain_ok sample_cp W (blockchain (sample_node\<lparr>miningDone := True\<rparr>))" and "chain_ok sample_cp W ?c"
    using sample_node_ok [of W] by (simp_all add: chain_ok_def)
  from unsolicited_chain_replaces [OF lib this(1) _ this(2) _ parse, of False] show ?thesis
    by (simp add: sample_storable) blast
qed

text \<open>
  The genesis block does not carry its own hash. The hash is computed before the data is set:
  the stored hash is that of a text without the data, while the hash of the block is that of a
  text that includes it; the two texts differ whenever the data is not empty.
\<close>

theorem genesis_hash_mismatch:
  assumes "gendata \<noteq> []"
  shows "\<exists>t1 t2. t1 \<noteq> t2 \<and> hash (genesisBlock cp J now gendata s) = SHA256 cp t1
    \<and> CalculateBlockHash cp J (genesisBlock cp J now gendata s) = SHA256 cp t2"
proof -
  define extra where "extra = extra_hash cp J [CreateCoinbaseTransaction cp 0 (rewardAddress s)]"
  define msgtext where
    "msgtext d = show_u64 0 @ show_u64 0 @ show_u64 1 @ d @ show_time now @ extra" for d
  have fields: "CalculateBlockHash_fields cp 0 0 1 now d [] extra = SHA256 cp (msgtext d)" for d
    by (simp add: CalculateBlockHash_fields_def msgtext_def)
  have "hash (genesisBlock cp J now gendata s) = SHA256 cp (msgtext [])"
    and "CalculateBlockHash cp J (genesisBlock cp J now gendata s) = SHA256 cp (msgtext gendata)"
    unfolding fields [symmetric]
    by (simp_all add: genesisBlock_def new_Block_def setMiner_def setData_def CalculateBlockHash_def extra_def)
  moreover have "msgtext [] \<noteq> msgtext gendata" using assms by (simp add: msgtext_def)
  ultimately show ?thesis by blast
qed

theorem genesis_hash_mismatch_witness:
  "\<exists>t1 t2. t1 \<noteq> t2 \<and> hash (genesisBlock sample_cp jval_lib 5 ''Gensis'' sample_node) = SHA256 sample_cp t1
    \<and> CalculateBlockHash sample_cp jval_lib (genesisBlock sample_cp jval_lib 5 ''Gensis'' sample_node) = SHA256 sample_cp t2"
  by (rule genesis_hash_mismatch) simp

end
