(* ===== verification/Ash_Run.thy ===== *)
theory Ash_Run
  imports Ash_Node
begin

section \<open>A running node as a step relation\<close>

text \<open>
  A node is run by several threads: the mining thread alternates between building a block under
  the lock, searching for a nonce without it, and finishing the round; the threads of the
  network handle messages; the REST service queues transactions, starts and stops the miner. A
  state of the step relation is the node together with the block that is being mined, if any; a
  message can be handled between any two steps, in particular during a search. The steps are the
  handlers of \<open>Ash_Node\<close>, unchanged.

  The invariant: the chain is linked and starts at index 0, the file holds the chain in memory, a
  received chain that waits to be adopted continues the local chain, and the block being mined
  was built on the last block, as long as mining was not stopped since. It holds in every state a node can reach from a
  start with or without a chain file, whatever its peers send, with one exception that the code does not check: the first block of
  an update claims a hash that is not its own. Theorem \<open>unchecked_first_block\<close> shows that this exception cannot be left out.
\<close>

subsection \<open>Steps\<close>

type_synonym run_state = "MinerApp \<times> Block option"

text \<open>
  Received blocks that are no attack on the unchecked first block. An update, which does not start with a genesis block, has a first block
  with the hash it claims, and no two of its blocks, the one before it included, have the same hash. A whole
  chain may start with any block: a genuine genesis block does not have the hash it claims (theorem \<open>genesis_hash_mismatch\<close>). Proof of
  work is not asked for. The strings and vectors of all blocks fit the file format.
\<close>

definition sound_chain :: "cryptopp \<Rightarrow> ('j, 'b) json_lib_scheme \<Rightarrow> Block list \<Rightarrow> bool" where
  "sound_chain cp J bs \<longleftrightarrow> list_all block_storable bs \<and> length bs < 2 ^ 32
     \<and> (bs \<noteq> [] \<and> index (hd bs) \<noteq> 0 \<longrightarrow> CalculateBlockHash cp J (hd bs) = hash (hd bs) \<and> distinct (previousHash (hd bs) # map hash bs))"

text \<open>Only responses with a chain matter; requests, summaries, errors and texts that are not understood may carry anything.\<close>

definition chain_message :: "('j, 'b) json_lib_scheme \<Rightarrow> 'j \<Rightarrow> bool" where
  "chain_message J json \<longleftrightarrow> at_get J (j_get_string J) json ''message'' = Ok ''chain''
     \<and> at_get J (j_get_string J) json ''message-type'' = Ok ''response''"

definition sound_message :: "cryptopp \<Rightarrow> ('j, 'b) json_wire_scheme \<Rightarrow> string \<Rightarrow> bool" where
  "sound_message cp W raw \<longleftrightarrow> (case j_parse W raw of None \<Rightarrow> True | Some json \<Rightarrow>
     chain_message W json \<longrightarrow> (case at_get W (\<lambda>j. Blockchain_from_json W j empty_Blockchain) json ''blocks'' of
       Inl e \<Rightarrow> True | Inr temp \<Rightarrow> sound_chain cp W (blocks temp)))"

text \<open>
  A message that arrives after the miner was stopped but before its search has returned is adopted by the network thread, so the
  block that is found may no longer continue the chain; it is then refused, unless its previous hash happens to be
  that of the new last block. Such a collision, of blocks with different indices, is left out by the guard \<open>no_collision\<close>: \<^verbatim>\<open>addNewBlock\<close>
  does not compare the indices. The bounds on the length of the chain
  keep the 32-bit counter of \<^verbatim>\<open>isValidChain\<close> from wrapping.
\<close>

definition no_collision :: "MinerApp \<Rightarrow> Block \<Rightarrow> bool" where
  "no_collision s nb \<longleftrightarrow> previousHash nb = hash (last (blocks (blockchain s))) \<longrightarrow> index nb = chain_size (blockchain s)"

inductive node_step ::
  "cryptopp \<Rightarrow> ('j, 'b) json_wire_scheme \<Rightarrow> bool \<Rightarrow> run_state \<Rightarrow> run_state \<Rightarrow> bool"
  for cp :: cryptopp and W :: "('j, 'b) json_wire_scheme" and release :: bool where
  begin_round: "\<not> miningDone s \<Longrightarrow> \<not> app_done s \<Longrightarrow> mine_begin cp W release now s = Ok (nb, s')
    \<Longrightarrow> node_step cp W release (s, None) (s', Some nb)"
| end_round: "mineBlock cp W (app_miner s) env nb = Some (Ok (r, b)) \<Longrightarrow> keep_stable env
    \<Longrightarrow> block_storable b \<Longrightarrow> no_collision s nb \<Longrightarrow> mine_end cp W r b s = Ok (sent, s')
    \<Longrightarrow> length (blocks (blockchain s)) + 1 < 2 ^ 32 \<Longrightarrow> length (blocks (blockchain s')) < 2 ^ 32
    \<Longrightarrow> node_step cp W release (s, Some nb) (s', None)"
| message: "onChainMessage cp W reset_enable raw s = Ok (sent, s') \<Longrightarrow> sound_message cp W raw
    \<Longrightarrow> length (blocks (blockchain s')) < 2 ^ 32
    \<Longrightarrow> node_step cp W release (s, p) (s', p)"
| queue_tx: "node_step cp W release (s, p) (s\<lparr>blockchain := queueTransaction tx (blockchain s)\<rparr>, p)"
| start: "miningDone s \<Longrightarrow> node_step cp W release (s, None) (s\<lparr>miningDone := False\<rparr>, None)"
| stop: "node_step cp W release (s, p) (stopMining s, p)"
| exit: "node_step cp W release (s, p) (signalExit s, p)"

inductive_cases node_stepE: "node_step cp W release sp sp'"

abbreviation node_steps ::
  "cryptopp \<Rightarrow> ('j, 'b) json_wire_scheme \<Rightarrow> bool \<Rightarrow> run_state \<Rightarrow> run_state \<Rightarrow> bool" where
  "node_steps cp W release \<equiv> (node_step cp W release)\<^sup>*\<^sup>*"

subsection \<open>The invariant\<close>

text \<open>A received chain that waits replaces everything, or continues a block of the local chain.\<close>

definition temp_links :: "cryptopp \<Rightarrow> ('j, 'b) json_lib_scheme \<Rightarrow> MinerApp \<Rightarrow> bool" where
  "temp_links cp J s \<longleftrightarrow> (case tempchain s of None \<Rightarrow> True
     | Some t \<Rightarrow> blocks t \<noteq> [] \<and> chain_linked cp J (blocks t) \<and> sound_chain cp J (blocks t)
         \<and> (let n = unat (index (hd (blocks t)))
            in n = 0 \<or> n \<le> length (blocks (blockchain s))
                 \<and> previousHash (hd (blocks t)) = hash (blocks (blockchain s) ! (n - 1))))"

definition built_on :: "MinerApp \<Rightarrow> Block \<Rightarrow> bool" where
  "built_on s nb \<longleftrightarrow> index nb = chain_size (blockchain s)
     \<and> previousHash nb = hash (last (blocks (blockchain s)))"

definition node_inv :: "cryptopp \<Rightarrow> ('j, 'b) json_lib_scheme \<Rightarrow> run_state \<Rightarrow> bool" where
  "node_inv cp J sp \<longleftrightarrow> (case sp of (s, p) \<Rightarrow>
     chain_ok cp J (blockchain s) \<and> in_step s \<and> temp_links cp J s
     \<and> (\<forall>nb. p = Some nb \<longrightarrow> \<not> miningDone s \<longrightarrow> built_on s nb))"

text \<open>The invariant only looks at the blocks, the file, the waiting chain and whether mining is done.\<close>

lemma node_inv_mono:
  assumes "blocks (blockchain s') = blocks (blockchain s)" and "database s' = database s"
    and "tempchain s' = tempchain s" and "miningDone s \<longrightarrow> miningDone s' \<or> p = None" and "node_inv cp J (s, p)"
  shows "node_inv cp J (s', p)"
  using assms
  by (auto simp: node_inv_def chain_ok_def in_step_def temp_links_def built_on_def chain_size_def
      cong: option.case_cong)

lemma node_inv_drop: "node_inv cp J (s, p) \<Longrightarrow> node_inv cp J (s, None)"
  by (simp add: node_inv_def)

lemma temp_links_ok: "temp_links cp J s \<Longrightarrow> temp_ok s"
  by (auto simp: temp_links_def temp_ok_def sound_chain_def split: option.splits)

lemma temp_links_continues:
  assumes "chain_ok cp J (blockchain s)" and "temp_links cp J s" and "tempchain s = Some t"
    and "unat (index (hd (blocks t))) = n" and "0 < n"
  shows "n \<le> length (blocks (blockchain s))" and "chain_linked cp J ((blocks (blockchain s) ! (n - 1)) # blocks t)"
    and "distinct (map hash ((blocks (blockchain s) ! (n - 1)) # blocks t))"
proof -
  let ?p = "blocks (blockchain s) ! (n - 1)"
  have "index (hd (blocks t)) \<noteq> 0" using assms(4,5) by auto
  then have t: "blocks t \<noteq> []" "chain_linked cp J (blocks t)" "CalculateBlockHash cp J (hd (blocks t)) = hash (hd (blocks t))"
      "distinct (previousHash (hd (blocks t)) # map hash (blocks t))"
    and le: "n \<le> length (blocks (blockchain s))" and prev: "previousHash (hd (blocks t)) = hash ?p"
    using assms(2-5) by (auto simp: temp_links_def sound_chain_def Let_def)
  then have "index ?p = of_nat (n - 1)"
    using assms(5) by (intro chain_ok_index [OF assms(1)]) simp
  then have "index (hd (blocks t)) = index ?p + 1"
    using assms(4,5) by (metis Suc_diff_1 of_nat_Suc add.commute of_nat_unat ucast_id)
  with t prev show "chain_linked cp J (?p # blocks t)" by (cases "blocks t") (auto simp: linked_def)
  show "distinct (map hash (?p # blocks t))" using t(4) by (simp add: prev)
  show "n \<le> length (blocks (blockchain s))" by (rule le)
qed

subsection \<open>Every step keeps the invariant\<close>

text \<open>
  Synchronising with a chain that waits: the whole chain is taken over, or the part of an update before its first block without proof of
  work.
\<close>

lemma chain_linked_glue:
  assumes "chain_linked cp J xs" and "xs \<noteq> []" and "last xs = x" and "chain_linked cp J (x # ys)"
  shows "chain_linked cp J (xs @ ys)"
proof (cases ys)
  case (Cons y zs)
  then show ?thesis using assms(1,3,4) chain_linked_append [OF assms(2), of ys cp J] by simp
qed (use assms in simp)

lemma sync_takes_prefix:
  assumes ok: "chain_ok cp J (blockchain s)" "temp_links cp J s" and t: "tempchain s = Some t" and sync: "syncBlockchain cp J s = Ok (r, s')"
  defines "n \<equiv> unat (index (hd (blocks t)))"
  shows "blocks (blockchain s') = take n (blocks (blockchain s)) @ (if n = 0 then blocks t else takeWhile (ValidHash cp J) (blocks t))"
proof (cases "n = 0")
  case True
  have "blocks t \<noteq> []" using ok(2) t by (simp add: temp_links_def)
  with syncBlockchain_eq [OF ok(1) t] sync True show ?thesis by (simp add: n_def)
next
  case False
  have ne: "blocks t \<noteq> []" using ok(2) t by (simp add: temp_links_def)
  note c = temp_links_continues [OF ok t refl, folded n_def]
  have acc: "accepted cp J (hash (blocks (blockchain s) ! (n - 1))) (blocks t) = takeWhile (ValidHash cp J) (blocks t)"
    using c(2,3) False by (intro accepted_prefix) simp_all
  have "n < length (blocks (blockchain s)) \<or> n = length (blocks (blockchain s))" using c(1) False by linarith
  with syncBlockchain_eq [OF ok(1) t ne] sync False acc show ?thesis by (auto simp: n_def Let_def)
qed

lemma sync_inv:
  assumes inv: "node_inv cp J (s, None)" and sync: "syncBlockchain cp J s = Ok (r, s')"
    and len: "length (blocks (blockchain s')) < 2 ^ 32"
  shows "node_inv cp J (s', None)"
proof (cases "tempchain s")
  case None
  with inv sync show ?thesis by (simp add: sync_none)
next
  case (Some t)
  let ?n = "unat (index (hd (blocks t)))" and ?bs = "blocks (blockchain s)"
  have ok: "chain_ok cp J (blockchain s)" "in_step s" "temp_links cp J s" using inv by (simp_all add: node_inv_def)
  have t: "blocks t \<noteq> []" "chain_linked cp J (blocks t)" using ok(3) Some by (simp_all add: temp_links_def)
  note s' = sync_takes_prefix [OF ok(1,3) Some sync]
  have "chain_linked cp J (blocks (blockchain s')) \<and> index (hd (blocks (blockchain s'))) = 0"
  proof (cases "?n = 0")
    case True
    then show ?thesis using t s' by (simp flip: unat_eq_0)
  next
    case False
    note c = temp_links_continues [OF ok(1,3) Some refl]
    let ?w = "takeWhile (ValidHash cp J) (blocks t)"
    have ne: "take ?n ?bs \<noteq> []" and hd: "hd (take ?n ?bs) = hd ?bs" using False ok(1) by (auto simp: chain_ok_def)
    have "chain_linked cp J (take ?n ?bs)" using ok(1) by (simp add: chain_ok_def chain_linked_take)
    moreover have "last (take ?n ?bs) = ?bs ! (?n - 1)" using c(1) False by (intro last_take_nth) auto
    moreover have "take (Suc (length ?w)) (?bs ! (?n - 1) # blocks t) = ?bs ! (?n - 1) # ?w"
      by (metis take_Suc_Cons takeWhile_eq_take)
    then have "chain_linked cp J (?bs ! (?n - 1) # ?w)"
      using chain_linked_take [OF c(2), of "Suc (length ?w)"] False by simp
    ultimately have "chain_linked cp J (take ?n ?bs @ ?w)" by (rule chain_linked_glue [OF _ ne])
    then show ?thesis using s' False ne hd ok(1) by (simp add: chain_ok_def)
  qed
  moreover from sync_in_step [OF ok(1,2) temp_links_ok [OF ok(3)]] sync
  have "in_step s'" "tempchain s' = None" by auto
  ultimately show ?thesis
    using len by (simp add: node_inv_def chain_ok_def temp_links_def in_step_def)
qed

lemma begin_inv:
  assumes inv: "node_inv cp J (s, None)" and step: "mine_begin cp J release now s = Ok (nb, s')"
  shows "node_inv cp J (s', Some nb)"
proof -
  have ne: "blocks (blockchain s) \<noteq> []" using inv by (simp add: node_inv_def in_step_def)
  from step obtain d where d: "getAdjustedDifficulty release (blockchain s) = Ok d"
    by (auto simp: mine_begin_def)
  from mine_begin_eq [OF ne d, of cp J now] step
  have s': "s' = s\<lparr>app_miner := setDifficulty d (app_miner s), blockchain := (blockchain s)\<lparr>txQueue := []\<rparr>\<rparr>"
    and "built_on s nb" by (auto simp: built_on_def)
  then have "node_inv cp J (s, Some nb)" using inv by (simp add: node_inv_def)
  then show ?thesis unfolding s' by (rule node_inv_mono [rotated -1]) simp_all
qed

lemma reQueue_blocks:
  assumes "reQueueTransactions b c = Ok (n, c')"
  shows "blocks c' = blocks c"
proof -
  have "case (n, c') of (k, c') \<Rightarrow> blocks c' = blocks c"
    by (rule rfold_invariant [OF assms [unfolded reQueueTransactions_def]])
      (auto simp: rbind_Ok_iff split: if_splits)
  then show ?thesis by simp
qed

lemma appended_inv:
  assumes inv: "node_inv cp J (s, p)" and b: "built_on s b"
    and "ValidHash cp J b" and "block_storable b" and len: "length (blocks (blockchain s)) + 1 < 2 ^ 32"
  shows "addNewBlock cp J b (blockchain s) = Ok (True, (blockchain s)\<lparr>blocks := blocks (blockchain s) @ [b]\<rparr>)"
    and "node_inv cp J (s\<lparr>blockchain := (blockchain s)\<lparr>blocks := blocks (blockchain s) @ [b]\<rparr>,
      database := db_write b (database s)\<rparr>, None)"
proof -
  let ?c = "blockchain s"
  have ok: "chain_ok cp J ?c" and st: "in_step s" and tl: "temp_links cp J s"
    using inv by (simp_all add: node_inv_def)
  note ext = mined_extends [OF ok, of b]
  show "addNewBlock cp J b ?c = Ok (True, ?c\<lparr>blocks := blocks ?c @ [b]\<rparr>)"
    using ext(1) b assms(3) by (simp add: built_on_def)
  have "chain_ok cp J (?c\<lparr>blocks := blocks ?c @ [b]\<rparr>)"
    using ext(2) b assms(3) ok len by (simp add: built_on_def chain_ok_def)
  moreover have "db_stored (db_write b (database s)) = Ok (blocks ?c @ [b])"
    using st assms(4) by (auto simp: in_step_def intro: store.stored_write)
  moreover have "temp_links cp J (s\<lparr>blockchain := ?c\<lparr>blocks := blocks ?c @ [b]\<rparr>, database := db_write b (database s)\<rparr>)"
    using tl by (auto simp: temp_links_def Let_def nth_append split: option.splits)
  ultimately show "node_inv cp J (s\<lparr>blockchain := ?c\<lparr>blocks := blocks ?c @ [b]\<rparr>, database := db_write b (database s)\<rparr>, None)"
    using st assms(4) by (simp add: node_inv_def in_step_def)
qed

lemma end_inv:
  assumes inv: "node_inv cp J (s, Some nb)" and mined: "mineBlock cp J (app_miner s) env nb = Some (Ok (r, b))"
    and "keep_stable env" and "block_storable b" and nc: "no_collision s nb" and fin: "mine_end cp J r b s = Ok (sent, s')"
    and "length (blocks (blockchain s)) + 1 < 2 ^ 32" and len: "length (blocks (blockchain s')) < 2 ^ 32"
  shows "node_inv cp J (s', None)"
proof (cases "r = MINE_SUCCESS")
  case True
  let ?c = "(blockchain s)\<lparr>blocks := blocks (blockchain s) @ [b]\<rparr>"
  define s1 where "s1 = s\<lparr>blockchain := ?c, database := db_write b (database s)\<rparr>"
  note ms = mineBlock_success [OF mined [unfolded True] assms(3)]
  then have b: "index b = index nb" "previousHash b = previousHash nb" by (auto simp: setMinedData_def)
  show ?thesis
  proof (cases "previousHash b = hash (last (blocks (blockchain s)))")
    case link: True
    then have "built_on s b" using nc b by (simp add: built_on_def no_collision_def)
    note app = appended_inv [OF inv this ms(1) assms(4,7)]
    from fin app(1) True obtain r' where "syncBlockchain cp J s1 = Ok (r', s')"
      by (auto simp: mine_end_def s1_def Let_def rbind_Ok_iff split: if_splits)
    moreover have "node_inv cp J (s1, None)" using app(2) by (simp add: s1_def)
    ultimately show ?thesis using sync_inv len by blast
  next
    case False
    have "blocks (blockchain s) \<noteq> []" using inv by (simp add: node_inv_def in_step_def)
    then have "addNewBlock cp J b (blockchain s) = Ok (False, blockchain s)" using False by (simp add: addNewBlock_eq)
    then have "s' = s\<lparr>miningDone := True\<rparr>" using fin True by (simp add: mine_end_def)
    then show ?thesis using node_inv_drop [OF inv] by (auto intro: node_inv_mono [rotated -1])
  qed
next
  case False
  with fin obtain n c r' where c: "reQueueTransactions b (blockchain s) = Ok (n, c)"
    and "syncBlockchain cp J (s\<lparr>blockchain := c\<rparr>) = Ok (r', s')"
    by (auto simp: mine_end_def rbind_Ok_iff)
  moreover have "node_inv cp J (s\<lparr>blockchain := c\<rparr>, None)"
    using node_inv_drop [OF inv] reQueue_blocks [OF c] by (auto intro: node_inv_mono [rotated -1])
  ultimately show ?thesis using sync_inv len by blast
qed

text \<open>What a message can change: it may cache a chain, and an idle node then synchronises.\<close>

definition caches :: "cryptopp \<Rightarrow> ('j, 'b) json_wire_scheme \<Rightarrow> string \<Rightarrow> MinerApp \<Rightarrow> MinerApp \<Rightarrow> bool" where
  "caches cp W raw s s1 \<longleftrightarrow> (\<exists>json temp ts. j_parse W raw = Some json \<and> chain_message W json
     \<and> at_get W (\<lambda>j. Blockchain_from_json W j empty_Blockchain) json ''blocks'' = Ok temp
     \<and> chain_size temp \<noteq> 0 \<and> isValidChain cp W temp = Ok True \<and> handleChainResponse W temp s = Ok (ts, s1))"

lemma handleChainResponse_state:
  assumes "handleChainResponse W temp s = Ok (ts, s1)" and ok: "chain_ok cp J (blockchain s)"
  defines "n \<equiv> unat (index (hd (blocks temp)))"
  shows "s1 = s \<or> s1 = s\<lparr>tempchain := Some temp\<rparr> \<and> (n = 0 \<or> n \<le> length (blocks (blockchain s))
      \<and> previousHash (hd (blocks temp)) = hash (blocks (blockchain s) ! (n - 1)))"
proof (cases "index (hd (blocks temp)) = 0")
  case True
  with assms(1) show ?thesis
    by (auto simp: handleChainResponse_def chain_front_def vec_front_Ok_iff rbind_Ok_iff n_def)
next
  case False
  then have pred: "unat (index (hd (blocks temp)) - 1) = n - 1" "0 < n"
    unfolding n_def by (simp_all add: unat_minus_one unat_gt_0)
  have ne: "blocks (blockchain s) \<noteq> []" using ok by (simp add: chain_ok_def)
  from False assms(1) have "s1 = s \<or> s1 = s\<lparr>tempchain := Some temp\<rparr>
      \<and> \<not> index (hd (blocks temp)) > index (last (blocks (blockchain s))) + 1
      \<and> previousHash (hd (blocks temp)) = hash (blocks (blockchain s) ! (n - 1))"
    by (auto simp: handleChainResponse_def chain_front_def vec_front_Ok_iff rbind_Ok_iff chain_back_def
        vec_back_Ok_iff Let_def chain_at_def vec_at_Ok_iff pred split: if_splits)
  then show ?thesis
    by (auto simp: word_less_nat_alt chain_ok_last(3) [OF ok] n_def)
qed

lemma sync_if_idle_cases:
  assumes "sync_if_idle cp J (ts, s) = Ok (ts', s')"
  shows "if miningDone s then \<exists>r. syncBlockchain cp J s = Ok (r, s') else s' = s"
  using assms by (auto simp: sync_if_idle_def rbind_Ok_iff split: if_splits)

lemma handleResponse_cases:
  assumes "handleResponse cp W reset_enable json s = Ok (sent, s')" and "j_parse W raw = Some json"
    and "at_get W (j_get_string W) json ''message-type'' = Ok ''response''"
  shows "\<exists>s1. (s1 = s \<or> caches cp W raw s s1)
    \<and> (s' = s1 \<or> miningDone s1 \<and> (\<exists>r. syncBlockchain cp W s1 = Ok (r, s')))"
proof -
  from assms(1) obtain s1 ts where s1: "s1 = s \<or> caches cp W raw s s1"
    and "s' = s1 \<or> sync_if_idle cp W (ts, s1) = Ok (sent, s')"
    unfolding handleResponse_def caches_def chain_message_def
    by (auto simp: rbind_Ok_iff assms(2,3) split: if_splits)
  then show ?thesis using sync_if_idle_cases by metis
qed

lemma onChainMessage_cases:
  assumes "onChainMessage cp W reset_enable raw s = Ok (sent, s')"
  shows "\<exists>s1. (s1 = s \<or> caches cp W raw s s1)
    \<and> (s' = s1 \<or> miningDone s1 \<and> (\<exists>r. syncBlockchain cp W s1 = Ok (r, s')))"
proof -
  from assms consider "s' = s"
    | json where "j_parse W raw = Some json" "handleResponse cp W reset_enable json s = Ok (sent, s')"
      "at_get W (j_get_string W) json ''message-type'' = Ok ''response''"
    by (auto simp: onChainMessage_def handleError_def Let_def rbind_Ok_iff split: option.splits if_splits)
  then show ?thesis by cases (blast, intro handleResponse_cases)
qed

lemma cached_inv:
  assumes inv: "node_inv cp W (s, p)" and "sound_message cp W raw" and "caches cp W raw s s1"
  shows "node_inv cp W (s1, p)" and "miningDone s1 = miningDone s"
proof -
  obtain temp ts where t: "sound_chain cp W (blocks temp)" "chain_size temp \<noteq> 0" "isValidChain cp W temp = Ok True"
    and h: "handleChainResponse W temp s = Ok (ts, s1)"
    using assms(2,3) by (auto simp: caches_def sound_message_def)
  from t have lk: "chain_linked cp W (blocks temp)" and ne: "blocks temp \<noteq> []"
    by (auto simp: isValidChain_eq chain_size_def vec_size_def sound_chain_def)
  have "chain_ok cp W (blockchain s)" using inv by (simp add: node_inv_def)
  from handleChainResponse_state [OF h this] inv t(1) lk ne
  show "node_inv cp W (s1, p)" and "miningDone s1 = miningDone s"
    by (auto simp: node_inv_def temp_links_def in_step_def built_on_def Let_def)
qed

lemma sync_flags:
  assumes "syncBlockchain cp J s = Ok (r, s')"
  shows "miningDone s' = miningDone s \<and> app_done s' = app_done s"
proof (cases "tempchain s")
  case None
  with assms show ?thesis by (simp add: sync_none)
next
  case (Some temp)
  from assms obtain tfront where "chain_front temp = Ok tfront" by (auto simp: syncBlockchain_def Some rbind_Ok_iff)
  then show ?thesis
    using assms by (cases "index tfront = 0") (auto simp: syncBlockchain_def Some rbind_Ok_iff simp del: word_le_less_eq split: if_splits)
qed

lemmas sync_done = sync_flags [THEN conjunct1]
lemmas sync_exit = sync_flags [THEN conjunct2]

lemma message_inv:
  assumes inv: "node_inv cp W (s, p)" and "onChainMessage cp W reset_enable raw s = Ok (sent, s')"
    and "sound_message cp W raw" and "length (blocks (blockchain s')) < 2 ^ 32"
  shows "node_inv cp W (s', p)"
proof -
  obtain s1 where "s1 = s \<or> caches cp W raw s s1"
    and s': "s' = s1 \<or> miningDone s1 \<and> (\<exists>r. syncBlockchain cp W s1 = Ok (r, s'))"
    using onChainMessage_cases [OF assms(2)] by blast
  with cached_inv [OF inv assms(3)] inv have s1: "node_inv cp W (s1, p)" by auto
  from s' show ?thesis
  proof (elim disjE conjE exE)
    fix r assume done_: "miningDone s1" and sync: "syncBlockchain cp W s1 = Ok (r, s')"
    have "node_inv cp W (s', None)" by (rule sync_inv [OF node_inv_drop [OF s1] sync assms(4)])
    then show ?thesis using done_ sync_done [OF sync] by (simp add: node_inv_def)
  qed (use s1 in simp)
qed

lemma node_step_inv:
  assumes "node_step cp W release sp sp'" and "node_inv cp W sp"
  shows "node_inv cp W sp'"
  using assms
proof (induction rule: node_step.induct)
  case (begin_round s now nb s')
  then show ?case by (blast intro: begin_inv)
next
  case (end_round s env nb r b sent s')
  then show ?case by (blast intro: end_inv)
next
  case (message reset_enable raw s sent s' p)
  then show ?case by (blast intro: message_inv)
next
  case (queue_tx s p tx)
  then show ?case by (auto simp: queueTransaction_def intro: node_inv_mono [rotated -1])
next
  case (start s)
  then show ?case by (auto intro: node_inv_mono [rotated -1])
next
  case (stop s p)
  then show ?case by (auto simp: stopMining_def intro: node_inv_mono [rotated -1])
next
  case (exit s p)
  then show ?case by (auto simp: signalExit_def stopMining_def intro: node_inv_mono [rotated -1])
qed

lemma node_steps_inv:
  assumes "node_steps cp W release sp sp'" and "node_inv cp W sp"
  shows "node_inv cp W sp'"
  using assms by (induction rule: rtranclp_induct) (auto intro: node_step_inv)

subsection \<open>From the start on\<close>

text \<open>
  The chain file at the start: there is none, or it holds a chain that begins with a block of index 0. That the chain is linked is
  checked by the start itself, and that its blocks can be stored again follows from the format.
\<close>

definition sound_file :: "Block \<Rightarrow> string option \<Rightarrow> bool" where
  "sound_file genesis content \<longleftrightarrow> (case content of None \<Rightarrow> block_storable genesis
     | Some raw \<Rightarrow> (case load_blocks raw of Inl e \<Rightarrow> True
         | Inr bs \<Rightarrow> bs \<noteq> [] \<and> index (hd bs) = 0 \<and> length bs < 2 ^ 32))"

lemma initialize_sound:
  assumes ini: "db_initialize cp J genesis st c db = Ok (c', db')" and "blocks c = []"
    and "sound_file genesis (dbfile db)" and "index genesis = 0"
  shows "chain_ok cp J c'" and "list_all block_storable (blocks c')" and "db_stored db' = Ok (blocks c')"
proof -
  have "load_blocks (write_block genesis) = Ok [genesis]" if "dbfile db = None"
    using load_blocks_write [of "[genesis]" "[]"] assms(3) that by (simp add: sound_file_def)
  then obtain raw bs where raw: "dbfile db' = Some raw" "load_blocks raw = Ok bs" "bs \<noteq> []" "index (hd bs) = 0" "length bs < 2 ^ 32"
      "c' = c\<lparr>blocks := bs\<rparr>" "isValidChain cp J c' = Ok True"
    using ini assms(2-4)
    by (cases "dbfile db") (auto simp: db_initialize_def db_write_def append_file_def sound_file_def Let_def rbind_Ok_iff split: if_splits option.splits)
  then show "chain_ok cp J c'" by (simp add: chain_ok_def isValidChain_eq)
  show "list_all block_storable (blocks c')" using load_blocks_storable [OF raw(2)] raw(6) by simp
  show "db_stored db' = Ok (blocks c')" using raw by (simp add: db_stored_def)
qed

lemma index_genesisBlock [simp]: "index (genesisBlock cp J now gendata s) = 0"
  by (simp add: genesisBlock_def new_Block_def Let_def)

lemma start_inv:
  assumes start: "app_run cp J miner_address autostart now gendata idx s0 = Ok (Some s)"
    and file_: "sound_file (genesisBlock cp J now gendata (s0\<lparr>rewardAddress := miner_address\<rparr>)) (dbfile (database s0))"
    and "blocks (blockchain s0) = []" and "tempchain s0 = None"
  shows "node_inv cp J (s, None)"
proof -
  let ?g = "genesisBlock cp J now gendata (s0\<lparr>rewardAddress := miner_address\<rparr>)"
  obtain c db where ini: "db_initialize cp J ?g idx (blockchain s0) (database s0) = Ok (c, db)"
    and s: "blockchain s = c" "database s = db" "tempchain s = tempchain s0"
    using start by (auto simp: app_run_def Let_def rbind_Ok_iff split: if_splits)
  note i = initialize_sound [OF ini assms(3) file_ index_genesisBlock]
  then have "in_step s" by (simp add: in_step_def s chain_ok_def)
  with i(1) assms(4) show ?thesis by (simp add: node_inv_def temp_links_def s)
qed

lemma first_start:
  assumes "app_run cp J miner_address autostart now gendata None s0 = Ok (Some s)"
    and "dbfile (database s0) = None" and "blocks (blockchain s0) = []"
    and "block_storable (genesisBlock cp J now gendata (s0\<lparr>rewardAddress := miner_address\<rparr>))"
  shows "blocks (blockchain s) = [genesisBlock cp J now gendata (s0\<lparr>rewardAddress := miner_address\<rparr>)]"
proof -
  let ?g = "genesisBlock cp J now gendata (s0\<lparr>rewardAddress := miner_address\<rparr>)"
  have "load_blocks (write_block ?g) = Ok [?g]" using load_blocks_write [of "[?g]" "[]"] assms(4) by simp
  with assms show ?thesis
    by (auto simp: app_run_def Let_def rbind_Ok_iff db_initialize_def db_write_def append_file_def split: if_splits)
qed

subsection \<open>Main results\<close>

text \<open>
  Whenever memory and disk agree and the chain is linked, starting again from the same
  database, with whatever genesis block the callback would offer, gives the same chain, with
  an empty queue, and leaves the file unchanged.
\<close>

theorem node_restart:
  assumes "in_step s" and "chain_linked cp J (blocks (blockchain s))" and "length (blocks (blockchain s)) < 2 ^ 32"
  shows "db_initialize cp J genesis None empty_Blockchain (database s)
    = Ok (empty_Blockchain\<lparr>blocks := blocks (blockchain s)\<rparr>, database s)"
proof -
  obtain raw where "dbfile (database s) = Some raw" and "load_blocks raw = Ok (blocks (blockchain s))"
    using assms(1) by (auto simp: in_step_def db_stored_def split: option.splits)
  then show ?thesis
    using assms(2,3) by (simp add: db_initialize_def isValidChain_eq empty_Blockchain_def)
qed

text \<open>
  C1: a node can be restarted at any time. Let it be started without a chain file, or with a file whose chain begins with a block of index
  0. After any sequence of steps (rounds of mining, messages, queued transactions, starting and stopping the miner, messages during
  a search included) the chain in memory is
  linked and starts at index 0, the block being mined continues its last block unless mining was stopped meanwhile, and a restart
  from the file, with whatever genesis block the callback would offer, gives exactly the
  blocks in memory and leaves the file unchanged. The messages are arbitrary, genuine or not, with two exceptions, which the code does
  not check: an update, a response with blocks that do not start at index 0, whose first block has not the hash it claims
  (theorem \<open>unchecked_first_block\<close>), and an update in which two blocks have the same hash. Blocks exceed neither the file format nor, in
  number, 32 bits.
\<close>

theorem node_lifecycle:
  assumes "app_run cp W miner_address autostart now gendata idx s0 = Ok (Some s)"
    and "sound_file (genesisBlock cp W now gendata (s0\<lparr>rewardAddress := miner_address\<rparr>)) (dbfile (database s0))"
    and "blocks (blockchain s0) = []" and "tempchain s0 = None"
    and "node_steps cp W release (s, None) (s', p)"
  shows "chain_ok cp W (blockchain s')
    \<and> (\<forall>nb. p = Some nb \<longrightarrow> \<not> miningDone s' \<longrightarrow> index nb = chain_size (blockchain s')
         \<and> previousHash nb = hash (last (blocks (blockchain s'))))
    \<and> db_initialize cp W genesis None empty_Blockchain (database s')
        = Ok (empty_Blockchain\<lparr>blocks := blocks (blockchain s')\<rparr>, database s')"
proof -
  have "node_inv cp W (s', p)"
    using node_steps_inv [OF assms(5) start_inv [OF assms(1-4)]] .
  then show ?thesis
    using node_restart [of s' cp W genesis] by (simp add: node_inv_def built_on_def chain_ok_def)
qed

definition sample_fresh :: MinerApp where
  "sample_fresh = \<lparr>uuid = ''id'', rewardAddress = [], database = \<lparr>dbfile = None\<rparr>, blockchain = empty_Blockchain,
     tempchain = None, app_done = False, miningDone = False, app_miner = \<lparr>m_difficulty = 1\<rparr>\<rparr>"

lemma sample_genesis_storable:
  "block_storable (genesisBlock sample_cp J now ''Gensis'' (sample_fresh\<lparr>rewardAddress := ''w''\<rparr>))"
  by (simp add: block_storable_def tx_storable_def txin_storable_def txout_storable_def point_storable_def
      short_def sample_fresh_def genesisBlock_def new_Block_def setMiner_def setData_def sample_hash_def mk_TxIn_def
      mk_TxOut_def CreateCoinbaseTransaction_def empty_Transaction_def GetTransactionId_def sample_cp_def Let_def
      CalculateBlockHash_def CalculateBlockHash_fields_def SHA256_def)

lemma sample_first_start:
  "\<exists>s. app_run sample_cp W ''w'' mine 5 ''Gensis'' None sample_fresh = Ok (Some s) \<and> miningDone s = (\<not> mine) \<and> \<not> app_done s"
proof -
  let ?g = "genesisBlock sample_cp W 5 ''Gensis'' (sample_fresh\<lparr>rewardAddress := ''w''\<rparr>)"
  have "load_blocks (write_block ?g) = Ok [?g]"
    using load_blocks_write [of "[?g]" "[]"] sample_genesis_storable [of W] by simp
  then show ?thesis
    by (simp add: app_run_def Let_def db_initialize_def db_write_def append_file_def isValidChain_eq
        sample_fresh_def empty_Blockchain_def)
qed

text \<open>
  A run: an idle node is sent the whole chain of a peer, which has only its genesis block, takes it over, and starts to mine on it.
\<close>

definition peer_chain :: Blockchain where
  "peer_chain = empty_Blockchain\<lparr>blocks := [genesisBlock sample_cp jval_lib 6 ''Gensis'' (sample_fresh\<lparr>rewardAddress := ''w''\<rparr>)]\<rparr>"

definition sample_response :: "('j, 'b) json_lib_scheme \<Rightarrow> Blockchain \<Rightarrow> 'j" where
  "sample_response J c = set_all J [(''message'', j_of_string J ''chain''), (''message-type'', j_of_string J ''response''),
     (''blocks'', Blockchain_to_json J c)]"

definition peer_wire :: "jval json_wire" where
  "peer_wire = jval_wire [''m'' \<mapsto> sample_response jval_lib peer_chain]"

lemma peer_wire_library: "json_library peer_wire"
  unfolding peer_wire_def by (rule json_library_wire)

lemma peer_wire_parse: "j_parse peer_wire ''m'' = Some (sample_response peer_wire peer_chain)"
  by (simp add: peer_wire_def sample_response_def jval_wire_fields set_all_def push_all_def Blockchain_to_json_def Block_to_json_def
      Transactions_to_json_def Transaction_to_json_def TxIns_to_json_def TxOuts_to_json_def TxIn_to_json_def TxOut_to_json_def
      TxOutPoint_to_json_def cong: option.case_cong)

lemma peer_chain_ok: "chain_ok sample_cp J peer_chain" "list_all block_storable (blocks peer_chain)"
    "blocks c = blocks peer_chain \<Longrightarrow> getAdjustedDifficulty False c = Ok 1"
proof -
  show "list_all block_storable (blocks peer_chain)" by (simp add: peer_chain_def sample_genesis_storable)
  show "chain_ok sample_cp J peer_chain" by (simp add: chain_ok_def peer_chain_def)
  show "getAdjustedDifficulty False c = Ok 1" if "blocks c = blocks peer_chain"
    using that by (simp add: peer_chain_def getAdjustedDifficulty_def chain_size_def vec_size_def chain_back_def vec_back_def BLOCK_INTERVAL_def
        genesisBlock_def new_Block_def setMiner_def setData_def Let_def)
qed

lemma peer_message_sound: "sound_message sample_cp peer_wire ''m''"
  using peer_chain_ok(1) [of peer_wire] peer_chain_ok(2)
  by (simp add: sound_message_def peer_wire_parse sample_response_def at_get_def json_library.at_set_all [OF peer_wire_library]
      json_library.contains_set_all [OF peer_wire_library] json_library.Blockchain_json [OF peer_wire_library] sound_chain_def chain_ok_def)

theorem node_lifecycle_witness:
  "\<exists>s s' nb. app_run sample_cp peer_wire ''w'' False 5 ''Gensis'' None sample_fresh = Ok (Some s)
     \<and> node_steps sample_cp peer_wire False (s, None) (s', Some nb)
     \<and> blocks (blockchain s') = blocks peer_chain \<and> previousHash nb = hash (last (blocks (blockchain s')))
     \<and> db_initialize sample_cp peer_wire default_Block None empty_Blockchain (database s')
        = Ok (empty_Blockchain\<lparr>blocks := blocks (blockchain s')\<rparr>, database s')"
proof -
  let ?step = "node_step sample_cp peer_wire False" and ?g = "genesisBlock sample_cp peer_wire 5 ''Gensis'' (sample_fresh\<lparr>rewardAddress := ''w''\<rparr>)"
  have fresh: "sound_file ?g (dbfile (database sample_fresh))" "blocks (blockchain sample_fresh) = []" "tempchain sample_fresh = None"
    using sample_genesis_storable [of peer_wire 5] by (simp_all add: sound_file_def sample_fresh_def empty_Blockchain_def)
  obtain s where s: "app_run sample_cp peer_wire ''w'' False 5 ''Gensis'' None sample_fresh = Ok (Some s)" "miningDone s" "\<not> app_done s"
    using sample_first_start [of peer_wire False] by auto
  have "chain_ok sample_cp peer_wire (blockchain s)" using start_inv [OF s(1) fresh] by (simp add: node_inv_def)
  from full_chain_message [OF peer_wire_library this s(2) peer_chain_ok(1,2) peer_wire_parse [unfolded sample_response_def], of False]
  obtain s1 where s1: "onChainMessage sample_cp peer_wire False ''m'' s = Ok ([], s1)" "blocks (blockchain s1) = blocks peer_chain"
      "miningDone s1" "\<not> app_done s1" using s(3) by auto
  define s2 where "s2 = s1\<lparr>miningDone := False\<rparr>"
  have bs: "blocks (blockchain s2) = blocks peer_chain" by (simp add: s2_def s1)
  then obtain nb s' where nb: "mine_begin sample_cp peer_wire False 7 s2 = Ok (nb, s')" "blocks (blockchain s') = blocks peer_chain"
      "miningDone s' = miningDone s2"
    using mine_begin_eq [of s2 False 1 sample_cp peer_wire 7] peer_chain_ok(3) [OF bs] by (auto simp: peer_chain_def)
  have "?step (s, None) (s1, None)"
    by (rule message [OF s1(1) peer_message_sound]) (simp add: s1 peer_chain_def)
  moreover have "?step (s1, None) (s2, None)" unfolding s2_def by (rule start [OF s1(3)])
  moreover have "?step (s2, None) (s', Some nb)" by (rule begin_round [OF _ _ nb(1)]) (simp_all add: s2_def s1)
  ultimately have steps: "node_steps sample_cp peer_wire False (s, None) (s', Some nb)"
    by (meson converse_rtranclp_into_rtranclp rtranclp.rtrancl_refl)
  have go: "\<not> miningDone s'" by (simp add: nb s2_def)
  show ?thesis using node_lifecycle [OF s(1) fresh steps, of default_Block] s(1) steps go nb(2) by blast
qed

end
