(* ===== verification/Ash_Utils.thy ===== *)
theory Ash_Utils
  imports Ash_Prelude "HOL-Library.Char_ord" "HOL-Library.List_Lexorder"
begin

section \<open>Utilities\<close>

text \<open>
  \<^verbatim>\<open>src/src/AshUtils.cpp\<close>: recognising and converting booleans, filling in page templates and the
  default locations of files, with the parts of Boost they call as a parameter. A \<^verbatim>\<open>std::map\<close>
  with strings as keys, used for dictionaries here and for the table of peers elsewhere, is an
  association list in the order of its keys.

  The main result is that \<^verbatim>\<open>DoDictionary\<close>, which replaces one key after the other
  in the whole text, fills in a well-formed template as if all keys were replaced at once.
\<close>

subsection \<open>Ordered maps\<close>

type_synonym 'v smap = "(string \<times> 'v) list"

text \<open>\<^verbatim>\<open>m[k] = v\<close>, which is also what \<^verbatim>\<open>insert_or_assign\<close> does.\<close>

fun smap_set :: "string \<Rightarrow> 'v \<Rightarrow> 'v smap \<Rightarrow> 'v smap" where
  "smap_set k v [] = [(k, v)]"
| "smap_set k v ((k', v') # m) =
     (if k = k' then (k, v) # m else if k < k' then (k, v) # (k', v') # m else (k', v') # smap_set k v m)"

definition smap_ok :: "'v smap \<Rightarrow> bool" where
  "smap_ok m = sorted_wrt (<) (map fst m)"

lemma smap_ok_simps [simp]:
  "smap_ok []" "smap_ok ((k, v) # m) \<longleftrightarrow> (\<forall>k' \<in> fst ` set m. k < k') \<and> smap_ok m"
  by (auto simp: smap_ok_def)

lemma smap_set_keys [simp]: "fst ` set (smap_set k v m) = insert k (fst ` set m)"
proof (induction m)
  case (Cons a m)
  then show ?case by (cases a) auto
qed simp

lemma smap_ok_set [simp]: "smap_ok m \<Longrightarrow> smap_ok (smap_set k v m)"
proof (induction m)
  case (Cons a m)
  obtain k' v' where a: "a = (k', v')" by fastforce
  with Cons.prems have m: "smap_ok m" "\<forall>x \<in> fst ` set m. k' < x" by auto
  consider "k = k'" | "k < k'" | "k' < k" by (cases k k' rule: linorder_cases) auto
  then show ?case
  proof cases
    case 2
    moreover have "\<forall>x \<in> fst ` set m. k < x" using 2 m(2) by (meson less_trans)
    ultimately show ?thesis using m by (simp add: a)
  next
    case 3
    then have "\<not> k < k'" "k \<noteq> k'" by auto
    with 3 m Cons.IH show ?thesis by (simp add: a)
  qed (use m in \<open>simp add: a\<close>)
qed simp

lemma smap_ok_distinct: "smap_ok m \<Longrightarrow> distinct (map fst m)"
  by (induction m) (auto simp: smap_ok_def)

lemma map_of_smap_set [simp]: "smap_ok m \<Longrightarrow> map_of (smap_set k v m) = (map_of m)(k \<mapsto> v)"
  by (induction m) (auto simp: fun_eq_iff)

subsection \<open>What is used of Boost\<close>

text \<open>
  \<open>b_lex_u32\<close> and its companions are \<^verbatim>\<open>boost::lexical_cast\<close> from a text to an integer type,
  nothing where it throws \<^verbatim>\<open>bad_lexical_cast\<close>; a 32-bit signed value is given by its bit pattern.
  \<open>b_replace_all s k v\<close> is the text that \<^verbatim>\<open>boost::replace_all(s, k, v)\<close> leaves in \<open>s\<close>.
\<close>

record boost_lib =
  b_iequals :: "string \<Rightarrow> string \<Rightarrow> bool"
  b_lex_u32 :: "string \<Rightarrow> u32 option"
  b_lex_u64 :: "string \<Rightarrow> u64 option"
  b_lex_i32 :: "string \<Rightarrow> u32 option"
  b_replace_all :: "string \<Rightarrow> string \<Rightarrow> string \<Rightarrow> string"
  b_trim :: "string \<Rightarrow> string"

text \<open>
  The documented behaviour. Comparison ignores the case of the ASCII letters. A text is an
  integer when it is an optional sign and at least one digit; a value that does not fit is
  refused, and for unsigned types a minus sign negates modulo the width, as it does for
  stream extraction. Replacement goes from left to right over non-overlapping matches
  and does not look into replaced text; trimming removes white space at both ends.
\<close>

definition upcase :: "char \<Rightarrow> char" where
  "upcase c = (if CHR ''a'' \<le> c \<and> c \<le> CHR ''z'' then char_of (of_char c - 32 :: nat) else c)"

definition isdigit :: "char \<Rightarrow> bool" where
  "isdigit c = (CHR ''0'' \<le> c \<and> c \<le> CHR ''9'')"

definition isspace :: "char \<Rightarrow> bool" where
  "isspace c = (c \<in> {CHR '' '', CHR 0x09, CHR 0x0A, CHR 0x0B, CHR 0x0C, CHR 0x0D})"

definition digits :: "string \<Rightarrow> bool" where
  "digits s = (s \<noteq> [] \<and> list_all isdigit s)"

definition scan_digits :: "nat \<Rightarrow> string \<Rightarrow> nat option" where
  "scan_digits m s = (if digits s \<and> digits_value 0 s < m then Some (digits_value 0 s) else None)"

definition negative :: "string \<Rightarrow> bool" where
  "negative s = (s \<noteq> [] \<and> hd s = CHR ''-'')"

definition unsigned_part :: "string \<Rightarrow> string" where
  "unsigned_part s = (if s \<noteq> [] \<and> hd s \<in> {CHR ''-'', CHR ''+''} then tl s else s)"

definition scan_unsigned :: "string \<Rightarrow> 'a :: len word option" where
  "scan_unsigned s = map_option (\<lambda>n. if negative s then - of_nat n else of_nat n)
     (scan_digits (2 ^ LENGTH('a)) (unsigned_part s))"

definition scan_signed :: "string \<Rightarrow> 'a :: len word option" where
  "scan_signed s = map_option (\<lambda>n. if negative s then - of_nat n else of_nat n)
     (scan_digits (if negative s then 2 ^ (LENGTH('a) - 1) + 1 else 2 ^ (LENGTH('a) - 1)) (unsigned_part s))"

fun subst_all :: "string \<Rightarrow> string \<Rightarrow> string \<Rightarrow> string" where
  "subst_all k v [] = []"
| "subst_all k v (c # cs) =
     (if k \<noteq> [] \<and> take (length k) (c # cs) = k then v @ subst_all k v (drop (length k) (c # cs))
      else c # subst_all k v cs)"

definition trimmed :: "string \<Rightarrow> string" where
  "trimmed s = rev (dropWhile isspace (rev (dropWhile isspace s)))"

locale boost_library =
  fixes B :: boost_lib
  assumes iequals: "b_iequals B s t \<longleftrightarrow> map upcase s = map upcase t"
    and lex_u32: "b_lex_u32 B s = scan_unsigned s"
    and lex_u64: "b_lex_u64 B s = scan_unsigned s"
    and lex_i32: "b_lex_i32 B s = scan_signed s"
    and replace_all: "b_replace_all B s k v = subst_all k v s"
    and trim: "b_trim B s = trimmed s"

text \<open>A reference instance.\<close>

definition boost_std :: boost_lib where
  "boost_std = \<lparr>b_iequals = (\<lambda>s t. map upcase s = map upcase t), b_lex_u32 = scan_unsigned,
     b_lex_u64 = scan_unsigned, b_lex_i32 = scan_signed, b_replace_all = (\<lambda>s k v. subst_all k v s),
     b_trim = trimmed\<rparr>"

interpretation boost_std: boost_library boost_std
  by unfold_locales (simp_all add: boost_std_def)

subsection \<open>Texts, numbers and booleans\<close>

text \<open>
  \<^verbatim>\<open>std::isdigit\<close> is undefined for the negative values that characters above 127 have where
  \<^verbatim>\<open>char\<close> is signed. The search looks at the characters up to the first that is no digit.
\<close>

fun all_isdigit :: "string \<Rightarrow> bool result" where
  "all_isdigit [] = Ok True"
| "all_isdigit (c # cs) =
     (if (128 :: nat) \<le> of_char c then Err UndefinedBehaviour
      else if isdigit c then all_isdigit cs else Ok False)"

definition isNumeric :: "string \<Rightarrow> bool result" where
  "isNumeric s = (if s = [] then Ok False else all_isdigit s)"

definition trueStrings :: "string list" where
  "trueStrings = [''true'', ''on'', ''1'']"

definition falseStrings :: "string list" where
  "falseStrings = [''false'', ''off'', ''0'']"

definition isBoolean :: "boost_lib \<Rightarrow> string \<Rightarrow> bool" where
  "isBoolean B s = list_ex (\<lambda>val. b_iequals B val s) (trueStrings @ falseStrings)"

definition convertToBool :: "boost_lib \<Rightarrow> string \<Rightarrow> bool result" where
  "convertToBool B s =
     (if list_ex (\<lambda>val. b_iequals B val s) trueStrings then Ok True
      else if list_ex (\<lambda>val. b_iequals B val s) falseStrings then Ok False
      else Err (RuntimeError (''invalid value '' @ [CHR 0x27] @ s @ [CHR 0x27])))"

subsection \<open>Page templates\<close>

type_synonym Dictionary = "string smap"

definition DoDictionary :: "boost_lib \<Rightarrow> string \<Rightarrow> Dictionary \<Rightarrow> string" where
  "DoDictionary B source valmap = fold (\<lambda>(key, val) retval. b_replace_all B retval key val) valmap source"

subsection \<open>Platform and default locations\<close>

text \<open>
  What the preprocessor and the operating system provide: the platform, the home directory of the
  user (\<^verbatim>\<open>pw_dir\<close>), and on Windows the folders that \<^verbatim>\<open>SHGetFolderPathW\<close> finds, if it does.
\<close>

datatype platform = Windows | MacOS | Linux | OtherPlatform

record os_env =
  os_platform :: platform
  os_pw_dir :: string
  os_profile :: "string option"
  os_appdata :: "string option"

definition NotImplementedException :: "string \<Rightarrow> error" where
  "NotImplementedException funcname =
     LogicError (''Function '' @ [CHR 0x27] @ funcname @ [CHR 0x27] @ '' not yet implemented.'')"

definition getOsString :: "os_env \<Rightarrow> string" where
  "getOsString os = (case os_platform os of Windows \<Rightarrow> ''windows'' | MacOS \<Rightarrow> ''macos'' | Linux \<Rightarrow> ''linux''
     | OtherPlatform \<Rightarrow> ''unknown'')"

definition getWindowsFolder :: "string option \<Rightarrow> string result" where
  "getWindowsFolder path = (case path of Some p \<Rightarrow> Ok p
     | None \<Rightarrow> Err (RuntimeError ''could not retrieve user folder''))"

definition getUserFolder :: "os_env \<Rightarrow> string result" where
  "getUserFolder os = (if os_platform os = Windows then getWindowsFolder (os_profile os) else Ok (os_pw_dir os))"

definition getDataFolder :: "os_env \<Rightarrow> string result" where
  "getDataFolder os = (if os_platform os = Windows then getWindowsFolder (os_appdata os) else Ok (os_pw_dir os))"

text \<open>The text handed to the program that opens web pages, if any.\<close>

definition openBrowser :: "os_env \<Rightarrow> string \<Rightarrow> string option result" where
  "openBrowser os url_str =
     (if url_str = [] then Ok None
      else if os_platform os = OtherPlatform then Err (NotImplementedException ''openBrowser'')
      else Ok (Some url_str))"

definition PATH_SEPERATOR :: "os_env \<Rightarrow> char" where
  "PATH_SEPERATOR os = (if os_platform os = Windows then CHR 0x5C else CHR ''/'')"

definition getDefaultConfigFile :: "os_env \<Rightarrow> string result" where
  "getDefaultConfigFile os =
     rbind (getUserFolder os) (\<lambda>folder. Ok (folder @ [PATH_SEPERATOR os] @ ''.ash_config''))"

definition getDefaultDatabaseFolder :: "os_env \<Rightarrow> string result" where
  "getDefaultDatabaseFolder os =
     rbind (getDataFolder os) (\<lambda>folder. Ok (folder @ [PATH_SEPERATOR os] @ ''AshChain''))"

definition getDefaultPeersFile :: "os_env \<Rightarrow> string result" where
  "getDefaultPeersFile os =
     rbind (getDefaultDatabaseFolder os) (\<lambda>folder. Ok (folder @ [PATH_SEPERATOR os] @ ''peers.txt''))"

subsection \<open>Numbers\<close>

lemma isdigit_less_128: "isdigit c \<Longrightarrow> (of_char c :: nat) < 128"
  by (auto simp: isdigit_def less_eq_char_def)

lemma isNumeric_digits: "digits s \<Longrightarrow> isNumeric s = Ok True"
proof -
  have "list_all isdigit s \<Longrightarrow> all_isdigit s = Ok True" for s
    by (induction s) (auto dest!: isdigit_less_128)
  then show "digits s \<Longrightarrow> isNumeric s = Ok True" by (simp add: isNumeric_def digits_def)
qed

lemma isdigit_digit_char: "d < 10 \<Longrightarrow> isdigit (digit_char d)"
  by (simp add: isdigit_def less_eq_char_def of_char_digit_char)

lemma digits_show_nat [simp]: "digits (show_nat n)"
proof -
  have "list_all isdigit (show_nat n)"
  proof (induction n rule: show_nat.induct)
    case (1 n)
    then show ?case by (subst show_nat.simps) (simp add: isdigit_digit_char)
  qed
  then show ?thesis by (simp add: digits_def)
qed

lemma digits_unsigned_part:
  assumes "digits s"
  shows "unsigned_part s = s" and "\<not> negative s"
  using assms by (cases s; auto simp: unsigned_part_def negative_def digits_def isdigit_def less_eq_char_def)+

lemma scan_digits_text:
  "digits s \<Longrightarrow> (scan_unsigned s :: 'a :: len word option)
    = (if digits_value 0 s < 2 ^ LENGTH('a) then Some (of_nat (digits_value 0 s)) else None)"
  by (simp add: scan_unsigned_def scan_digits_def digits_unsigned_part)

lemma scan_show_nat [simp]:
  "n < 2 ^ LENGTH('a) \<Longrightarrow> (scan_unsigned (show_nat n) :: 'a :: len word option) = Some (of_nat n)"
  by (simp add: scan_digits_text digits_value_show_nat)

text \<open>
  The two widths agree on what both accept, as long as the wider value is below \<open>2^32\<close>: a
  negative text denotes a wide value far above.
\<close>

lemma scan_widths:
  assumes wide: "scan_unsigned s = Some (w :: u64)" and narrow: "scan_unsigned s = Some (v :: u32)"
    and "unat w < 2 ^ 32"
  shows "unat v = unat w"
proof -
  define n where "n = digits_value 0 (unsigned_part s)"
  from wide narrow have n: "n < 2 ^ 32"
    "w = (if negative s then - of_nat n else of_nat n)" "v = (if negative s then - of_nat n else of_nat n)"
    by (auto simp: scan_unsigned_def scan_digits_def n_def split: if_splits)
  show ?thesis
  proof (cases "negative s \<and> n \<noteq> 0")
    case True
    have "(of_nat (2 ^ 64 - n) :: u64) = of_nat (2 ^ 64) - of_nat n" using n(1) by (intro of_nat_diff) simp
    then have "w = of_nat (2 ^ 64 - n)" using True n(2) by simp
    then have "unat w = 2 ^ 64 - n" using True by (simp add: unat_of_nat64 del: of_nat_diff)
    with assms(3) n(1) show ?thesis by simp
  next
    case False
    then show ?thesis using n unat_of_nat64 [of n] unat_of_nat32 [of n] by auto
  qed
qed

subsection \<open>Booleans\<close>

lemma convertToBool_iff:
  "convertToBool B s = Ok True \<longleftrightarrow> list_ex (\<lambda>val. b_iequals B val s) trueStrings"
  "isBoolean B s \<longleftrightarrow> (\<exists>b. convertToBool B s = Ok b)"
  by (auto simp: convertToBool_def isBoolean_def)

subsection \<open>Templates\<close>

text \<open>
  A template is a sequence of literal texts and keys. A key is a name of lower-case letters,
  digits and the two dashes, between percent signs. A text is loose if every percent sign
  in it is followed by a character that no name has, as in \<^verbatim>\<open>width: 100%;\<close>: such a percent sign begins no key, and as the text does not end with one,
  no key begins in it. In a well-formed template the literals are loose, and a literal that follows a key does not start with a
  character of names: otherwise the percent sign that ends one key could be taken for the start of another. The pages, the header and the
  footer of the program (\<^verbatim>\<open>src/src/html/\<close>) are of this form.
\<close>

datatype segment = Literal string | Key string

definition name_char :: "char \<Rightarrow> bool" where
  "name_char c = (CHR ''a'' \<le> c \<and> c \<le> CHR ''z'' \<or> isdigit c \<or> c = CHR ''-'' \<or> c = CHR ''_'')"

definition is_key :: "string \<Rightarrow> bool" where
  "is_key k = (2 < length k \<and> hd k = CHR ''%'' \<and> last k = CHR ''%'' \<and> list_all name_char (butlast (tl k)))"

definition after_key :: "segment list \<Rightarrow> bool" where
  "after_key segs = (case segs of [] \<Rightarrow> True | Literal s # _ \<Rightarrow> s \<noteq> [] \<and> \<not> name_char (hd s) | Key _ # _ \<Rightarrow> False)"

fun loose :: "string \<Rightarrow> bool" where
  "loose [] = True"
| "loose (c # s) = ((c = CHR ''%'' \<longrightarrow> s \<noteq> [] \<and> \<not> name_char (hd s)) \<and> loose s)"

lemma loose_append: "loose s \<Longrightarrow> loose t \<Longrightarrow> loose (s @ t)"
  by (induction s) (auto simp: hd_append)

lemma loose_plain: "CHR ''%'' \<notin> set s \<Longrightarrow> loose s"
  by (induction s) auto

fun template_ok :: "segment list \<Rightarrow> bool" where
  "template_ok [] = True"
| "template_ok (Literal s # segs) = (loose s \<and> template_ok segs)"
| "template_ok (Key k # segs) = (is_key k \<and> after_key segs \<and> template_ok segs)"

fun render :: "(string \<Rightarrow> string) \<Rightarrow> segment list \<Rightarrow> string" where
  "render f [] = []"
| "render f (Literal s # segs) = s @ render f segs"
| "render f (Key k # segs) = f k @ render f segs"

lemma not_name_percent [simp]: "\<not> name_char (CHR ''%'')"
  by (simp add: name_char_def isdigit_def less_eq_char_def)

lemma is_keyE:
  assumes "is_key k"
  obtains n where "k = CHR ''%'' # n @ [CHR ''%'']" and "n \<noteq> []" and "list_all name_char n"
proof -
  from assms obtain r where k: "k = CHR ''%'' # r" and r: "2 \<le> length r" "last r = CHR ''%''"
    "list_all name_char (butlast r)"
    by (cases k) (auto simp: is_key_def split: if_splits)
  have "r = butlast r @ [CHR ''%'']" using r append_butlast_last_id [of r] by (cases r) auto
  moreover have "butlast r \<noteq> []" using r(1) by (cases r) auto
  ultimately show ?thesis using k r(3) that by metis
qed

lemma names_no_percent: "list_all name_char n \<Longrightarrow> CHR ''%'' \<notin> set n"
  by (auto simp: list_all_iff)

lemma subst_literal:
  assumes "is_key k" and "loose s"
  shows "subst_all k v (s @ t) = s @ subst_all k v t"
  using assms(2)
proof (induction s)
  case (Cons c s)
  obtain n where k: "k = CHR ''%'' # n @ [CHR ''%'']" "n \<noteq> []" "list_all name_char n" using assms(1) by (rule is_keyE)
  then obtain a n' where n: "n = a # n'" "name_char a" by (cases n) auto
  have "take (length k) (c # s @ t) \<noteq> k"
  proof (cases s)
    case Nil
    then show ?thesis using Cons.prems k(1) by auto
  next
    case (Cons x s')
    then show ?thesis using Cons.prems k(1) n by auto
  qed
  with Cons.IH Cons.prems show ?case by auto
qed simp

lemma subst_same: "k \<noteq> [] \<Longrightarrow> subst_all k v (k @ t) = v @ subst_all k v t"
  by (cases k) simp_all

lemma names_percent_eq:
  assumes "list_all name_char n" and "list_all name_char n'" and "n @ CHR ''%'' # t = n' @ CHR ''%'' # t'"
  shows "n = n'"
  using assms
proof (induction n arbitrary: n')
  case Nil
  then show ?case by (cases n') auto
next
  case (Cons c n)
  then show ?case by (cases n') auto
qed

lemma subst_other:
  assumes k: "is_key k" and k': "is_key k'" and "k \<noteq> k'" and "t = [] \<or> \<not> name_char (hd t)"
  shows "subst_all k v (k' @ t) = k' @ subst_all k v t"
proof -
  obtain n where n: "k = CHR ''%'' # n @ [CHR ''%'']" "n \<noteq> []" "list_all name_char n" using k by (rule is_keyE)
  obtain m where m: "k' = CHR ''%'' # m @ [CHR ''%'']" "list_all name_char m" using k' by (rule is_keyE)
  have "take (length k) (k' @ t) \<noteq> k"
  proof
    assume "take (length k) (k' @ t) = k"
    then have "k' @ t = k @ drop (length k) (k' @ t)" by (metis append_take_drop_id)
    then have "m @ CHR ''%'' # t = n @ CHR ''%'' # drop (length k) (k' @ t)" using n(1) m(1) by simp
    then have "m = n" by (rule names_percent_eq [OF m(2) n(3)])
    with n(1) m(1) \<open>k \<noteq> k'\<close> show False by simp
  qed
  then have "subst_all k v (k' @ t) = CHR ''%'' # subst_all k v (m @ CHR ''%'' # t)" by (simp add: m(1))
  also have "\<dots> = CHR ''%'' # m @ subst_all k v (CHR ''%'' # t)"
    by (simp add: subst_literal [OF k loose_plain [OF names_no_percent [OF m(2)]]])
  also have "take (length k) (CHR ''%'' # t) \<noteq> k"
    using n assms(4) by (cases n; cases t) auto
  then have "subst_all k v (CHR ''%'' # t) = CHR ''%'' # subst_all k v t" by simp
  finally show ?thesis by (simp add: m(1))
qed

text \<open>Keys are either still there or replaced by a loose text.\<close>

definition filled :: "(string \<Rightarrow> string) \<Rightarrow> bool" where
  "filled f = (\<forall>k. f k = k \<or> loose (f k))"

lemma render_after_key: "after_key segs \<Longrightarrow> render f segs = [] \<or> \<not> name_char (hd (render f segs))"
  by (auto simp: after_key_def split: list.splits segment.splits)

lemma subst_render:
  assumes "is_key k" and "template_ok segs" and "filled f" and "f k = k"
  shows "subst_all k v (render f segs) = render (f(k := v)) segs"
  using assms(2)
proof (induction segs rule: template_ok.induct)
  case (2 s segs)
  then show ?case using assms(1) by (simp add: subst_literal)
next
  case (3 x segs)
  have ne: "k \<noteq> []" using assms(1) by (auto simp: is_key_def)
  show ?case
  proof (cases "x = k")
    case True
    then show ?thesis using 3 assms(4) ne by (simp add: subst_same)
  next
    case False
    show ?thesis
    proof (cases "f x = x")
      case True
      then show ?thesis
        using 3 False subst_other [OF assms(1) _ _ render_after_key, of x segs] by simp
    next
      case f: False
      then have "loose (f x)" using assms(3) by (auto simp: filled_def)
      then show ?thesis using 3 False assms(1) by (simp add: subst_literal)
    qed
  qed
qed simp

lemma fold_subst_render:
  assumes "template_ok segs" and "filled f" and "distinct (map fst d)"
    and "\<forall>(k, v) \<in> set d. is_key k \<and> f k = k \<and> loose v"
  shows "fold (\<lambda>(k, v). subst_all k v) d (render f segs)
    = render (\<lambda>k. case map_of d k of Some v \<Rightarrow> v | None \<Rightarrow> f k) segs"
  using assms(2-)
proof (induction d arbitrary: f)
  case (Cons kv d)
  obtain k v where kv: "kv = (k, v)" by fastforce
  have k: "is_key k" "f k = k" "loose v" using Cons.prems(3) by (auto simp: kv)
  have none: "map_of d k = None" using Cons.prems(2) by (simp add: kv map_of_eq_None_iff)
  have "filled (f(k := v))" using Cons.prems(1) k(3) by (simp add: filled_def)
  moreover have "\<forall>(k', v') \<in> set d. is_key k' \<and> (f(k := v)) k' = k' \<and> loose v'"
    using Cons.prems(2,3) by (fastforce simp: kv image_iff)
  ultimately have "fold (\<lambda>(k, v). subst_all k v) d (render (f(k := v)) segs)
      = render (\<lambda>x. case map_of d x of Some v \<Rightarrow> v | None \<Rightarrow> (f(k := v)) x) segs"
    using Cons.prems(2) by (intro Cons.IH) (auto simp: fun_upd_def)
  also have "(\<lambda>x. case map_of d x of Some v \<Rightarrow> v | None \<Rightarrow> (f(k := v)) x)
      = (\<lambda>x. case map_of (kv # d) x of Some v \<Rightarrow> v | None \<Rightarrow> f x)"
    using none by (auto simp: kv fun_eq_iff split: option.split)
  finally show ?case by (simp add: kv subst_render [OF k(1) assms(1) Cons.prems(1) k(2)] fun_upd_def)
qed simp

lemma DoDictionary_render:
  assumes "boost_library B" and "template_ok segs" and "smap_ok d" and "\<forall>(k, v) \<in> set d. is_key k \<and> loose v"
  shows "DoDictionary B (render (\<lambda>k. k) segs) d = render (\<lambda>k. case map_of d k of Some v \<Rightarrow> v | None \<Rightarrow> k) segs"
proof -
  have "(\<lambda>(key, val) retval. b_replace_all B retval key val) = (\<lambda>(k, v). subst_all k v)"
    by (auto simp: fun_eq_iff boost_library.replace_all [OF assms(1)])
  moreover have "filled (\<lambda>k. k)" by (simp add: filled_def)
  ultimately show ?thesis
    using fold_subst_render [OF assms(2) _ smap_ok_distinct [OF assms(3)], of "\<lambda>k. k"] assms(4)
    by (simp add: DoDictionary_def)
qed

text \<open>A template whose keys are all replaced by loose texts gives a loose text, which can be a value in turn.\<close>

fun keys_of :: "segment list \<Rightarrow> string list" where
  "keys_of [] = []"
| "keys_of (Literal s # segs) = keys_of segs"
| "keys_of (Key k # segs) = k # keys_of segs"

lemma loose_render: "template_ok segs \<Longrightarrow> \<forall>k \<in> set (keys_of segs). loose (f k) \<Longrightarrow> loose (render f segs)"
  by (induction segs rule: template_ok.induct) (auto intro: loose_append)

text \<open>
  C20: pages are filled in as if all keys were replaced at once. On the text of a well-formed
  template, with a dictionary whose names are keys and whose values are loose (no percent sign in them is followed by a letter, a digit, a dash
  or an underscore, and none is the last character),
  the sequence of replacements of \<open>DoDictionary\<close> gives the template with
  every key that the dictionary has replaced by its value and all other text unchanged. Percent signs in literals and values, such as those
  of style attributes, are allowed.
\<close>

theorem DoDictionary_simultaneous:
  assumes "boost_library B" and "template_ok segs" and "smap_ok d"
    and "\<forall>(k, v) \<in> set d. is_key k \<and> loose v"
  shows "DoDictionary B (render (\<lambda>k. k) segs) d
    = render (\<lambda>k. case map_of d k of Some v \<Rightarrow> v | None \<Rightarrow> k) segs"
  by (rule DoDictionary_render [OF assms])

theorem DoDictionary_simultaneous_witness:
  "DoDictionary boost_std (render (\<lambda>k. k) [Key ''%header_html%'', Literal ''<b width=100%>'', Key ''%block-id%'', Literal ''</b>'', Key ''%time%''])
      [(''%block-id%'', ''41''), (''%header_html%'', ''<td style=width:1%;>'')] = ''<td style=width:1%;><b width=100%>41</b>%time%''"
  using DoDictionary_simultaneous [OF boost_std.boost_library_axioms,
      of "[Key ''%header_html%'', Literal ''<b width=100%>'', Key ''%block-id%'', Literal ''</b>'', Key ''%time%'']"
        "[(''%block-id%'', ''41''), (''%header_html%'', ''<td style=width:1%;>'')]"]
  by (simp add: is_key_def name_char_def isdigit_def after_key_def less_eq_char_def)

end
