(* ===== verification/Ash_Peers.thy ===== *)
theory Ash_Peers
  imports Ash_Utils
begin

section \<open>The table of peers\<close>

text \<open>
  \<^verbatim>\<open>src/src/PeerManager.h\<close> and \<^verbatim>\<open>src/src/PeerManager.cpp\<close>: the peers read from a file, the state of the
  connection to each of them, the worker that reconnects, broadcasting, and the proxy
  that hides whether a connection was accepted or opened. Clients and connections of
  the web socket library are known by what the code does with them: a client has an endpoint, a
  time limit and may have been stopped; a connection is a number. The thread of a client ends
  once its client has been stopped, and joining a thread before that does not return, which is \<open>None\<close>.

  The events of the network are the steps of a relation. Its invariant shows that
  the assertion in \<^verbatim>\<open>broadcast\<close> holds, that reconnecting never waits for a thread that still runs, and
  that every peer that went offline is tried again.
\<close>

subsection \<open>State\<close>

datatype PeerState = OFFLINE | CONNECTING | CONNECTED

record WsClient =
  ws_endpoint :: string
  ws_timeout :: nat
  ws_stopped :: bool

text \<open>\<open>pd_worker\<close>: there is a thread that has not been joined.\<close>

record PeerData =
  pd_client :: "WsClient option"
  pd_connection :: "nat option"
  pd_worker :: bool
  pd_state :: PeerState

definition new_PeerData :: PeerData where
  "new_PeerData = \<lparr>pd_client = None, pd_connection = None, pd_worker = False, pd_state = OFFLINE\<rparr>"

record ReconnectWorker =
  rw_timeout :: nat
  rw_shutdown :: bool

type_synonym sent = "(nat \<times> string) list"

record PeerManager =
  pm_peers :: "PeerData smap"
  pm_worker :: ReconnectWorker
  pm_started :: bool
  pm_callback :: "(nat \<Rightarrow> sent) option"
  pm_port :: "u32 option"

definition ConnectionRetryTimeout :: "bool \<Rightarrow> nat" where
  "ConnectionRetryTimeout release = (if release then 60 else 10)"

definition new_ReconnectWorker :: "nat \<Rightarrow> ReconnectWorker" where
  "new_ReconnectWorker timeout = \<lparr>rw_timeout = timeout, rw_shutdown = False\<rparr>"

definition new_PeerManager :: "bool \<Rightarrow> PeerManager" where
  "new_PeerManager release =
     \<lparr>pm_peers = [], pm_worker = new_ReconnectWorker (ConnectionRetryTimeout release * 1000), pm_started = False,
      pm_callback = None, pm_port = None\<rparr>"

subsection \<open>Connection proxies\<close>

record ConnectionProxy =
  proxy_server :: "nat option"
  proxy_client :: "nat option"

definition server_proxy :: "nat \<Rightarrow> ConnectionProxy" where
  "server_proxy c = \<lparr>proxy_server = Some c, proxy_client = None\<rparr>"

definition client_proxy :: "nat \<Rightarrow> ConnectionProxy" where
  "client_proxy c = \<lparr>proxy_server = None, proxy_client = Some c\<rparr>"

definition proxy_send :: "ConnectionProxy \<Rightarrow> string \<Rightarrow> sent result" where
  "proxy_send p msg = (case proxy_server p of
       Some c \<Rightarrow> Ok [(c, msg)]
     | None \<Rightarrow> (case proxy_client p of None \<Rightarrow> Err AssertFailed | Some c \<Rightarrow> Ok [(c, msg)]))"

subsection \<open>Reading the peers file\<close>

text \<open>The lines that a loop over \<^verbatim>\<open>std::getline\<close> sees.\<close>

function getlines :: "string \<Rightarrow> string list" where
  "getlines [] = []"
| "getlines (c # cs) =
     takeWhile (\<lambda>c. c \<noteq> CHR 0x0A) (c # cs) # getlines (tl (dropWhile (\<lambda>c. c \<noteq> CHR 0x0A) (c # cs)))"
  by pat_completeness auto
termination
  by (relation "measure length") (auto simp: less_Suc_eq_le intro: le_trans [OF diff_le_self length_dropWhile_le])

text \<open>
  \<^verbatim>\<open>insert_or_assign(line, PeerData{})\<close>: replacing an entry destroys its thread object, which ends the
  program when the thread was not joined.
\<close>

definition assign_peer :: "string \<Rightarrow> PeerData smap \<Rightarrow> PeerData smap result" where
  "assign_peer name ps = (case map_of ps name of
       Some pd \<Rightarrow> if pd_worker pd then Err Terminate else Ok (smap_set name new_PeerData ps)
     | None \<Rightarrow> Ok (smap_set name new_PeerData ps))"

definition loadPeers :: "boost_lib \<Rightarrow> string option \<Rightarrow> PeerManager \<Rightarrow> PeerManager result" where
  "loadPeers B content m = (case content of
       None \<Rightarrow> Ok m
     | Some txt \<Rightarrow>
         rbind (rfold (\<lambda>line ps. if line \<noteq> [] then assign_peer (b_trim B line) ps else Ok ps) (getlines txt) (pm_peers m))
           (\<lambda>ps. Ok (m\<lparr>pm_peers := ps\<rparr>)))"

subsection \<open>Connecting\<close>

definition client_stopped :: "PeerData \<Rightarrow> bool" where
  "client_stopped pd = (case pd_client pd of None \<Rightarrow> False | Some c \<Rightarrow> ws_stopped c)"

definition stop_client :: "PeerData \<Rightarrow> PeerData" where
  "stop_client pd = pd\<lparr>pd_client := map_option (\<lambda>c. c\<lparr>ws_stopped := True\<rparr>) (pd_client pd)\<rparr>"

definition createClient :: "bool \<Rightarrow> string \<Rightarrow> PeerManager \<Rightarrow> PeerManager option" where
  "createClient release peer m =
     (let pd = (case map_of (pm_peers m) peer of None \<Rightarrow> new_PeerData | Some pd \<Rightarrow> pd)
      in if pd_worker pd \<and> \<not> client_stopped pd then None
         else let client = \<lparr>ws_endpoint = peer @ ''/chain'', ws_timeout = (if release then 60 else 10), ws_stopped = False\<rparr>
              in Some (m\<lparr>pm_peers := smap_set peer
                    (pd\<lparr>pd_client := Some client, pd_state := CONNECTING, pd_worker := True\<rparr>) (pm_peers m)\<rparr>))"

fun create_all :: "bool \<Rightarrow> string list \<Rightarrow> PeerManager \<Rightarrow> PeerManager option" where
  "create_all release [] m = Some m"
| "create_all release (peer # peers) m =
     (case createClient release peer m of None \<Rightarrow> None | Some m \<Rightarrow> create_all release peers m)"

text \<open>\<open>connectAll\<close> also starts the thread of the reconnect worker.\<close>

definition connectAll :: "bool \<Rightarrow> (nat \<Rightarrow> sent) \<Rightarrow> PeerManager \<Rightarrow> PeerManager option" where
  "connectAll release cb m =
     map_option (\<lambda>m. m\<lparr>pm_started := True\<rparr>)
       (create_all release (map fst (pm_peers m)) (m\<lparr>pm_callback := Some cb\<rparr>))"

text \<open>The callbacks of a client.\<close>

definition on_open :: "string \<Rightarrow> nat \<Rightarrow> PeerManager \<Rightarrow> (sent \<times> PeerManager) result" where
  "on_open peer connection m = (case map_of (pm_peers m) peer of
       None \<Rightarrow> Err AssertFailed
     | Some pd \<Rightarrow>
         Ok (case pm_callback m of None \<Rightarrow> [] | Some cb \<Rightarrow> cb connection,
             m\<lparr>pm_peers := smap_set peer (pd\<lparr>pd_connection := Some connection, pd_state := CONNECTED\<rparr>) (pm_peers m)\<rparr>))"

definition on_error :: "string \<Rightarrow> PeerManager \<Rightarrow> PeerManager result" where
  "on_error peer m = (case map_of (pm_peers m) peer of
       None \<Rightarrow> Err AssertFailed
     | Some pd \<Rightarrow>
         if pd_client pd = None then Err UndefinedBehaviour
         else Ok (m\<lparr>pm_peers := smap_set peer ((stop_client pd)\<lparr>pd_state := OFFLINE\<rparr>) (pm_peers m)\<rparr>))"

definition on_close :: "string \<Rightarrow> PeerManager \<Rightarrow> PeerManager result" where
  "on_close peer m = (case map_of (pm_peers m) peer of
       None \<Rightarrow> Err AssertFailed
     | Some pd \<Rightarrow>
         if pd_client pd = None then Err UndefinedBehaviour
         else Ok (m\<lparr>pm_peers := smap_set peer ((stop_client pd)\<lparr>pd_state := OFFLINE\<rparr>) (pm_peers m)\<rparr>))"

subsection \<open>Reconnecting\<close>

text \<open>
  The loop of the worker's callback; the state of a peer is looked up when the loop reaches it.
\<close>

fun reconnect_over :: "bool \<Rightarrow> string list \<Rightarrow> PeerManager \<Rightarrow> PeerManager option" where
  "reconnect_over release [] m = Some m"
| "reconnect_over release (peer # peers) m =
     (if map_option pd_state (map_of (pm_peers m) peer) = Some OFFLINE
      then case createClient release peer m of None \<Rightarrow> None | Some m \<Rightarrow> reconnect_over release peers m
      else reconnect_over release peers m)"

definition reconnect :: "bool \<Rightarrow> PeerManager \<Rightarrow> PeerManager option" where
  "reconnect release m = reconnect_over release (map fst (pm_peers m)) m"

text \<open>
  The next delay in milliseconds, from the time the callback took in nanoseconds;
  \<^verbatim>\<open>duration_cast\<close> truncates towards zero.
\<close>

definition time_to_wait :: "nat \<Rightarrow> nat \<Rightarrow> int" where
  "time_to_wait timeout elapsed =
     (let d = int timeout * 1000000 - int elapsed in if 0 \<le> d then d div 1000000 else - ((- d) div 1000000))"

text \<open>
  \<^verbatim>\<open>privateRun\<close>: \<open>ec\<close> tells whether the timer was cancelled. The result has the delay after which
  the timer fires again, or nothing when it is not set again and the thread ends.
\<close>

definition privateRun :: "bool \<Rightarrow> bool \<Rightarrow> nat \<Rightarrow> PeerManager \<Rightarrow> (int option \<times> PeerManager) option" where
  "privateRun release ec elapsed m =
     (if \<not> ec \<and> \<not> rw_shutdown (pm_worker m)
      then map_option (\<lambda>m. (Some (time_to_wait (rw_timeout (pm_worker m)) elapsed), m)) (reconnect release m)
      else Some (None, m))"

definition worker_shutdown :: "PeerManager \<Rightarrow> PeerManager" where
  "worker_shutdown m = m\<lparr>pm_worker := (pm_worker m)\<lparr>rw_shutdown := True\<rparr>\<rparr>"

subsection \<open>Broadcasting, the server and the end\<close>

definition broadcast :: "string \<Rightarrow> PeerManager \<Rightarrow> sent result" where
  "broadcast msg m =
     rfold (\<lambda>(peer, pd) out.
        if pd_state pd = CONNECTED
        then (case pd_connection pd of None \<Rightarrow> Err AssertFailed | Some c \<Rightarrow> Ok (out @ [(c, msg)]))
        else Ok out) (pm_peers m) []"

definition initWebSocketServer :: "u32 \<Rightarrow> PeerManager \<Rightarrow> PeerManager" where
  "initWebSocketServer port m = m\<lparr>pm_port := Some port\<rparr>"

text \<open>
  The messages of both kinds of connection reach the handler through a proxy that answers
  on the same connection.
\<close>

definition server_on_message :: "(ConnectionProxy \<Rightarrow> string \<Rightarrow> 'r) \<Rightarrow> nat \<Rightarrow> string \<Rightarrow> 'r" where
  "server_on_message handler connection msg = handler (server_proxy connection) msg"

definition client_on_message :: "(ConnectionProxy \<Rightarrow> string \<Rightarrow> 'r) \<Rightarrow> nat \<Rightarrow> string \<Rightarrow> 'r" where
  "client_on_message handler connection msg = handler (client_proxy connection) msg"

text \<open>The destructor, after the reconnect thread has ended; nothing when a join does not return.\<close>

fun stop_peers :: "PeerData smap \<Rightarrow> PeerData smap option" where
  "stop_peers [] = Some []"
| "stop_peers ((peer, pd) # ps) =
     (if pd_worker pd
      then if pd_client pd = None then None
           else map_option (\<lambda>ps. (peer, (stop_client pd)\<lparr>pd_worker := False\<rparr>) # ps) (stop_peers ps)
      else map_option (\<lambda>ps. (peer, pd) # ps) (stop_peers ps))"

definition destroy_PeerManager :: "PeerManager \<Rightarrow> PeerManager option" where
  "destroy_PeerManager m = map_option (\<lambda>ps. (worker_shutdown m)\<lparr>pm_peers := ps, pm_started := False\<rparr>) (stop_peers (pm_peers m))"

subsection \<open>The invariant\<close>

text \<open>
  A connected peer has a connection; a peer with a thread has a client for its own endpoint,
  which has been stopped if the peer is offline; a peer that is not offline has a thread.
\<close>

definition peer_ok :: "string \<Rightarrow> PeerData \<Rightarrow> bool" where
  "peer_ok name pd \<longleftrightarrow> (pd_state pd = CONNECTED \<longrightarrow> pd_connection pd \<noteq> None)
     \<and> (pd_worker pd \<longrightarrow> (\<exists>c. pd_client pd = Some c \<and> ws_endpoint c = name @ ''/chain'' \<and> (pd_state pd = OFFLINE \<longrightarrow> ws_stopped c)))
     \<and> (pd_state pd \<noteq> OFFLINE \<longrightarrow> pd_worker pd)"

text \<open>Before \<open>connectAll\<close> there is no thread.\<close>

definition peers_ok :: "PeerManager \<Rightarrow> bool" where
  "peers_ok m \<longleftrightarrow> smap_ok (pm_peers m)
     \<and> (\<forall>name pd. map_of (pm_peers m) name = Some pd \<longrightarrow> peer_ok name pd \<and> (\<not> pm_started m \<longrightarrow> \<not> pd_worker pd))"

text \<open>
  The peers file is read and the connections are opened once, in that order; then the network
  may report events for every client that has a thread, in any order, and the timer of the worker may fire.
\<close>

inductive peer_step :: "boost_lib \<Rightarrow> bool \<Rightarrow> PeerManager \<Rightarrow> PeerManager \<Rightarrow> bool"
  for B :: boost_lib and release :: bool where
  load: "\<not> pm_started m \<Longrightarrow> loadPeers B content m = Ok m' \<Longrightarrow> peer_step B release m m'"
| connect: "\<not> pm_started m \<Longrightarrow> connectAll release cb m = Some m' \<Longrightarrow> peer_step B release m m'"
| opened: "map_of (pm_peers m) peer = Some pd \<Longrightarrow> pd_worker pd \<Longrightarrow> on_open peer c m = Ok (out, m')
    \<Longrightarrow> peer_step B release m m'"
| failed: "map_of (pm_peers m) peer = Some pd \<Longrightarrow> pd_worker pd \<Longrightarrow> on_error peer m = Ok m'
    \<Longrightarrow> peer_step B release m m'"
| closed: "map_of (pm_peers m) peer = Some pd \<Longrightarrow> pd_worker pd \<Longrightarrow> on_close peer m = Ok m'
    \<Longrightarrow> peer_step B release m m'"
| timer: "pm_started m \<Longrightarrow> privateRun release ec elapsed m = Some (delay, m') \<Longrightarrow> peer_step B release m m'"
| listen: "peer_step B release m (initWebSocketServer port m)"
| shutdown: "peer_step B release m (worker_shutdown m)"

lemma peers_ok_set:
  assumes "peers_ok m" and "peer_ok name pd" and "\<not> pm_started m \<longrightarrow> \<not> pd_worker pd"
  shows "peers_ok (m\<lparr>pm_peers := smap_set name pd (pm_peers m)\<rparr>)"
  using assms by (auto simp: peers_ok_def split: if_splits)

lemma peer_ok_new [simp]: "peer_ok name new_PeerData" "\<not> pd_worker new_PeerData"
  by (simp_all add: peer_ok_def new_PeerData_def)

lemma peers_ok_lookup: "peers_ok m \<Longrightarrow> map_of (pm_peers m) name = Some pd \<Longrightarrow> peer_ok name pd"
  by (simp add: peers_ok_def)

lemma new_ok: "peers_ok (new_PeerManager release)"
  by (simp add: peers_ok_def new_PeerManager_def)

text \<open>Before the start, loading returns and adds the names of the file as new peers.\<close>

lemma load_fold:
  assumes "smap_ok ps" and "\<forall>name pd. map_of ps name = Some pd \<longrightarrow> \<not> pd_worker pd"
  shows "\<exists>ps'. rfold (\<lambda>line ps. if line \<noteq> [] then assign_peer (b_trim B line) ps else Ok ps) ls ps = Ok ps' \<and> smap_ok ps'
    \<and> (\<forall>name. map_of ps' name = (if \<exists>l \<in> set ls. l \<noteq> [] \<and> b_trim B l = name then Some new_PeerData else map_of ps name))"
  using assms
proof (induction ls arbitrary: ps)
  case (Cons l ls)
  define ps1 where "ps1 = (if l \<noteq> [] then smap_set (b_trim B l) new_PeerData ps else ps)"
  have step: "(if l \<noteq> [] then assign_peer (b_trim B l) ps else Ok ps) = Ok ps1"
    using Cons.prems(2) by (auto simp: ps1_def assign_peer_def split: option.splits)
  have ok: "smap_ok ps1" using Cons.prems(1) by (simp add: ps1_def)
  have lookup: "map_of ps1 name = (if l \<noteq> [] \<and> b_trim B l = name then Some new_PeerData else map_of ps name)" for name
    using Cons.prems(1) by (auto simp: ps1_def)
  have "\<forall>name pd. map_of ps1 name = Some pd \<longrightarrow> \<not> pd_worker pd"
    unfolding lookup using Cons.prems(2) by auto
  from Cons.IH [OF ok this] lookup show ?case
    by (simp only: rfold.simps step rbind_simps) (auto split: if_splits)
qed simp

lemma load_result:
  assumes "peers_ok m" and "\<not> pm_started m"
  shows "\<exists>m'. loadPeers B (Some txt) m = Ok m' \<and> peers_ok m' \<and> \<not> pm_started m'
    \<and> (\<forall>name. map_of (pm_peers m') name = (if \<exists>l \<in> set (getlines txt). l \<noteq> [] \<and> b_trim B l = name
         then Some new_PeerData else map_of (pm_peers m) name))"
proof -
  obtain ps' where ps': "rfold (\<lambda>line ps. if line \<noteq> [] then assign_peer (b_trim B line) ps else Ok ps)
      (getlines txt) (pm_peers m) = Ok ps'" "smap_ok ps'"
    "\<forall>name. map_of ps' name = (if \<exists>l \<in> set (getlines txt). l \<noteq> [] \<and> b_trim B l = name
         then Some new_PeerData else map_of (pm_peers m) name)"
    using load_fold [of "pm_peers m" B "getlines txt"] assms by (auto simp: peers_ok_def)
  then show ?thesis
    using assms by (auto simp: loadPeers_def peers_ok_def split: if_splits)
qed

text \<open>Opening a connection returns for a peer without thread or with a stopped client.\<close>

definition fresh_client :: "bool \<Rightarrow> string \<Rightarrow> WsClient" where
  "fresh_client release peer =
     \<lparr>ws_endpoint = peer @ ''/chain'', ws_timeout = (if release then 60 else 10), ws_stopped = False\<rparr>"

definition connecting :: "bool \<Rightarrow> string \<Rightarrow> PeerData \<Rightarrow> PeerData" where
  "connecting release peer pd = pd\<lparr>pd_client := Some (fresh_client release peer), pd_state := CONNECTING, pd_worker := True\<rparr>"

lemma connecting_ok [simp]:
  "peer_ok peer (connecting release peer pd)" "pd_worker (connecting release peer pd)"
  "pd_state (connecting release peer pd) = CONNECTING"
  by (simp_all add: peer_ok_def connecting_def fresh_client_def)

lemma createClient_eq:
  assumes "map_of (pm_peers m) peer = Some pd" and "pd_worker pd \<longrightarrow> client_stopped pd"
  shows "createClient release peer m = Some (m\<lparr>pm_peers := smap_set peer (connecting release peer pd) (pm_peers m)\<rparr>)"
  using assms by (simp add: createClient_def Let_def connecting_def fresh_client_def)

lemma offline_stopped: "peer_ok name pd \<Longrightarrow> pd_state pd = OFFLINE \<Longrightarrow> pd_worker pd \<longrightarrow> client_stopped pd"
  by (auto simp: peer_ok_def client_stopped_def)

lemma create_all_result:
  assumes "smap_ok (pm_peers m)" and "distinct names"
    and "\<forall>name \<in> set names. \<exists>pd. map_of (pm_peers m) name = Some pd \<and> \<not> pd_worker pd"
  shows "\<exists>m'. create_all release names m = Some m' \<and> smap_ok (pm_peers m') \<and> m' = m\<lparr>pm_peers := pm_peers m'\<rparr>
    \<and> (\<forall>name. map_of (pm_peers m') name = (if name \<in> set names
         then map_option (connecting release name) (map_of (pm_peers m) name) else map_of (pm_peers m) name))"
  using assms
proof (induction names arbitrary: m)
  case (Cons n names)
  then obtain pd where pd: "map_of (pm_peers m) n = Some pd" "\<not> pd_worker pd" by auto
  define m1 where "m1 = m\<lparr>pm_peers := smap_set n (connecting release n pd) (pm_peers m)\<rparr>"
  have c: "createClient release n m = Some m1"
    unfolding m1_def by (rule createClient_eq [OF pd(1)]) (simp add: pd(2))
  have lookup: "map_of (pm_peers m1) name = (if name = n then Some (connecting release n pd) else map_of (pm_peers m) name)" for name
    using Cons.prems(1) by (simp add: m1_def)
  have "smap_ok (pm_peers m1)" using Cons.prems(1) by (simp add: m1_def)
  moreover have "distinct names" using Cons.prems(2) by simp
  moreover have "\<forall>name \<in> set names. \<exists>pd. map_of (pm_peers m1) name = Some pd \<and> \<not> pd_worker pd"
    using Cons.prems(2,3) by (auto simp: lookup)
  ultimately obtain m' where m': "create_all release names m1 = Some m'" "smap_ok (pm_peers m')" "m' = m1\<lparr>pm_peers := pm_peers m'\<rparr>"
    "\<forall>name. map_of (pm_peers m') name = (if name \<in> set names
         then map_option (connecting release name) (map_of (pm_peers m1) name) else map_of (pm_peers m1) name)"
    using Cons.IH by blast
  have "m' = m\<lparr>pm_peers := pm_peers m'\<rparr>" using m'(3) by (simp add: m1_def)
  then show ?case using m' Cons.prems(2) pd(1) by (intro exI [of _ m']) (auto simp: c lookup)
qed simp

definition retried :: "bool \<Rightarrow> string list \<Rightarrow> string \<Rightarrow> PeerData \<Rightarrow> PeerData" where
  "retried release names name pd =
     (if name \<in> set names \<and> pd_state pd = OFFLINE then connecting release name pd else pd)"

lemma reconnect_over_result:
  assumes "peers_ok m" and "pm_started m" and "set names \<subseteq> dom (map_of (pm_peers m))"
  shows "\<exists>m'. reconnect_over release names m = Some m' \<and> peers_ok m' \<and> m' = m\<lparr>pm_peers := pm_peers m'\<rparr>
    \<and> (\<forall>name. map_of (pm_peers m') name = map_option (retried release names name) (map_of (pm_peers m) name))"
  using assms
proof (induction names arbitrary: m)
  case Nil
  then show ?case by (simp add: retried_def map_option.identity)
next
  case (Cons n names)
  then obtain pd where pd: "map_of (pm_peers m) n = Some pd" by auto
  show ?case
  proof (cases "pd_state pd = OFFLINE")
    case True
    define m1 where "m1 = m\<lparr>pm_peers := smap_set n (connecting release n pd) (pm_peers m)\<rparr>"
    have c: "createClient release n m = Some m1"
      unfolding m1_def by (rule createClient_eq [OF pd offline_stopped [OF peers_ok_lookup [OF Cons.prems(1) pd] True]])
    have ok: "smap_ok (pm_peers m)" using Cons.prems(1) by (simp add: peers_ok_def)
    then have lookup: "map_of (pm_peers m1) = (map_of (pm_peers m))(n \<mapsto> connecting release n pd)" by (simp add: m1_def)
    have m1: "peers_ok m1" "pm_started m1" "set names \<subseteq> dom (map_of (pm_peers m1))"
      using Cons.prems by (simp_all add: m1_def peers_ok_set) (auto simp: ok)
    obtain m' where m': "reconnect_over release names m1 = Some m'" "peers_ok m'" "m' = m1\<lparr>pm_peers := pm_peers m'\<rparr>"
      "\<And>name. map_of (pm_peers m') name = map_option (retried release names name) (map_of (pm_peers m1) name)"
      using Cons.IH [OF m1] by blast
    have "m' = m\<lparr>pm_peers := pm_peers m'\<rparr>" using m'(3) by (simp add: m1_def)
    moreover have "map_of (pm_peers m') name = map_option (retried release (n # names) name) (map_of (pm_peers m) name)" for name
      by (cases "map_of (pm_peers m) name") (auto simp: m'(4) lookup retried_def pd True)
    ultimately show ?thesis using m'(1,2) c pd True by auto
  next
    case False
    obtain m' where m': "reconnect_over release names m = Some m'" "peers_ok m'" "m' = m\<lparr>pm_peers := pm_peers m'\<rparr>"
      "\<And>name. map_of (pm_peers m') name = map_option (retried release names name) (map_of (pm_peers m) name)"
      using Cons.IH [OF Cons.prems(1,2)] Cons.prems(3) by auto
    have "map_of (pm_peers m') name = map_option (retried release (n # names) name) (map_of (pm_peers m) name)" for name
      by (cases "map_of (pm_peers m) name") (auto simp: m'(4) retried_def pd False)
    then show ?thesis using m'(1-3) False pd by auto
  qed
qed

lemma reconnect_result:
  assumes "peers_ok m" and "pm_started m"
  shows "\<exists>m'. reconnect release m = Some m' \<and> peers_ok m' \<and> m' = m\<lparr>pm_peers := pm_peers m'\<rparr>
    \<and> (\<forall>name. map_of (pm_peers m') name = map_option
         (\<lambda>pd. if pd_state pd = OFFLINE then connecting release name pd else pd) (map_of (pm_peers m) name))"
proof -
  let ?names = "map fst (pm_peers m)"
  have dom: "set ?names = dom (map_of (pm_peers m))" by (simp add: dom_map_of_conv_image_fst)
  have "map_option (retried release ?names name) (map_of (pm_peers m) name)
      = map_option (\<lambda>pd. if pd_state pd = OFFLINE then connecting release name pd else pd) (map_of (pm_peers m) name)" for name
    using dom by (cases "map_of (pm_peers m) name") (auto simp: retried_def)
  then show ?thesis
    using reconnect_over_result [OF assms, of ?names release] dom unfolding reconnect_def by auto
qed

lemma connect_result:
  assumes "peers_ok m" and "\<not> pm_started m"
  shows "\<exists>m'. connectAll release cb m = Some m' \<and> peers_ok m' \<and> pm_started m' \<and> pm_callback m' = Some cb
    \<and> (\<forall>name. map_of (pm_peers m') name = map_option (connecting release name) (map_of (pm_peers m) name))"
proof -
  let ?m = "m\<lparr>pm_callback := Some cb\<rparr>" and ?names = "map fst (pm_peers m)"
  have ok: "smap_ok (pm_peers m)" using assms(1) by (simp add: peers_ok_def)
  have dom: "set ?names = dom (map_of (pm_peers m))" by (simp add: dom_map_of_conv_image_fst)
  have "\<forall>name \<in> set ?names. \<exists>pd. map_of (pm_peers m) name = Some pd \<and> \<not> pd_worker pd"
    unfolding dom using assms by (auto simp: peers_ok_def simp del: map_of_eq_Some_iff)
  then obtain m' where m': "create_all release ?names ?m = Some m'" "smap_ok (pm_peers m')" "m' = ?m\<lparr>pm_peers := pm_peers m'\<rparr>"
    "\<And>name. map_of (pm_peers m') name = (if name \<in> set ?names
         then map_option (connecting release name) (map_of (pm_peers m) name) else map_of (pm_peers m) name)"
    using create_all_result [of ?m ?names release] ok smap_ok_distinct [OF ok] by auto
  have lookup: "map_of (pm_peers m') name = map_option (connecting release name) (map_of (pm_peers m) name)" for name
    using m'(4) [of name] dom by (cases "map_of (pm_peers m) name") auto
  then have "peers_ok (m'\<lparr>pm_started := True\<rparr>)" using m'(2) by (auto simp: peers_ok_def)
  moreover have "pm_callback m' = Some cb" by (subst m'(3)) simp
  ultimately show ?thesis using lookup by (simp add: connectAll_def m'(1))
qed

lemma down_ok: "peer_ok name pd \<Longrightarrow> pd_worker pd \<Longrightarrow> peer_ok name ((stop_client pd)\<lparr>pd_state := OFFLINE\<rparr>)"
  by (auto simp: peer_ok_def stop_client_def)

lemma open_ok: "peer_ok name pd \<Longrightarrow> pd_worker pd \<Longrightarrow> peer_ok name (pd\<lparr>pd_connection := Some c, pd_state := CONNECTED\<rparr>)"
  by (auto simp: peer_ok_def)

lemma peers_ok_cong: "pm_peers m' = pm_peers m \<Longrightarrow> pm_started m' = pm_started m \<Longrightarrow> peers_ok m' = peers_ok m"
  by (simp add: peers_ok_def)

lemma started_worker: "peers_ok m \<Longrightarrow> map_of (pm_peers m) name = Some pd \<Longrightarrow> pd_worker pd \<Longrightarrow> pm_started m"
  by (auto simp: peers_ok_def)

lemma peer_step_ok: "peer_step B release m m' \<Longrightarrow> peers_ok m \<Longrightarrow> peers_ok m'"
proof (induction rule: peer_step.induct)
  case (load m content m')
  show ?case
  proof (cases content)
    case None
    with load show ?thesis by (simp add: loadPeers_def)
  next
    case (Some t)
    with load show ?thesis using load_result [of m B t] by auto
  qed
next
  case (connect m cb m')
  then show ?case using connect_result [of m release cb] by auto
next
  case (opened m peer pd c out m')
  then have "m' = m\<lparr>pm_peers := smap_set peer (pd\<lparr>pd_connection := Some c, pd_state := CONNECTED\<rparr>) (pm_peers m)\<rparr>"
    by (simp add: on_open_def)
  then show ?case using opened started_worker peers_ok_set open_ok peers_ok_lookup by metis
next
  case (failed m peer pd m')
  then have "m' = m\<lparr>pm_peers := smap_set peer ((stop_client pd)\<lparr>pd_state := OFFLINE\<rparr>) (pm_peers m)\<rparr>"
    by (simp add: on_error_def split: if_splits)
  then show ?case using failed started_worker peers_ok_set down_ok peers_ok_lookup by metis
next
  case (closed m peer pd m')
  then have "m' = m\<lparr>pm_peers := smap_set peer ((stop_client pd)\<lparr>pd_state := OFFLINE\<rparr>) (pm_peers m)\<rparr>"
    by (simp add: on_close_def split: if_splits)
  then show ?case using closed started_worker peers_ok_set down_ok peers_ok_lookup by metis
next
  case (timer m ec elapsed delay m')
  then show ?case using reconnect_result [of m release] by (auto simp: privateRun_def split: if_splits)
next
  case (listen m port)
  then show ?case using peers_ok_cong [of "initWebSocketServer port m" m] by (simp add: initWebSocketServer_def)
next
  case (shutdown m)
  then show ?case using peers_ok_cong [of "worker_shutdown m" m] by (simp add: worker_shutdown_def)
qed

lemma reachable_ok:
  assumes "(peer_step B release)\<^sup>*\<^sup>* (new_PeerManager release) m"
  shows "peers_ok m"
  using assms by (induction rule: rtranclp_induct) (auto intro: new_ok peer_step_ok)


subsection \<open>Main results\<close>

lemma peers_ok_all:
  assumes "peers_ok m"
  shows "\<forall>(name, pd) \<in> set (pm_peers m). peer_ok name pd"
proof -
  have "distinct (map fst (pm_peers m))" using assms by (simp add: peers_ok_def smap_ok_distinct)
  with assms show ?thesis by (auto simp: peers_ok_def)
qed

lemma stop_peers_result:
  "\<forall>(name, pd) \<in> set ps. peer_ok name pd \<Longrightarrow>
    \<exists>ps'. stop_peers ps = Some ps' \<and> (\<forall>(name, pd) \<in> set ps'. \<not> pd_worker pd) \<and> map fst ps' = map fst ps"
proof (induction ps)
  case (Cons a ps)
  then obtain ps' where "stop_peers ps = Some ps'" "\<forall>(name, pd) \<in> set ps'. \<not> pd_worker pd" "map fst ps' = map fst ps" by auto
  with Cons.prems show ?case by (cases a) (auto simp: peer_ok_def)
qed simp

lemma broadcast_fold:
  assumes "\<forall>(name, pd) \<in> set ps. peer_ok name pd"
  shows "rfold (\<lambda>(peer, pd) out.
      if pd_state pd = CONNECTED
      then (case pd_connection pd of None \<Rightarrow> Err AssertFailed | Some c \<Rightarrow> Ok (out @ [(c, msg)]))
      else Ok out) ps out
    = Ok (out @ map (\<lambda>(name, pd). (the (pd_connection pd), msg)) (filter (\<lambda>(name, pd). pd_state pd = CONNECTED) ps))"
  using assms
proof (induction ps arbitrary: out)
  case (Cons a ps)
  then show ?case by (cases a) (auto simp: peer_ok_def)
qed simp

text \<open>
  C21: a broadcast reaches exactly the connected peers. In every state that the table of peers can
  reach, whatever connections were opened, failed, closed and retried in whatever order, the message is
  sent once on the current connection of every peer that is connected, in the order of the names,
  and to nobody else; the assertion that a connected peer has a connection holds.
\<close>

theorem broadcast_reaches_connected:
  assumes "(peer_step B release)\<^sup>*\<^sup>* (new_PeerManager release) m"
  shows "broadcast msg m = Ok (map (\<lambda>(name, pd). (the (pd_connection pd), msg))
      (filter (\<lambda>(name, pd). pd_state pd = CONNECTED) (pm_peers m)))
    \<and> (\<forall>(name, pd) \<in> set (pm_peers m). pd_state pd = CONNECTED \<longrightarrow> pd_connection pd \<noteq> None)"
proof -
  have all: "\<forall>(name, pd) \<in> set (pm_peers m). peer_ok name pd" by (rule peers_ok_all [OF reachable_ok [OF assms]])
  from broadcast_fold [OF all, of msg "[]"] all show ?thesis
    by (auto simp: broadcast_def peer_ok_def)
qed

definition sample_peers :: PeerManager where
  "sample_peers = (new_PeerManager False)\<lparr>pm_peers := [(''ws://a'', new_PeerData), (''ws://b'', new_PeerData)]\<rparr>"

lemma sample_load: "loadPeers boost_std (Some (''ws://b'' @ [CHR 0x0A] @ '' ws://a'')) (new_PeerManager False) = Ok sample_peers"
  by (simp add: loadPeers_def new_PeerManager_def sample_peers_def assign_peer_def boost_std_def trimmed_def isspace_def
      less_char_def)

lemma sample_connect:
  "\<exists>m. connectAll False (\<lambda>c. [(c, ''hi'')]) sample_peers = Some m
     \<and> (peer_step boost_std False)\<^sup>*\<^sup>* (new_PeerManager False) m
     \<and> pm_peers m = [(''ws://a'', connecting False ''ws://a'' new_PeerData), (''ws://b'', connecting False ''ws://b'' new_PeerData)]"
proof -
  let ?m = "sample_peers\<lparr>pm_callback := Some (\<lambda>c. [(c, ''hi'')]), pm_started := True,
    pm_peers := [(''ws://a'', connecting False ''ws://a'' new_PeerData), (''ws://b'', connecting False ''ws://b'' new_PeerData)]\<rparr>"
  have c: "connectAll False (\<lambda>c. [(c, ''hi'')]) sample_peers = Some ?m"
    by (simp add: connectAll_def sample_peers_def new_PeerManager_def createClient_def connecting_def fresh_client_def
        new_PeerData_def less_char_def)
  have "\<not> pm_started (new_PeerManager False)" "\<not> pm_started sample_peers"
    by (simp_all add: new_PeerManager_def sample_peers_def)
  then have "peer_step boost_std False (new_PeerManager False) sample_peers" and "peer_step boost_std False sample_peers ?m"
    using load [OF _ sample_load, of False] connect [OF _ c, of boost_std] by blast+
  then have "(peer_step boost_std False)\<^sup>*\<^sup>* (new_PeerManager False) ?m" by (blast intro: rtranclp_trans)
  with c show ?thesis by (intro exI [of _ ?m]) simp
qed

theorem broadcast_reaches_connected_witness:
  "\<exists>m. (peer_step boost_std False)\<^sup>*\<^sup>* (new_PeerManager False) m \<and> broadcast ''x'' m = Ok [(7, ''x'')]"
proof -
  obtain m where m: "(peer_step boost_std False)\<^sup>*\<^sup>* (new_PeerManager False) m"
    "pm_peers m = [(''ws://a'', connecting False ''ws://a'' new_PeerData), (''ws://b'', connecting False ''ws://b'' new_PeerData)]"
    using sample_connect by blast
  then obtain out m' where opn: "on_open ''ws://b'' 7 m = Ok (out, m')"
    "pm_peers m' = [(''ws://a'', connecting False ''ws://a'' new_PeerData),
      (''ws://b'', (connecting False ''ws://b'' new_PeerData)\<lparr>pd_connection := Some 7, pd_state := CONNECTED\<rparr>)]"
    by (simp add: on_open_def less_char_def)
  have "peer_step boost_std False m m'"
    by (rule opened [OF _ _ opn(1), of "connecting False ''ws://b'' new_PeerData"]) (simp_all add: m(2))
  then have r: "(peer_step boost_std False)\<^sup>*\<^sup>* (new_PeerManager False) m'" using m(1) by (rule rtranclp.rtrancl_into_rtrancl [rotated])
  show ?thesis
    using broadcast_reaches_connected [OF r, of "''x''"] r by (intro exI [of _ m']) (simp add: opn(2))
qed

text \<open>
  C22: peers that went offline are tried again. In every reachable state after the start, a run of the reconnect
  timer that was not cancelled or shut down returns: it never waits for a thread that still runs. It leaves no
  peer offline, gives every peer that was offline a new client for its own endpoint, and changes nothing else.
\<close>

theorem reconnect_retries_offline:
  assumes "(peer_step B release)\<^sup>*\<^sup>* (new_PeerManager release) m" and "pm_started m" and "\<not> rw_shutdown (pm_worker m)"
  shows "\<exists>delay m'. privateRun release False elapsed m = Some (Some delay, m')
    \<and> m' = m\<lparr>pm_peers := pm_peers m'\<rparr>
    \<and> (\<forall>name pd. map_of (pm_peers m) name = Some pd \<longrightarrow>
         (\<exists>pd'. map_of (pm_peers m') name = Some pd' \<and> pd_state pd' \<noteq> OFFLINE
           \<and> (if pd_state pd = OFFLINE
              then pd_state pd' = CONNECTING \<and> (\<exists>c. pd_client pd' = Some c \<and> ws_endpoint c = name @ ''/chain'' \<and> \<not> ws_stopped c)
              else pd' = pd)))"
proof -
  obtain m' where m': "reconnect release m = Some m'" "m' = m\<lparr>pm_peers := pm_peers m'\<rparr>"
    "\<And>name. map_of (pm_peers m') name = map_option
         (\<lambda>pd. if pd_state pd = OFFLINE then connecting release name pd else pd) (map_of (pm_peers m) name)"
    using reconnect_result [OF reachable_ok [OF assms(1)] assms(2)] by blast
  show ?thesis
    using assms(3) m' by (auto simp: privateRun_def connecting_def fresh_client_def)
qed

theorem reconnect_retries_offline_witness:
  "\<exists>m delay m'. (peer_step boost_std False)\<^sup>*\<^sup>* (new_PeerManager False) m
     \<and> map_option pd_state (map_of (pm_peers m) ''ws://a'') = Some OFFLINE
     \<and> privateRun False False 5 m = Some (Some delay, m')
     \<and> map_option pd_state (map_of (pm_peers m') ''ws://a'') = Some CONNECTING"
proof -
  obtain m where m: "connectAll False (\<lambda>c. [(c, ''hi'')]) sample_peers = Some m" "(peer_step boost_std False)\<^sup>*\<^sup>* (new_PeerManager False) m"
    "pm_peers m = [(''ws://a'', connecting False ''ws://a'' new_PeerData), (''ws://b'', connecting False ''ws://b'' new_PeerData)]"
    using sample_connect by blast
  define m1 where "m1 = m\<lparr>pm_peers := smap_set ''ws://a''
      ((stop_client (connecting False ''ws://a'' new_PeerData))\<lparr>pd_state := OFFLINE\<rparr>) (pm_peers m)\<rparr>"
  have "on_close ''ws://a'' m = Ok m1" by (simp add: on_close_def m1_def m(3) connecting_def)
  then have "peer_step boost_std False m m1"
    by (intro closed [of m "''ws://a''" "connecting False ''ws://a'' new_PeerData"]) (simp_all add: m(3))
  then have r: "(peer_step boost_std False)\<^sup>*\<^sup>* (new_PeerManager False) m1" using m(2) by (rule rtranclp.rtrancl_into_rtrancl [rotated])
  have started: "pm_started m1" "\<not> rw_shutdown (pm_worker m1)"
    using m(1) by (auto simp: m1_def connectAll_def sample_peers_def new_PeerManager_def new_ReconnectWorker_def
        createClient_def new_PeerData_def less_char_def)
  have off: "map_of (pm_peers m1) ''ws://a'' = Some ((stop_client (connecting False ''ws://a'' new_PeerData))\<lparr>pd_state := OFFLINE\<rparr>)"
    by (simp add: m1_def m(3))
  from reconnect_retries_offline [OF r started, of 5] obtain delay m' where
    "privateRun False False 5 m1 = Some (Some delay, m')"
    "\<exists>pd'. map_of (pm_peers m') ''ws://a'' = Some pd' \<and> pd_state pd' = CONNECTING"
    using off by fastforce
  with r off show ?thesis by (intro exI [of _ m1] exI [of _ delay] exI [of _ m']) auto
qed

text \<open>
  A line of the peers file that holds only white space, such as an empty line with a carriage return, is not skipped: it adds a peer with
  an empty name, since the test for an empty line comes before the trimming.
\<close>

theorem blank_line_adds_peer:
  assumes "boost_library B" and "peers_ok m" and "\<not> pm_started m"
  shows "\<exists>m'. loadPeers B (Some [CHR 0x0D, CHR 0x0A]) m = Ok m' \<and> map_of (pm_peers m') [] = Some new_PeerData"
proof -
  have "getlines [CHR 0x0D, CHR 0x0A] = [[CHR 0x0D]]" by simp
  moreover have "b_trim B [CHR 0x0D] = []" by (simp add: boost_library.trim [OF assms(1)] trimmed_def isspace_def)
  ultimately show ?thesis using load_result [OF assms(2,3), of B "[CHR 0x0D, CHR 0x0A]"] by auto
qed

text \<open>
  The destructor returns in every reachable state and leaves no thread behind that was not joined.
\<close>

theorem destroy_joins_all:
  assumes "(peer_step B release)\<^sup>*\<^sup>* (new_PeerManager release) m"
  shows "\<exists>m'. destroy_PeerManager m = Some m' \<and> (\<forall>(name, pd) \<in> set (pm_peers m'). \<not> pd_worker pd)
    \<and> map fst (pm_peers m') = map fst (pm_peers m) \<and> rw_shutdown (pm_worker m')"
proof -
  have "\<forall>(name, pd) \<in> set (pm_peers m). peer_ok name pd" by (rule peers_ok_all [OF reachable_ok [OF assms]])
  from stop_peers_result [OF this] show ?thesis by (auto simp: destroy_PeerManager_def worker_shutdown_def)
qed

subsection \<open>The thread of the reconnect worker\<close>

text \<open>
  \<^verbatim>\<open>run\<close>: the timer is set, and every time it fires \<open>privateRun\<close> sets it again or lets the thread end. A tick has
  whether the timer was cancelled, the time the callback took, and what the other threads did to the table before it fired. The result
  has the delays the timer was set to.
\<close>

record worker_tick =
  wt_ec :: bool
  wt_elapsed :: nat
  wt_before :: "PeerManager \<Rightarrow> PeerManager"

partial_function (option) worker_ticks :: "bool \<Rightarrow> (nat \<Rightarrow> worker_tick) \<Rightarrow> nat \<Rightarrow> PeerManager \<Rightarrow> (int list \<times> PeerManager) option" where
  "worker_ticks release ticks k m =
     Option.bind (privateRun release (wt_ec (ticks k)) (wt_elapsed (ticks k)) (wt_before (ticks k) m)) (\<lambda>(delay, m).
       case delay of None \<Rightarrow> Some ([], m)
       | Some d \<Rightarrow> Option.bind (worker_ticks release ticks (Suc k) m) (\<lambda>(ds, m). Some (d # ds, m)))"

definition worker_run :: "bool \<Rightarrow> (nat \<Rightarrow> worker_tick) \<Rightarrow> PeerManager \<Rightarrow> (int list \<times> PeerManager) option" where
  "worker_run release ticks m = map_option (\<lambda>(ds, m'). (int (rw_timeout (pm_worker m)) # ds, m')) (worker_ticks release ticks 0 m)"

definition proxy_address :: "(nat \<Rightarrow> string) \<Rightarrow> ConnectionProxy \<Rightarrow> string result" where
  "proxy_address remote p = (case proxy_server p of
       Some c \<Rightarrow> Ok (remote c)
     | None \<Rightarrow> (case proxy_client p of None \<Rightarrow> Err AssertFailed | Some c \<Rightarrow> Ok (remote c)))"

text \<open>
  Both kinds of proxy have an address: the assertion holds for every proxy that is made.
\<close>

lemma proxy_address_ok: "proxy_address remote (server_proxy c) = Ok (remote c)" "proxy_address remote (client_proxy c) = Ok (remote c)"
  by (simp_all add: proxy_address_def server_proxy_def client_proxy_def)

lemma privateRun_ok:
  assumes "peers_ok m" and "pm_started m"
  shows "\<exists>delay m'. privateRun release ec elapsed m = Some (delay, m') \<and> peers_ok m' \<and> pm_started m'
    \<and> (rw_shutdown (pm_worker m) \<longrightarrow> delay = None)"
proof (cases "\<not> ec \<and> \<not> rw_shutdown (pm_worker m)")
  case True
  obtain m' where m': "reconnect release m = Some m'" "peers_ok m'" "m' = m\<lparr>pm_peers := pm_peers m'\<rparr>"
    using reconnect_result [OF assms, of release] by blast
  have "pm_started m'" using assms(2) arg_cong [where f = pm_started, OF m'(3)] by simp
  with m'(1,2) True show ?thesis by (auto simp: privateRun_def)
qed (use assms in \<open>auto simp: privateRun_def\<close>)

text \<open>
  The thread ends: if the other threads keep the table in order and the worker has been told to shut down by the \<open>n\<close>-th tick, the
  thread returns after at most \<open>n\<close> more settings of the timer.
\<close>

theorem reconnect_thread_ends:
  assumes "\<forall>k m. peers_ok m \<and> pm_started m \<longrightarrow> peers_ok (wt_before (ticks k) m) \<and> pm_started (wt_before (ticks k) m)"
    and "\<forall>m. rw_shutdown (pm_worker (wt_before (ticks (k + n)) m))" and "peers_ok m" and "pm_started m"
  shows "\<exists>ds m'. worker_ticks release ticks k m = Some (ds, m') \<and> length ds \<le> n \<and> peers_ok m'"
  using assms(2-4)
proof (induction n arbitrary: k m)
  case 0
  have "peers_ok (wt_before (ticks k) m)" "pm_started (wt_before (ticks k) m)" using assms(1) 0 by blast+
  from privateRun_ok [OF this, of release "wt_ec (ticks k)" "wt_elapsed (ticks k)"] 0(1) show ?case
    by (subst worker_ticks.simps) auto
next
  case (Suc n)
  have "peers_ok (wt_before (ticks k) m)" "pm_started (wt_before (ticks k) m)" using assms(1) Suc.prems by blast+
  from privateRun_ok [OF this, of release "wt_ec (ticks k)" "wt_elapsed (ticks k)"] obtain delay m1 where
    m1: "privateRun release (wt_ec (ticks k)) (wt_elapsed (ticks k)) (wt_before (ticks k) m) = Some (delay, m1)" "peers_ok m1" "pm_started m1" by blast
  obtain ds m' where "worker_ticks release ticks (Suc k) m1 = Some (ds, m')" "length ds \<le> n" "peers_ok m'"
    using Suc.IH [of "Suc k" m1] Suc.prems(1) m1(2,3) by auto
  with m1 show ?case by (subst worker_ticks.simps) (cases delay; simp)
qed

end
