(* ===== verification/Ash_Protocol.thy ===== *)
theory Ash_Protocol
  imports Ash_Run Ash_Peers
begin

section \<open>Two nodes that exchange chains\<close>

text \<open>
  The handlers of two nodes composed: a node that is behind asks for a summary, learns that the other
  chain has more work, asks for the blocks it lacks and adopts them. The texts on the wire are
  those that one handler sends and the other receives.

  What is assumed of the JSON library beyond \<open>json_library\<close> is that it parses the texts of
  this exchange to the values they were written from.
\<close>

subsection \<open>Messages as JSON values\<close>

text \<open>A value with the two members that \<^verbatim>\<open>sendMessage\<close> adds.\<close>

definition tagged :: "('j, 'b) json_lib_scheme \<Rightarrow> string \<Rightarrow> string \<Rightarrow> 'j \<Rightarrow> 'j" where
  "tagged J msg msgtype j =
     j_set J (j_set J j ''message'' (j_of_string J msg)) ''message-type'' (j_of_string J msgtype)"

definition summary_request :: string where
  "summary_request = ''{'' @ quoted ''message'' @ '':'' @ quoted ''summary'' @ '', '' @ quoted ''message-type'' @ '':''
     @ quoted ''request'' @ ''}''"

definition summary_body :: "('j, 'b) json_lib_scheme \<Rightarrow> Block list \<Rightarrow> u64 \<Rightarrow> 'j" where
  "summary_body J bs cum =
     set_all J [(''blocks'', push_all J (Block_to_json J) [hd bs, last bs]), (''cumdiff'', j_of_u64 J cum)]"

definition range_body :: "('j, 'b) json_lib_scheme \<Rightarrow> u64 \<Rightarrow> u64 \<Rightarrow> 'j" where
  "range_body J id1 id2 = set_all J [(''id1'', j_of_u64 J id1), (''id2'', j_of_u64 J id2)]"

definition chain_body :: "('j, 'b) json_lib_scheme \<Rightarrow> Block list \<Rightarrow> 'j" where
  "chain_body J bs = set_all J [(''blocks'', push_all J (Block_to_json J) bs)]"

text \<open>The parser reads back what was written.\<close>

definition reads_back :: "('j, 'b) json_wire_scheme \<Rightarrow> 'j \<Rightarrow> bool" where
  "reads_back W j \<longleftrightarrow> j_dump W j \<noteq> [] \<and> j_parse W (j_dump W j) = Some j"

lemma sendMessage_eq:
  "j_parse W payload = Some j \<Longrightarrow> payload \<noteq> [] \<Longrightarrow> sendMessage W msg msgtype payload = Ok (j_dump W (tagged W msg msgtype j))"
  by (simp add: sendMessage_def tagged_def Let_def)

context json_library
begin

lemma tagged_at:
  assumes "j_type J j \<in> {JT_null, JT_object}"
  shows "j_contains J (tagged J msg mt j) k \<longleftrightarrow> k \<in> {''message'', ''message-type''} \<or> j_contains J j k"
    and "j_at J (tagged J msg mt j) ''message'' = Ok (j_of_string J msg)"
    and "j_at J (tagged J msg mt j) ''message-type'' = Ok (j_of_string J mt)"
    and "k \<notin> {''message'', ''message-type''} \<Longrightarrow> j_contains J j k \<Longrightarrow> j_at J (tagged J msg mt j) k = j_at J j k"
proof -
  have obj: "j_type J (j_set J j ''message'' v) \<in> {JT_null, JT_object}" for v using type_set [OF assms] by simp
  show "j_contains J (tagged J msg mt j) k \<longleftrightarrow> k \<in> {''message'', ''message-type''} \<or> j_contains J j k"
    by (auto simp: tagged_def contains_set [OF obj] contains_set [OF assms])
  show "j_at J (tagged J msg mt j) ''message'' = Ok (j_of_string J msg)"
    by (simp add: tagged_def at_set_other [OF obj] contains_set [OF assms] at_set [OF assms])
  show "j_at J (tagged J msg mt j) ''message-type'' = Ok (j_of_string J mt)"
    by (simp add: tagged_def at_set [OF obj])
  show "k \<notin> {''message'', ''message-type''} \<Longrightarrow> j_contains J j k \<Longrightarrow> j_at J (tagged J msg mt j) k = j_at J j k"
    by (auto simp: tagged_def at_set_other [OF obj] contains_set [OF assms] at_set_other [OF assms])
qed

lemma tagged_set_all:
  assumes "map_of (rev kvs) k = Some v" and "k \<notin> {''message'', ''message-type''}"
  shows "j_at J (tagged J msg mt (set_all J kvs)) k = Ok v" and "j_contains J (tagged J msg mt (set_all J kvs)) k"
proof -
  have "k \<in> fst ` set kvs" using assms(1) by (metis map_of_eq_None_iff option.distinct(1) set_rev)
  then show "j_at J (tagged J msg mt (set_all J kvs)) k = Ok v" and "j_contains J (tagged J msg mt (set_all J kvs)) k"
    using assms by (simp_all add: tagged_at [OF set_all_type] at_set_all)
qed

end

subsection \<open>The four messages\<close>

text \<open>A node answers a request for a summary with its first and last block and its work.\<close>

lemma answer_summary:
  assumes lib: "json_library W" and "blocks (blockchain s) \<noteq> []" and cum: "cumDifficulty (blockchain s) = Ok cum"
    and parse: "j_parse W raw = Some (tagged W ''summary'' ''request'' (j_null W))"
    and back_: "reads_back W (summary_body W (blocks (blockchain s)) cum)"
  shows "onChainMessage cp W reset_enable raw s
    = Ok ([j_dump W (tagged W ''summary'' ''response'' (summary_body W (blocks (blockchain s)) cum))], s)"
proof -
  have null: "j_type W (j_null W) \<in> {JT_null, JT_object}" by (simp add: json_library.type_null [OF lib])
  note at = json_library.tagged_at [OF lib null]
  have ends: "chain_front (blockchain s) = Ok (hd (blocks (blockchain s)))" "chain_back (blockchain s) = Ok (last (blocks (blockchain s)))"
    using assms(2) by (simp_all add: chain_front_def vec_front_Ok_iff chain_back_def vec_back_Ok_iff)
  have "sendResponse W ''summary'' (j_dump W (summary_body W (blocks (blockchain s)) cum))
      = Ok (j_dump W (tagged W ''summary'' ''response'' (summary_body W (blocks (blockchain s)) cum)))"
    using back_ unfolding sendResponse_def reads_back_def by (intro sendMessage_eq) simp_all
  then show ?thesis
    by (simp add: onChainMessage_def parse at at_get_def json_library.get_string [OF lib] dispatchRequest_def
        ends cum summary_body_def Let_def)
qed

text \<open>
  An idle node with the same first block and less work asks for the blocks after its last one.
\<close>

lemma ask_for_blocks:
  assumes lib: "json_library W" and ne: "blocks (blockchain s) \<noteq> []" "bs \<noteq> []" and none: "tempchain s = None"
    and same: "hd (blocks (blockchain s)) = hd bs"
    and cum: "cumDifficulty (blockchain s) = Ok d" "d < cum"
    and parse: "j_parse W raw = Some (tagged W ''summary'' ''response'' (summary_body W bs cum))"
    and range: "j_parse W (range_payload (index (last (blocks (blockchain s))) + 1) (index (last bs)))
      = Some (range_body W (index (last (blocks (blockchain s))) + 1) (index (last bs)))"
  shows "onChainMessage cp W reset_enable raw s = Ok ([j_dump W (tagged W ''chain'' ''request''
      (range_body W (index (last (blocks (blockchain s))) + 1) (index (last bs))))], s)"
proof -
  let ?j = "tagged W ''summary'' ''response'' (summary_body W bs cum)"
  have at: "j_at W ?j ''message'' = Ok (j_of_string W ''summary'')" "j_at W ?j ''message-type'' = Ok (j_of_string W ''response'')"
    "j_contains W ?j ''message''" "j_contains W ?j ''message-type''"
    unfolding summary_body_def using json_library.tagged_at [OF lib json_library.set_all_type [OF lib]] by simp_all
  have bl: "j_at W ?j ''blocks'' = Ok (push_all W (Block_to_json W) [hd bs, last bs])" "j_contains W ?j ''blocks''"
    and cu: "j_at W ?j ''cumdiff'' = Ok (j_of_u64 W cum)" "j_contains W ?j ''cumdiff''"
    unfolding summary_body_def using json_library.tagged_set_all [OF lib] by simp_all
  have ends: "chain_front (blockchain s) = Ok (hd (blocks (blockchain s)))" "chain_back (blockchain s) = Ok (last (blocks (blockchain s)))"
    using ne by (simp_all add: chain_front_def vec_front_Ok_iff chain_back_def vec_back_Ok_iff)
  have send: "sendRequestFmt W ''chain'' (range_payload (index (last (blocks (blockchain s))) + 1) (index (last bs)))
      = Ok (j_dump W (tagged W ''chain'' ''request'' (range_body W (index (last (blocks (blockchain s))) + 1) (index (last bs)))))"
    unfolding sendRequestFmt_def by (rule sendMessage_eq [OF range]) (simp add: range_payload_def)
  have idle: "sync_if_idle cp W (ts, s) = Ok (ts, s)" for ts
    by (simp add: sync_if_idle_def sync_none [OF none])
  show ?thesis
    using cum(2) same
    by (simp add: onChainMessage_def parse at at_get_def json_library.get_string [OF lib] handleResponse_def bl cu
        json_library.type_push_all [OF lib] json_library.items_push_all [OF lib] summary_response_def
        json_library.Block_json [OF lib] cum(1) json_library.get_u64 [OF lib] none ends Block_eq_def send idle Let_def)
qed

text \<open>The other node answers with exactly those blocks.\<close>

lemma answer_blocks:
  assumes lib: "json_library W" and ok: "chain_ok cp W (blockchain s)" and bs: "blocks (blockchain s) = pre @ ext" "ext \<noteq> []"
    and id1: "id1 = of_nat (length pre)" and id2: "id2 = index (last ext)"
    and parse: "j_parse W raw = Some (tagged W ''chain'' ''request'' (range_body W id1 id2))"
    and back_: "reads_back W (chain_body W ext)"
  shows "onChainMessage cp W reset_enable raw s = Ok ([j_dump W (tagged W ''chain'' ''response'' (chain_body W ext))], s)"
proof -
  let ?j = "tagged W ''chain'' ''request'' (range_body W id1 id2)"
  have at: "j_at W ?j ''message'' = Ok (j_of_string W ''chain'')" "j_at W ?j ''message-type'' = Ok (j_of_string W ''request'')"
    "j_contains W ?j ''message''" "j_contains W ?j ''message-type''"
    unfolding range_body_def using json_library.tagged_at [OF lib json_library.set_all_type [OF lib]] by simp_all
  have ids: "j_at W ?j ''id1'' = Ok (j_of_u64 W id1)" "j_at W ?j ''id2'' = Ok (j_of_u64 W id2)" "j_contains W ?j ''id1''"
    unfolding range_body_def using json_library.tagged_set_all [OF lib] by simp_all
  have len: "length (blocks (blockchain s)) < 2 ^ 32" using ok by (simp add: chain_ok_def)
  have idx: "index (blocks (blockchain s) ! i) = of_nat i" if "i < length (pre @ ext)" for i
    using chain_ok_index [OF ok, of i] that bs by simp
  have un: "unat (of_nat i :: u64) = i" if "i < length (pre @ ext)" for i
    using that len bs by (intro unat_of_nat64) simp
  have last: "id2 = of_nat (length (pre @ ext) - 1)"
  proof -
    have "last ext = (pre @ ext) ! (length (pre @ ext) - 1)"
      using bs(2) by (metis append_is_Nil_conv last_appendR last_conv_nth)
    then show ?thesis using idx [of "length (pre @ ext) - 1"] bs by (cases ext) (simp_all add: id2)
  qed
  have pre: "\<not> id1 \<le> index b" if b: "b \<in> set pre" for b
  proof -
    obtain i where i: "i < length pre" "b = pre ! i" using b by (auto simp: in_set_conv_nth)
    then have "index b = of_nat i" using idx [of i] bs by (simp add: nth_append)
    then show ?thesis using i un [of i] un [of "length pre"] bs(2) by (simp add: id1 word_le_nat_alt)
  qed
  have ext: "id1 \<le> index b \<and> index b \<le> id2" if b: "b \<in> set ext" for b
  proof -
    obtain i where i: "i < length ext" "b = ext ! i" using b by (auto simp: in_set_conv_nth)
    then have "index b = of_nat (length pre + i)" using idx [of "length pre + i"] bs by (simp add: nth_append)
    then show ?thesis
      using i un [of "length pre + i"] un [of "length pre"] un [of "length (pre @ ext) - 1"] bs(2)
      by (simp add: id1 last word_le_nat_alt del: of_nat_add)
  qed
  have flt: "filter (\<lambda>b. id1 \<le> index b \<and> index b \<le> id2) (blocks (blockchain s)) = ext"
    using pre ext bs(1) by (auto simp: filter_empty_conv filter_id_conv)
  have "index (hd ext) = id1" using idx [of "length pre"] bs by (simp add: id1 nth_append hd_conv_nth)
  then have mem: "id1 \<in> index ` set (blocks (blockchain s))" using bs by force
  have resp: "chain_response W (blockchain s) ?j = Ok (chain_body W ext)"
    using json_library.chain_response_range [OF lib ok mem ids] flt bs(2) by (simp add: Let_def chain_body_def)
  have "sendResponse W ''chain'' (j_dump W (chain_body W ext)) = Ok (j_dump W (tagged W ''chain'' ''response'' (chain_body W ext)))"
    using back_ unfolding sendResponse_def reads_back_def by (intro sendMessage_eq) simp_all
  then show ?thesis
    by (simp add: onChainMessage_def parse at at_get_def json_library.get_string [OF lib] dispatchRequest_def resp Let_def)
qed

text \<open>Blocks that continue the local chain are kept as the received chain; an idle node then synchronises.\<close>

abbreviation received :: "Block list \<Rightarrow> MinerApp \<Rightarrow> MinerApp" where
  "received ext s \<equiv> s\<lparr>tempchain := Some (empty_Blockchain\<lparr>blocks := ext\<rparr>)\<rparr>"

lemma receive_slice:
  assumes lib: "json_library W" and ok: "chain_ok cp W (blockchain s)"
    and lk: "chain_linked cp W ext" and ext: "ext \<noteq> []" "length ext < 2 ^ 32"
    and k: "index (hd ext) = of_nat k" "1 < k" "k \<le> length (blocks (blockchain s))"
    and parse: "j_parse W raw = Some (tagged W ''chain'' ''response'' (chain_body W ext))"
  shows "onChainMessage cp W reset_enable raw s =
    (if previousHash (hd ext) = hash (blocks (blockchain s) ! (k - 1)) then sync_if_idle cp W ([], received ext s)
     else rbind (sendRequestFmt W ''chain'' (range_payload (of_nat (k - 1)) (index (last ext)))) (\<lambda>t. sync_if_idle cp W ([t], s)))"
proof -
  let ?c = "blockchain s" and ?t = "empty_Blockchain\<lparr>blocks := ext\<rparr>"
  let ?j = "tagged W ''chain'' ''response'' (chain_body W ext)"
  have at: "j_at W ?j ''message'' = Ok (j_of_string W ''chain'')" "j_at W ?j ''message-type'' = Ok (j_of_string W ''response'')"
    "j_contains W ?j ''message''" "j_contains W ?j ''message-type''"
    unfolding chain_body_def using json_library.tagged_at [OF lib json_library.set_all_type [OF lib]] by simp_all
  have bl: "j_at W ?j ''blocks'' = Ok (push_all W (Block_to_json W) ext)"
    unfolding chain_body_def using json_library.tagged_set_all [OF lib] by simp
  have from_j: "Blockchain_from_json W (push_all W (Block_to_json W) ext) empty_Blockchain = Ok ?t"
    using json_library.Blockchain_json [OF lib, of "empty_Blockchain\<lparr>blocks := ext\<rparr>" empty_Blockchain]
    by (simp add: Blockchain_to_json_def)
  have valid: "isValidChain cp W ?t = Ok True" using lk ext(2) by (simp add: isValidChain_eq)
  have size: "chain_size ?t \<noteq> 0"
    using ext unat_vec_size [of ext] by (auto simp: chain_size_def word_unat_eq_iff)
  have len: "length (blocks ?c) < 2 ^ 32" using ok by (simp add: chain_ok_def)
  then have un: "unat (index (hd ext)) = k" "unat (index (hd ext) - 1) = k - 1" "index (hd ext) - 1 = of_nat (k - 1)"
    using k unat_of_nat64 [of k] unat_of_nat64 [of "k - 1"] by (simp_all add: of_nat_diff)
  have "\<not> index (hd ext) > index (last (blocks ?c)) + 1" "index (hd ext) \<noteq> 0"
    using chain_ok_last(3) [OF ok] k un(1) by (auto simp: word_less_nat_alt)
  moreover have "index (hd ext) - 1 < chain_size ?c" "index (hd ext) - 1 > 0"
    unfolding word_less_nat_alt un(2) using k len by (simp_all add: chain_size_def unat_vec_size)
  moreover have "chain_at ?c (index (hd ext) - 1) = Ok (blocks ?c ! (k - 1))"
    using k len un(2) by (simp add: chain_at_def vec_at_def)
  moreover have "chain_front ?t = Ok (hd ext)" "chain_back ?t = Ok (last ext)" "chain_back ?c = Ok (last (blocks ?c))"
    using k ext(1) by (auto simp: chain_front_def vec_front_Ok_iff chain_back_def vec_back_Ok_iff)
  ultimately have h: "handleChainResponse W ?t s =
      (if previousHash (hd ext) = hash (blocks ?c ! (k - 1)) then Ok ([], received ext s)
       else rbind (sendRequestFmt W ''chain'' (range_payload (of_nat (k - 1)) (index (last ext)))) (\<lambda>t. Ok ([t], s)))"
    by (simp add: handleChainResponse_def Let_def un(3))
  then show ?thesis
    using size valid
    by (simp add: onChainMessage_def parse at at_get_def json_library.get_string [OF lib] handleResponse_def bl from_j rbind_assoc)
qed

lemma receive_blocks:
  assumes lib: "json_library W" and ok: "chain_ok cp W (blockchain s)"
    and lk: "chain_linked cp W (blocks (blockchain s) @ ext)" and ext: "ext \<noteq> []"
    and len: "1 < length (blocks (blockchain s))" "length (blocks (blockchain s) @ ext) < 2 ^ 32"
    and parse: "j_parse W raw = Some (tagged W ''chain'' ''response'' (chain_body W ext))"
  shows "onChainMessage cp W reset_enable raw s = sync_if_idle cp W ([], received ext s)"
proof -
  let ?bs = "blocks (blockchain s)"
  have ne: "?bs \<noteq> []" using len by auto
  have links: "linked cp W (last ?bs) (hd ext)" "chain_linked cp W ext"
    using lk by (simp_all add: chain_linked_append [OF ne ext])
  then have "index (hd ext) = index (last ?bs) + 1" "previousHash (hd ext) = hash (?bs ! (length ?bs - 1))"
    using ne by (simp_all add: linked_def last_conv_nth)
  moreover from this(1) have "index (hd ext) = of_nat (length ?bs)" using chain_ok_last(3) [OF ok] by (metis of_nat_unat ucast_id)
  ultimately show ?thesis using receive_slice [OF lib ok links(2) ext _ _ len(1) _ parse] len(2) by simp
qed

text \<open>Synchronising with them appends them, in memory and in the file, and keeps the queue.\<close>

lemma append_received:
  assumes ok: "chain_ok cp J (blockchain s)" and step: "in_step s"
    and lk: "chain_linked cp J (blocks (blockchain s) @ ext)" and ext: "ext \<noteq> []" "list_all (\<lambda>b. ValidHash cp J b \<and> block_storable b) ext"
  shows "syncBlockchain cp J (received ext s) = Ok (True, s\<lparr>blockchain := (blockchain s)\<lparr>blocks := blocks (blockchain s) @ ext\<rparr>,
      database := fold db_write ext (database s), tempchain := None\<rparr>)"
    and "in_step (s\<lparr>blockchain := (blockchain s)\<lparr>blocks := blocks (blockchain s) @ ext\<rparr>,
      database := fold db_write ext (database s), tempchain := None\<rparr>)"
proof -
  let ?c = "blockchain s"
  have ne: "blocks ?c \<noteq> []" using ok by (simp add: chain_ok_def)
  have links: "linked cp J (last (blocks ?c)) (hd ext)" "chain_linked cp J ext"
    using lk by (simp_all add: chain_linked_append [OF ne ext(1)])
  then have n: "unat (index (hd ext)) = length (blocks ?c)" using chain_ok_last(3) [OF ok] by (simp add: linked_def)
  have ex: "extension cp J (blocks ?c ! (unat (index (hd ext)) - 1)) ext"
    using ext links ne n by (cases ext) (auto simp: extension_def list_all_iff last_conv_nth)
  have st: "list_all block_storable ext" using ext(2) by (simp add: list_all_iff)
  show "syncBlockchain cp J (received ext s) = Ok (True, s\<lparr>blockchain := ?c\<lparr>blocks := blocks ?c @ ext\<rparr>,
      database := fold db_write ext (database s), tempchain := None\<rparr>)"
    using syncBlockchain_eq [of cp J "received ext s" "empty_Blockchain\<lparr>blocks := ext\<rparr>"] ok ext(1) n ne ex by auto
  show "in_step (s\<lparr>blockchain := ?c\<lparr>blocks := blocks ?c @ ext\<rparr>, database := fold db_write ext (database s), tempchain := None\<rparr>)"
    using step stored_fold_write [OF _ st] st by (auto simp: in_step_def)
qed

subsection \<open>Catching up\<close>

text \<open>
  What the parser has to read back: the texts of the exchange in which the blocks \<open>ext\<close> after the first \<open>n\<close> of
  \<open>bs\<close> are handed over.
\<close>

definition exchange_texts :: "('j, 'b) json_lib_scheme \<Rightarrow> Block list \<Rightarrow> Block list \<Rightarrow> u64 \<Rightarrow> u64 \<Rightarrow> 'j list" where
  "exchange_texts J bs ext cum id1 =
     [summary_body J bs cum, tagged J ''summary'' ''response'' (summary_body J bs cum),
      tagged J ''chain'' ''request'' (range_body J id1 (index (last bs))),
      chain_body J ext, tagged J ''chain'' ''response'' (chain_body J ext)]"

lemma exchange_messages:
  assumes lib: "json_library W" and A: "chain_ok cp W (blockchain a)" "tempchain a = None"
    and B: "chain_ok cp W (blockchain b)" "blocks (blockchain b) = blocks (blockchain a) @ ext" "ext \<noteq> []"
    and two: "1 < length (blocks (blockchain a))"
    and cum: "cumDifficulty (blockchain a) = Ok ca" "cumDifficulty (blockchain b) = Ok cb" "ca < cb"
    and id1: "id1 = of_nat (length (blocks (blockchain a)))"
    and raw: "j_parse W raw = Some (tagged W ''summary'' ''request'' (j_null W))"
    and range: "j_parse W (range_payload id1 (index (last (blocks (blockchain b))))) = Some (range_body W id1 (index (last (blocks (blockchain b)))))"
    and reads: "\<forall>j \<in> set (exchange_texts W (blocks (blockchain b)) ext cb id1). reads_back W j"
  shows "\<exists>t1 t2 t3. onChainMessage cp W reset_b raw b = Ok ([t1], b)
    \<and> onChainMessage cp W reset_a t1 a = Ok ([t2], a)
    \<and> onChainMessage cp W reset_b t2 b = Ok ([t3], b)
    \<and> onChainMessage cp W reset_a t3 a = sync_if_idle cp W ([], received ext a)"
proof -
  let ?id2 = "index (last (blocks (blockchain b)))"
  have rb: "reads_back W (summary_body W (blocks (blockchain b)) cb)"
      "reads_back W (tagged W ''summary'' ''response'' (summary_body W (blocks (blockchain b)) cb))"
      "reads_back W (tagged W ''chain'' ''request'' (range_body W id1 ?id2))"
      "reads_back W (chain_body W ext)" "reads_back W (tagged W ''chain'' ''response'' (chain_body W ext))"
    using reads by (simp_all add: exchange_texts_def)
  have ne: "blocks (blockchain a) \<noteq> []" "blocks (blockchain b) \<noteq> []" using A(1) B(1) by (simp_all add: chain_ok_def)
  have next_: "index (last (blocks (blockchain a))) + 1 = id1"
    unfolding id1 chain_ok_last(3) [OF A(1), symmetric] by simp
  have hd: "hd (blocks (blockchain a)) = hd (blocks (blockchain b))" using ne B(2) by simp
  have len: "length (blocks (blockchain a) @ ext) < 2 ^ 32" and lk: "chain_linked cp W (blocks (blockchain a) @ ext)"
    using B(1,2) by (simp_all add: chain_ok_def)
  have "onChainMessage cp W reset_b raw b
      = Ok ([j_dump W (tagged W ''summary'' ''response'' (summary_body W (blocks (blockchain b)) cb))], b)"
    by (rule answer_summary [OF lib ne(2) cum(2) raw rb(1)])
  moreover have "onChainMessage cp W reset_a (j_dump W (tagged W ''summary'' ''response'' (summary_body W (blocks (blockchain b)) cb))) a
      = Ok ([j_dump W (tagged W ''chain'' ''request'' (range_body W id1 ?id2))], a)"
    using ask_for_blocks [OF lib ne A(2) hd cum(1,3)] rb(2) range by (simp add: reads_back_def next_)
  moreover have "onChainMessage cp W reset_b (j_dump W (tagged W ''chain'' ''request'' (range_body W id1 ?id2))) b
      = Ok ([j_dump W (tagged W ''chain'' ''response'' (chain_body W ext))], b)"
    using answer_blocks [OF lib B(1-3) id1 _ _ rb(4), of ?id2] rb(3) B(2,3) by (simp add: reads_back_def)
  moreover have "onChainMessage cp W reset_a (j_dump W (tagged W ''chain'' ''response'' (chain_body W ext))) a
      = sync_if_idle cp W ([], received ext a)"
    using receive_blocks [OF lib A(1) lk B(3) two len] rb(5) unfolding reads_back_def by blast
  ultimately show ?thesis by metis
qed

text \<open>
  A node that is behind catches up. Let the chain of one node continue the chain of an idle
  node, which has at least two blocks, by valid blocks, with more work. Then the four messages (a request for a summary, the
  answer, a request for the missing blocks, the answer), each handled by the code of the
  receiving node, leave the first node unchanged and give the idle node exactly
  the chain of the other, in memory and in its file.
\<close>

theorem node_catches_up:
  assumes lib: "json_library W" and A: "chain_ok cp W (blockchain a)" "in_step a" "miningDone a" "tempchain a = None"
    and B: "chain_ok cp W (blockchain b)" "blocks (blockchain b) = blocks (blockchain a) @ ext" "ext \<noteq> []"
      "list_all (\<lambda>b. ValidHash cp W b \<and> block_storable b) ext"
    and two: "1 < length (blocks (blockchain a))"
    and cum: "cumDifficulty (blockchain a) = Ok ca" "cumDifficulty (blockchain b) = Ok cb" "ca < cb"
    and id1: "id1 = of_nat (length (blocks (blockchain a)))" and id2: "id2 = index (last (blocks (blockchain b)))"
    and parse: "j_parse W summary_request = Some (tagged W ''summary'' ''request'' (j_null W))"
      "j_parse W (range_payload id1 id2) = Some (range_body W id1 id2)"
    and reads: "reads_back W (summary_body W (blocks (blockchain b)) cb)"
      "reads_back W (tagged W ''summary'' ''response'' (summary_body W (blocks (blockchain b)) cb))"
      "reads_back W (tagged W ''chain'' ''request'' (range_body W id1 id2))"
      "reads_back W (chain_body W ext)" "reads_back W (tagged W ''chain'' ''response'' (chain_body W ext))"
  shows "\<exists>t1 t2 t3 a'. onChainMessage cp W reset_b summary_request b = Ok ([t1], b)
    \<and> onChainMessage cp W reset_a t1 a = Ok ([t2], a)
    \<and> onChainMessage cp W reset_b t2 b = Ok ([t3], b)
    \<and> onChainMessage cp W reset_a t3 a = Ok ([], a')
    \<and> blocks (blockchain a') = blocks (blockchain b) \<and> in_step a'"
proof -
  have lk: "chain_linked cp W (blocks (blockchain a) @ ext)" using B(1,2) by (simp add: chain_ok_def)
  have "\<forall>j \<in> set (exchange_texts W (blocks (blockchain b)) ext cb id1). reads_back W j"
    using reads by (simp add: exchange_texts_def id2)
  from exchange_messages [OF lib A(1,4) B(1-3) two cum id1 parse(1) parse(2) [unfolded id2] this, of reset_b reset_a]
  obtain t1 t2 t3 where "onChainMessage cp W reset_b summary_request b = Ok ([t1], b)" "onChainMessage cp W reset_a t1 a = Ok ([t2], a)"
    "onChainMessage cp W reset_b t2 b = Ok ([t3], b)" "onChainMessage cp W reset_a t3 a = sync_if_idle cp W ([], received ext a)" by blast
  moreover note append_received [OF A(1,2) lk B(3,4)]
  ultimately show ?thesis using A(3) B(2) by (auto simp: sync_if_idle_def)
qed

text \<open>
  An exchange between two sample nodes. Texts are the positions of the values in a list, so that
  the parser reads them back.
\<close>

definition listed_wire :: "(string \<rightharpoonup> jval) \<Rightarrow> jval list \<Rightarrow> jval json_wire" where
  "listed_wire p vs = (jval_wire (\<lambda>t. case p t of Some v \<Rightarrow> Some v
       | None \<Rightarrow> if digits_value 0 t < length vs then Some (vs ! digits_value 0 t) else None))
     \<lparr>j_dump := (\<lambda>j. show_nat (length (takeWhile (\<lambda>x. x \<noteq> j) vs)))\<rparr>"

lemma json_library_listed: "json_library (listed_wire p vs)"
  by unfold_locales
    (auto simp: listed_wire_def jval_wire_def map_of_alist_set jval_type_iff split: if_splits option.splits)

lemma reads_back_listed:
  assumes "j \<in> set vs" and "\<And>n. p (show_nat n) = None"
  shows "reads_back (listed_wire p vs) j"
proof -
  have "length (takeWhile (\<lambda>x. x \<noteq> j) vs) < length vs \<and> vs ! length (takeWhile (\<lambda>x. x \<noteq> j) vs) = j"
    using assms(1) by (induction vs) auto
  then show ?thesis using assms(2) by (simp add: reads_back_def listed_wire_def jval_wire_def digits_value_show_nat)
qed

lemma listed_fields:
  "j_null (listed_wire p vs) = j_null jval_lib" "j_of_u64 (listed_wire p vs) = j_of_u64 jval_lib"
  "j_of_double (listed_wire p vs) = j_of_double jval_lib" "j_of_string (listed_wire p vs) = j_of_string jval_lib"
  "j_set (listed_wire p vs) = j_set jval_lib" "j_push (listed_wire p vs) = j_push jval_lib"
  "j_parse (listed_wire p vs) t = (case p t of Some v \<Rightarrow> Some v
       | None \<Rightarrow> if digits_value 0 t < length vs then Some (vs ! digits_value 0 t) else None)"
  by (simp_all add: listed_wire_def jval_wire_def jval_lib_def)

lemma listed_eq:
  "tagged (listed_wire p vs) = tagged jval_lib" "summary_body (listed_wire p vs) = summary_body jval_lib"
  "range_body (listed_wire p vs) = range_body jval_lib" "chain_body (listed_wire p vs) = chain_body jval_lib"
  by (simp_all add: fun_eq_iff listed_fields tagged_def summary_body_def range_body_def chain_body_def set_all_def
      push_all_def Block_to_json_def Transactions_to_json_def Transaction_to_json_def TxIns_to_json_def TxOuts_to_json_def
      TxIn_to_json_def TxOut_to_json_def TxOutPoint_to_json_def cong: option.case_cong)

lemma show_nat_not_brace: "show_nat n \<noteq> CHR 0x7B # r"
  using digits_show_nat [of n] by (cases "show_nat n") (auto simp: digits_def isdigit_def less_eq_char_def)

definition sample_ahead :: MinerApp where
  "sample_ahead = sample_node\<lparr>blockchain := empty_Blockchain\<lparr>blocks :=
     [sample_block 0 1 5 [], sample_block 1 1 9 [], sample_block 2 1 12 []]\<rparr>\<rparr>"

theorem node_catches_up_witness:
  "\<exists>(W :: jval json_wire) t1 t2 t3 a'. onChainMessage sample_cp W False summary_request sample_ahead = Ok ([t1], sample_ahead)
    \<and> onChainMessage sample_cp W False t1 (sample_node\<lparr>miningDone := True\<rparr>) = Ok ([t2], sample_node\<lparr>miningDone := True\<rparr>)
    \<and> onChainMessage sample_cp W False t2 sample_ahead = Ok ([t3], sample_ahead)
    \<and> onChainMessage sample_cp W False t3 (sample_node\<lparr>miningDone := True\<rparr>) = Ok ([], a')
    \<and> blocks (blockchain a') = blocks (blockchain sample_ahead)"
proof -
  let ?a = "sample_node\<lparr>miningDone := True\<rparr>" and ?ext = "[sample_block 2 1 12 []]" and ?J = jval_lib
  let ?bs = "blocks (blockchain sample_ahead)"
  define p where "p = [summary_request \<mapsto> tagged ?J ''summary'' ''request'' (j_null ?J), range_payload 2 2 \<mapsto> range_body ?J 2 2]"
  define vs where "vs = [summary_body ?J ?bs 4, tagged ?J ''summary'' ''response'' (summary_body ?J ?bs 4),
    tagged ?J ''chain'' ''request'' (range_body ?J 2 2), chain_body ?J ?ext, tagged ?J ''chain'' ''response'' (chain_body ?J ?ext)]"
  define W where "W = listed_wire p vs"
  have lib: "json_library W" unfolding W_def by (rule json_library_listed)
  have "p (show_nat n) = None" for n
    using show_nat_not_brace [of n] by (auto simp: p_def summary_request_def range_payload_def)
  then have reads: "reads_back W j" if "j \<in> set vs" for j unfolding W_def using that by (intro reads_back_listed)
  have ne: "range_payload 2 2 \<noteq> summary_request" by (simp add: range_payload_def summary_request_def quoted_def)
  have parse: "j_parse W summary_request = Some (tagged W ''summary'' ''request'' (j_null W))"
      "j_parse W (range_payload 2 2) = Some (range_body W 2 2)"
    using ne by (auto simp: W_def listed_fields(7) listed_eq listed_fields(1) p_def)
  have cum: "cumDifficulty (blockchain ?a) = Ok 2" "cumDifficulty (blockchain sample_ahead) = Ok 4"
    by (simp_all add: cumDifficulty_def cumDifficulty_to_def chain_size_def vec_size_def pow2_u64_def sample_ahead_def)
  have "\<exists>t1 t2 t3 a'. onChainMessage sample_cp W False summary_request sample_ahead = Ok ([t1], sample_ahead)
    \<and> onChainMessage sample_cp W False t1 ?a = Ok ([t2], ?a) \<and> onChainMessage sample_cp W False t2 sample_ahead = Ok ([t3], sample_ahead)
    \<and> onChainMessage sample_cp W False t3 ?a = Ok ([], a') \<and> blocks (blockchain a') = ?bs \<and> in_step a'"
  proof (rule node_catches_up [OF lib, where ext = ?ext and ca = 2 and cb = 4 and ?id1.0 = 2 and ?id2.0 = 2])
    show "in_step ?a" using sample_node_in_step by (simp add: in_step_def)
  qed (use sample_node_ok [of W] parse cum reads in \<open>simp_all add: sample_ahead_def chain_ok_def linked_def
      ValidHash_sample sample_storable vs_def W_def listed_eq\<close>)
  then show ?thesis by blast
qed

end
