(* ===== verification/Ash_Settings.thy ===== *)
theory Ash_Settings
  imports Ash_Json Ash_Utils
begin

section \<open>Settings\<close>

text \<open>
  \<^verbatim>\<open>src/src/Settings.h\<close>, \<^verbatim>\<open>src/src/Settings.cpp\<close> and the registration of the settings in
  \<^verbatim>\<open>src/src/main.cpp\<close>: typed settings with default values and validators, kept as JSON
  objects, read from and written to a configuration file.

  The validators satisfy a common contract (locale \<open>validator_contract\<close>). The type invariant says that
  every setting has the JSON type of its default; registering, setting and resetting keep it,
  so that every reader finds the stored value. Loading a file does not keep it, and a few inputs escape the validators;
  these are stated as theorems too.
\<close>

subsection \<open>More of the JSON library\<close>

text \<open>
  \<open>j_entries j\<close> are the keys and values \<^verbatim>\<open>j.items()\<close> runs through, \<open>j_clear\<close> is \<^verbatim>\<open>clear()\<close>, and
  \<open>j_pretty\<close> the text \<^verbatim>\<open>out << std::setw(4) << j\<close> writes.
\<close>

record 'j json_conf = "'j json_wire" +
  j_entries :: "'j \<Rightarrow> (string \<times> 'j) list"
  j_clear :: "'j \<Rightarrow> 'j"
  j_pretty :: "'j \<Rightarrow> string"

locale json_conf_library = json_library J for J :: "('j, 'b) json_conf_scheme" +
  assumes type_i32: "j_type J (j_of_i32 J i) = JT_number_integer"
    and type_bool: "j_type J (j_of_bool J b) = JT_boolean"
    and type_string: "j_type J (j_of_string J s) = JT_string"
    and get_u64_i32: "j_get_u64 J (j_of_i32 J i) = Ok (scast i)"
    and get_bool_total: "j_type J j = JT_boolean \<Longrightarrow> \<exists>b. j_get_bool J j = Ok b"
    and get_string_total: "j_type J j = JT_string \<Longrightarrow> \<exists>s. j_get_string J j = Ok s"
    and get_string_error: "j_type J j \<noteq> JT_string \<Longrightarrow> j_get_string J j = Err JsonTypeError"
    and get_u64_total: "j_type J j \<in> {JT_number_unsigned, JT_number_integer} \<Longrightarrow> \<exists>n. j_get_u64 J j = Ok n"
    and contains_object: "j_contains J j k \<Longrightarrow> j_type J j = JT_object"
    and entries_iff: "j_type J j \<in> {JT_null, JT_object} \<Longrightarrow>
      (k, v) \<in> set (j_entries J j) \<longleftrightarrow> j_contains J j k \<and> j_at J j k = Ok v"
    and at_total: "j_contains J j k \<Longrightarrow> \<exists>v. j_at J j k = Ok v"
    and entries_distinct: "distinct (map fst (j_entries J j))"
    and type_clear: "j_type J j \<in> {JT_null, JT_object} \<Longrightarrow> j_type J (j_clear J j) \<in> {JT_null, JT_object}"
    and contains_clear: "\<not> j_contains J (j_clear J j) k"
    and dump_u64: "j_dump J (j_of_u64 J n) = show_u64 n"
    and dump_bool: "j_dump J (j_of_bool J b) = (if b then ''true'' else ''false'')"

subsection \<open>Validators\<close>

text \<open>The number types that the templates are instantiated with.\<close>

datatype num_type = T_i32 | T_u32 | T_u64

definition lexical_cast :: "boost_lib \<Rightarrow> num_type \<Rightarrow> string \<Rightarrow> int option" where
  "lexical_cast B T s = (case T of
       T_i32 \<Rightarrow> map_option sint (b_lex_i32 B s)
     | T_u32 \<Rightarrow> map_option uint (b_lex_u32 B s)
     | T_u64 \<Rightarrow> map_option uint (b_lex_u64 B s))"

datatype Validator =
    NotEmptyValidator
  | LengthValidator u64
  | NumberValidator num_type
  | RangeValidator num_type int int
  | BoolValidator
  | EnumValidator "string list"

fun isValid :: "boost_lib \<Rightarrow> Validator \<Rightarrow> string \<Rightarrow> bool" where
  "isValid B NotEmptyValidator s = (s \<noteq> [])"
| "isValid B (LengthValidator maxlen) s = (vec_size s \<le> maxlen)"
| "isValid B (NumberValidator T) s = (lexical_cast B T s \<noteq> None)"
| "isValid B (RangeValidator T minval maxval) s =
     (case lexical_cast B T s of None \<Rightarrow> False | Some x \<Rightarrow> minval \<le> x \<and> x \<le> maxval)"
| "isValid B BoolValidator s = isBoolean B s"
| "isValid B (EnumValidator values) s = list_ex (\<lambda>val. b_iequals B val s) values"

definition quote1 :: "string \<Rightarrow> string" where
  "quote1 s = [CHR 0x27] @ s @ [CHR 0x27]"

definition number_error :: "string \<Rightarrow> string" where
  "number_error s = ''the value '' @ quote1 s @ '' is not a numeric value''"

fun validator_error :: "Validator \<Rightarrow> string \<Rightarrow> string" where
  "validator_error NotEmptyValidator s = ''the setting cannot be empty''"
| "validator_error (LengthValidator maxlen) s =
     ''the value '' @ quote1 s @ '' exceeds the max legnth '' @ quote1 (show_u64 maxlen)"
| "validator_error (NumberValidator T) s = number_error s"
| "validator_error (RangeValidator T minval maxval) s =
     ''the value '' @ quote1 s @ '' falls outside the range '' @ show_int minval @ ''-'' @ show_int maxval"
| "validator_error BoolValidator s = ''the value '' @ quote1 s @ '' is not a boolean value''"
| "validator_error (EnumValidator values) s =
     ''invalid value '' @ quote1 s @ '', possible values are: '' @ sep_by '','' values"

text \<open>\<^verbatim>\<open>Validator::validate\<close>, which \<^verbatim>\<open>RangeValidator\<close> overrides.\<close>

definition validate :: "boost_lib \<Rightarrow> Validator \<Rightarrow> string \<Rightarrow> unit result" where
  "validate B v s = (case v of
       RangeValidator T minval maxval \<Rightarrow>
         (if \<not> isValid B (NumberValidator T) s then Err (InvalidArgument (number_error s))
          else if \<not> isValid B v s then Err (InvalidArgument (validator_error v s)) else Ok ())
     | _ \<Rightarrow> if \<not> isValid B v s then Err (InvalidArgument (validator_error v s)) else Ok ())"

text \<open>What every validator promises: it throws, and only an invalid argument, exactly on the texts
  it calls invalid.\<close>

locale validator_contract =
  fixes valid :: "string \<Rightarrow> bool" and check :: "string \<Rightarrow> unit result"
  assumes check_valid: "valid s \<Longrightarrow> check s = Ok ()"
    and check_invalid: "\<not> valid s \<Longrightarrow> \<exists>msg. check s = Err (InvalidArgument msg)"
begin

lemma check_Ok_iff: "check s = Ok u \<longleftrightarrow> valid s"
  using check_valid check_invalid by (cases "valid s") fastforce+

lemma check_Err: "check s = Err e \<Longrightarrow> \<exists>msg. e = InvalidArgument msg"
  using check_valid check_invalid by (cases "valid s") fastforce+

end

interpretation validator: validator_contract "isValid B v" "validate B v" for B v
  by unfold_locales (cases v; auto simp: validate_def split: option.splits)+

subsection \<open>State and operations\<close>

text \<open>
  \<open>conf_validators n\<close> is nothing for a null pointer, and for a name without entry: looking
  up such a name with \<^verbatim>\<open>_validators[name]\<close> adds a null pointer.
\<close>

record 'j Settings =
  conf_settings :: 'j
  conf_defaults :: 'j
  conf_validators :: "string \<Rightarrow> Validator option"

definition new_Settings :: "('j, 'b) json_lib_scheme \<Rightarrow> 'j Settings" where
  "new_Settings J = \<lparr>conf_settings = j_null J, conf_defaults = j_null J, conf_validators = Map.empty\<rparr>"

definition json_to_string :: "('j, 'b) json_lib_scheme \<Rightarrow> 'j \<Rightarrow> string result" where
  "json_to_string J j = (if j_type J j = JT_string then j_get_string J j else Ok (j_dump J j))"

definition conf_exists :: "('j, 'b) json_lib_scheme \<Rightarrow> string \<Rightarrow> 'j Settings \<Rightarrow> bool" where
  "conf_exists J name S = j_contains J (conf_settings S) name"

definition put_setting :: "('j, 'b) json_lib_scheme \<Rightarrow> string \<Rightarrow> 'j \<Rightarrow> 'j Settings \<Rightarrow> 'j Settings" where
  "put_setting J name v S = S\<lparr>conf_settings := j_set J (conf_settings S) name v\<rparr>"

text \<open>The two assignments at the end of every registration.\<close>

definition put_default :: "('j, 'b) json_lib_scheme \<Rightarrow> string \<Rightarrow> 'j \<Rightarrow> 'j Settings \<Rightarrow> 'j Settings" where
  "put_default J name v S = (put_setting J name v S)\<lparr>conf_defaults := j_set J (conf_defaults S) name v\<rparr>"

definition put_validator :: "string \<Rightarrow> Validator option \<Rightarrow> 'j Settings \<Rightarrow> 'j Settings" where
  "put_validator name v S = S\<lparr>conf_validators := (conf_validators S)(name := v)\<rparr>"

definition registerString ::
  "boost_lib \<Rightarrow> ('j, 'b) json_lib_scheme \<Rightarrow> string \<Rightarrow> string \<Rightarrow> Validator option \<Rightarrow> 'j Settings \<Rightarrow> 'j Settings result" where
  "registerString B J name val validator S =
     rbind (case validator of Some v \<Rightarrow> validate B v val | None \<Rightarrow> Ok ()) (\<lambda>_.
       Ok (put_default J name (j_of_string J val) (put_validator name validator S)))"

definition registerInt ::
  "('j, 'b) json_lib_scheme \<Rightarrow> string \<Rightarrow> u32 \<Rightarrow> Validator option \<Rightarrow> 'j Settings \<Rightarrow> 'j Settings" where
  "registerInt J name val validator S =
     put_default J name (j_of_i32 J val)
       (put_validator name (case validator of Some v \<Rightarrow> Some v | None \<Rightarrow> Some (NumberValidator T_i32)) S)"

definition registerUInt ::
  "('j, 'b) json_lib_scheme \<Rightarrow> string \<Rightarrow> u32 \<Rightarrow> Validator option \<Rightarrow> 'j Settings \<Rightarrow> 'j Settings" where
  "registerUInt J name val validator S =
     put_default J name (j_of_u64 J (ucast val))
       (put_validator name (case validator of Some v \<Rightarrow> Some v | None \<Rightarrow> Some (NumberValidator T_u32)) S)"

definition registerBool :: "('j, 'b) json_lib_scheme \<Rightarrow> string \<Rightarrow> bool \<Rightarrow> 'j Settings \<Rightarrow> 'j Settings" where
  "registerBool J name val S = put_default J name (j_of_bool J val) (put_validator name (Some BoolValidator) S)"

definition registerEnum ::
  "boost_lib \<Rightarrow> ('j, 'b) json_lib_scheme \<Rightarrow> string \<Rightarrow> string \<Rightarrow> string list \<Rightarrow> 'j Settings \<Rightarrow> 'j Settings result" where
  "registerEnum B J name val possibleVals S =
     rbind (validate B (EnumValidator possibleVals) val) (\<lambda>_.
       Ok (put_default J name (j_of_string J val) (put_validator name (Some (EnumValidator possibleVals)) S)))"

text \<open>
  The conversion by the type of the stored value, shared by \<^verbatim>\<open>set\<close> and \<^verbatim>\<open>setNoThrow\<close>.
\<close>

definition convert_setting :: "boost_lib \<Rightarrow> ('j, 'b) json_lib_scheme \<Rightarrow> string \<Rightarrow> jtype \<Rightarrow> string \<Rightarrow> 'j result" where
  "convert_setting B J name t val =
     (if t = JT_number_unsigned
      then (case b_lex_u32 B val of None \<Rightarrow> Err BadLexicalCast | Some n \<Rightarrow> Ok (j_of_u64 J (ucast n)))
      else if t = JT_number_integer
      then (case b_lex_i32 B val of None \<Rightarrow> Err BadLexicalCast | Some i \<Rightarrow> Ok (j_of_i32 J i))
      else if t = JT_boolean then rbind (convertToBool B val) (\<lambda>b. Ok (j_of_bool J b))
      else if t = JT_string then Ok (j_of_string J val)
      else Err (InvalidArgument (''unknown setting type '' @ quote1 name)))"

definition conf_set ::
  "boost_lib \<Rightarrow> ('j, 'b) json_lib_scheme \<Rightarrow> string \<Rightarrow> string \<Rightarrow> 'j Settings \<Rightarrow> 'j Settings result" where
  "conf_set B J name val S =
     (if \<not> conf_exists J name S
      then Err (InvalidArgument (''setting '' @ quote1 name @ '' has not been registered''))
      else rbind (case conf_validators S name of None \<Rightarrow> Err UndefinedBehaviour | Some v \<Rightarrow> validate B v val) (\<lambda>_.
           rbind (j_at J (conf_settings S) name) (\<lambda>j.
           rbind (convert_setting B J name (j_type J j) val) (\<lambda>j'.
             Ok (put_setting J name j' S)))))"

definition setNoThrow ::
  "boost_lib \<Rightarrow> ('j, 'b) json_lib_scheme \<Rightarrow> string \<Rightarrow> string \<Rightarrow> 'j Settings \<Rightarrow> (bool \<times> 'j Settings) result" where
  "setNoThrow B J name val S =
     (if \<not> conf_exists J name S then Ok (False, S)
      else rbind (j_at J (conf_settings S) name) (\<lambda>j.
           if j_type J j \<notin> {JT_number_unsigned, JT_number_integer, JT_boolean, JT_string}
           then Err (InvalidArgument (''unknown setting type '' @ quote1 name))
           else case conf_validators S name of
                  None \<Rightarrow> Err UndefinedBehaviour
                | Some v \<Rightarrow> if isValid B v val
                            then rbind (convert_setting B J name (j_type J j) val) (\<lambda>j'.
                                   Ok (True, put_setting J name j' S))
                            else Ok (False, S)))"

text \<open>
  The readers: the stored value when the name is registered and its value has the right type,
  and the given default otherwise. \<^verbatim>\<open>is_number_integer\<close> holds for unsigned values as well.
  A conversion to a 32-bit type truncates.
\<close>

definition conf_value ::
  "('j, 'b) json_lib_scheme \<Rightarrow> jtype set \<Rightarrow> ('j \<Rightarrow> 'a result) \<Rightarrow> string \<Rightarrow> 'a \<Rightarrow> 'j Settings \<Rightarrow> 'a result" where
  "conf_value J types get name defval S =
     (if \<not> conf_exists J name S then Ok defval
      else rbind (j_at J (conf_settings S) name) (\<lambda>j.
           if j_type J j \<notin> types then Ok defval else get j))"

definition value_u32 :: "('j, 'b) json_lib_scheme \<Rightarrow> string \<Rightarrow> u32 \<Rightarrow> 'j Settings \<Rightarrow> u32 result" where
  "value_u32 J = conf_value J {JT_number_unsigned} (\<lambda>j. rbind (j_get_u64 J j) (\<lambda>n. Ok (ucast n)))"

definition value_i32 :: "('j, 'b) json_lib_scheme \<Rightarrow> string \<Rightarrow> u32 \<Rightarrow> 'j Settings \<Rightarrow> u32 result" where
  "value_i32 J = conf_value J {JT_number_integer, JT_number_unsigned} (\<lambda>j. rbind (j_get_u64 J j) (\<lambda>n. Ok (ucast n)))"

definition value_bool :: "('j, 'b) json_lib_scheme \<Rightarrow> string \<Rightarrow> bool \<Rightarrow> 'j Settings \<Rightarrow> bool result" where
  "value_bool J = conf_value J {JT_boolean} (j_get_bool J)"

definition value_string :: "('j, 'b) json_lib_scheme \<Rightarrow> string \<Rightarrow> string \<Rightarrow> 'j Settings \<Rightarrow> string result" where
  "value_string J = conf_value J {JT_string} (j_get_string J)"

definition conf_reset :: "('j, 'b) json_conf_scheme \<Rightarrow> 'j Settings \<Rightarrow> 'j Settings" where
  "conf_reset J S =
     S\<lparr>conf_settings := fold (\<lambda>(k, v) j. j_set J j k v) (j_entries J (conf_defaults S))
         (j_clear J (conf_settings S))\<rparr>"

subsection \<open>The configuration file\<close>

text \<open>The content of the file is an argument, nothing when there is no file.\<close>

definition load_item ::
  "boost_lib \<Rightarrow> ('j, 'b) json_lib_scheme \<Rightarrow> string \<times> 'j \<Rightarrow> 'j Settings \<times> nat \<Rightarrow> ('j Settings \<times> nat) result" where
  "load_item B J kv Sc = (case kv of (key, val) \<Rightarrow> case Sc of (S, count) \<Rightarrow>
     if \<not> conf_exists J key S
     then Err (InvalidArgument (''unregistered config value '' @ quote1 key))
     else rbind (case conf_validators S key of None \<Rightarrow> Ok True
                 | Some v \<Rightarrow> rbind (json_to_string J val) (\<lambda>s. Ok (isValid B v s))) (\<lambda>valid.
          if valid then Ok (put_setting J key val S, count + 1)
          else rbind (j_get_string J val) (\<lambda>s.
               Err (InvalidArgument (''error loading config item '' @ quote1 key @ '': invalid value '' @ quote1 s)))))"

definition conf_load ::
  "boost_lib \<Rightarrow> ('j, 'b) json_conf_scheme \<Rightarrow> string option \<Rightarrow> 'j Settings \<Rightarrow> ('j Settings \<times> nat) result" where
  "conf_load B J content S =
     (case content of
        None \<Rightarrow> Ok (S, 0)
      | Some txt \<Rightarrow>
          (case j_parse J txt of
             None \<Rightarrow> Err JsonParseError
           | Some settings \<Rightarrow> rfold (load_item B J) (j_entries J settings) (S, 0)))"

definition conf_save :: "('j, 'b) json_conf_scheme \<Rightarrow> 'j Settings \<Rightarrow> string" where
  "conf_save J S = j_pretty J (conf_settings S)"

subsection \<open>The type invariant\<close>

text \<open>The JSON type of a member of an object.\<close>

definition jtype_at :: "('j, 'b) json_lib_scheme \<Rightarrow> 'j \<Rightarrow> string \<Rightarrow> jtype option" where
  "jtype_at J j n =
     (if j_contains J j n then (case j_at J j n of Inl e \<Rightarrow> None | Inr v \<Rightarrow> Some (j_type J v)) else None)"

text \<open>Every setting has a default of the same type, and every default is set.\<close>

definition well_typed :: "('j, 'b) json_lib_scheme \<Rightarrow> 'j Settings \<Rightarrow> bool" where
  "well_typed J S \<longleftrightarrow> j_type J (conf_settings S) \<in> {JT_null, JT_object}
     \<and> j_type J (conf_defaults S) \<in> {JT_null, JT_object}
     \<and> jtype_at J (conf_settings S) = jtype_at J (conf_defaults S)"

text \<open>The operations on settings in memory.\<close>

inductive conf_step :: "boost_lib \<Rightarrow> ('j, 'b) json_conf_scheme \<Rightarrow> 'j Settings \<Rightarrow> 'j Settings \<Rightarrow> bool"
  for B :: boost_lib and J :: "('j, 'b) json_conf_scheme" where
  reg_string: "registerString B J name val validator S = Ok S' \<Longrightarrow> conf_step B J S S'"
| reg_int: "conf_step B J S (registerInt J name i validator S)"
| reg_uint: "conf_step B J S (registerUInt J name n validator S)"
| reg_bool: "conf_step B J S (registerBool J name b S)"
| reg_enum: "registerEnum B J name val vals S = Ok S' \<Longrightarrow> conf_step B J S S'"
| set: "conf_set B J name val S = Ok S' \<Longrightarrow> conf_step B J S S'"
| set_no_throw: "setNoThrow B J name val S = Ok (r, S') \<Longrightarrow> conf_step B J S S'"
| reset: "conf_step B J S (conf_reset J S)"

context json_conf_library
begin

lemma obj_set: "j_type J j \<in> {JT_null, JT_object} \<Longrightarrow> j_type J (j_set J j k v) \<in> {JT_null, JT_object}"
  using type_set by simp

lemma jtype_at_set:
  assumes "j_type J j \<in> {JT_null, JT_object}"
  shows "jtype_at J (j_set J j k v) = (jtype_at J j)(k \<mapsto> j_type J v)"
proof
  fix n show "jtype_at J (j_set J j k v) n = ((jtype_at J j)(k \<mapsto> j_type J v)) n"
    using contains_set [OF assms, of k v n] at_set [OF assms, of k v] at_set_other [OF assms, of k n v]
    by (cases "n = k") (auto simp: jtype_at_def)
qed

lemma jtype_at_fold:
  assumes "j_type J j \<in> {JT_null, JT_object}"
  shows "jtype_at J (fold (\<lambda>(k, v) j. j_set J j k v) kvs j)
      = jtype_at J j ++ map_of (rev (map (\<lambda>(k, v). (k, j_type J v)) kvs))"
    and "j_type J (fold (\<lambda>(k, v) j. j_set J j k v) kvs j) \<in> {JT_null, JT_object}"
proof (induction kvs rule: rev_induct)
  case (snoc kv kvs)
  obtain k v where kv: "kv = (k, v)" by fastforce
  { case 1 show ?case using jtype_at_set snoc by (auto simp: kv fun_eq_iff map_add_def split: option.splits)
  next
    case 2 show ?case using obj_set snoc by (simp add: kv) }
qed (use assms in simp_all)

lemma map_of_entries:
  assumes "j_type J j \<in> {JT_null, JT_object}"
  shows "map_of (rev (map (\<lambda>(k, v). (k, j_type J v)) (j_entries J j))) = jtype_at J j"
proof
  fix n
  let ?es = "rev (map (\<lambda>(k, v). (k, j_type J v)) (j_entries J j))"
  have keys: "map fst (map (\<lambda>(k, v). (k, j_type J v)) (j_entries J j)) = map fst (j_entries J j)"
    by (simp add: comp_def case_prod_unfold)
  then have dist: "distinct (map fst ?es)" using entries_distinct [of j] by (metis distinct_rev rev_map)
  show "map_of ?es n = jtype_at J j n"
  proof (cases "j_contains J j n")
    case True
    then obtain v where v: "j_at J j n = Ok v" using at_total by blast
    then have "(n, j_type J v) \<in> set ?es" using True entries_iff [OF assms] by force
    then have "map_of ?es n = Some (j_type J v)" using dist by simp
    with True v show ?thesis by (simp add: jtype_at_def)
  next
    case False
    then have "n \<notin> fst ` set ?es" using entries_iff [OF assms] by force
    with False show ?thesis by (simp add: jtype_at_def map_of_eq_None_iff)
  qed
qed

lemma typed_put_default:
  assumes "well_typed J S"
  shows "well_typed J (put_default J n v (put_validator n va S))"
  using assms jtype_at_set obj_set
  by (simp add: well_typed_def put_default_def put_setting_def put_validator_def)

lemma typed_put_setting:
  assumes "well_typed J S" and "jtype_at J (conf_settings S) n = Some (j_type J v)"
  shows "well_typed J (put_setting J n v S)"
  using assms jtype_at_set [of "conf_settings S" n v] obj_set [of "conf_settings S" n v]
  by (simp add: well_typed_def put_setting_def fun_upd_idem)

lemma convert_setting_type:
  assumes "convert_setting B J name t val = Ok j"
  shows "j_type J j = t"
  using assms by (auto simp: convert_setting_def type_u64 type_i32 type_bool type_string rbind_Ok_iff
      split: if_splits option.splits)

lemma typed_convert:
  assumes "well_typed J S" and "conf_exists J name S" and "j_at J (conf_settings S) name = Ok j"
    and "convert_setting B J name (j_type J j) val = Ok j'"
  shows "well_typed J (put_setting J name j' S)"
  using assms(2,3) convert_setting_type [OF assms(4)]
  by (intro typed_put_setting [OF assms(1)]) (simp add: jtype_at_def conf_exists_def)

lemma typed_reset: "well_typed J S \<Longrightarrow> well_typed J (conf_reset J S)"
proof -
  assume "well_typed J S"
  then have obj: "j_type J (conf_settings S) \<in> {JT_null, JT_object}" "j_type J (conf_defaults S) \<in> {JT_null, JT_object}"
    by (simp_all add: well_typed_def)
  note fold = jtype_at_fold [OF type_clear [OF obj(1)], of "j_entries J (conf_defaults S)"]
  have "jtype_at J (j_clear J (conf_settings S)) = Map.empty"
    by (simp add: fun_eq_iff jtype_at_def contains_clear)
  with fold obj(2) show ?thesis
    by (simp add: well_typed_def conf_reset_def map_of_entries)
qed

lemma typed_step: "conf_step B J S S' \<Longrightarrow> well_typed J S \<Longrightarrow> well_typed J S'"
proof (induction rule: conf_step.induct)
  case (set name val S S')
  then show ?case
    by (auto simp: conf_set_def rbind_Ok_iff split: if_splits intro: typed_convert)
next
  case (set_no_throw name val S r S')
  then show ?case
    by (auto simp: setNoThrow_def rbind_Ok_iff split: if_splits option.splits intro: typed_convert)
qed (auto simp: registerString_def registerEnum_def registerInt_def registerUInt_def registerBool_def
      rbind_Ok_iff intro: typed_put_default typed_reset)

lemma typed_reachable:
  assumes "(conf_step B J)\<^sup>*\<^sup>* (new_Settings J) S"
  shows "well_typed J S"
  using assms
proof (induction rule: rtranclp_induct)
  case base
  show ?case by (simp add: well_typed_def new_Settings_def type_null)
qed (rule typed_step)

text \<open>A reader whose types include that of the setting finds the stored value.\<close>

lemma conf_value_typed:
  assumes "jtype_at J (conf_settings S) n = Some t" and "t \<in> types"
  obtains v where "j_type J v = t" and "\<And>get d. conf_value J types get n d S = get v"
  using assms by (auto simp: jtype_at_def conf_value_def conf_exists_def split: if_splits sum.splits)

lemma value_typed:
  assumes "well_typed J S"
  shows "jtype_at J (conf_defaults S) n = Some JT_boolean \<Longrightarrow> \<exists>b. \<forall>d. value_bool J n d S = Ok b"
    and "jtype_at J (conf_defaults S) n = Some JT_string \<Longrightarrow> \<exists>s. \<forall>d. value_string J n d S = Ok s"
    and "jtype_at J (conf_defaults S) n = Some JT_number_unsigned \<Longrightarrow> \<exists>w. \<forall>d. value_u32 J n d S = Ok w"
    and "jtype_at J (conf_defaults S) n = Some JT_number_integer \<Longrightarrow> \<exists>w. \<forall>d. value_i32 J n d S = Ok w"
proof -
  have eq: "jtype_at J (conf_settings S) = jtype_at J (conf_defaults S)" using assms by (simp add: well_typed_def)
  show "\<exists>b. \<forall>d. value_bool J n d S = Ok b" if "jtype_at J (conf_defaults S) n = Some JT_boolean"
    using conf_value_typed [of S n JT_boolean "{JT_boolean}"] that get_bool_total by (metis eq singletonI value_bool_def)
  show "\<exists>s. \<forall>d. value_string J n d S = Ok s" if "jtype_at J (conf_defaults S) n = Some JT_string"
    using conf_value_typed [of S n JT_string "{JT_string}"] that get_string_total by (metis eq singletonI value_string_def)
  show "\<exists>w. \<forall>d. value_u32 J n d S = Ok w" if t: "jtype_at J (conf_defaults S) n = Some JT_number_unsigned"
  proof -
    obtain v where v: "j_type J v = JT_number_unsigned" "\<And>get d. conf_value J {JT_number_unsigned} get n d S = (get v :: u32 result)"
      using conf_value_typed [of S n JT_number_unsigned "{JT_number_unsigned}"] t eq by auto
    with get_u64_total [of v] show ?thesis by (auto simp: value_u32_def)
  qed
  show "\<exists>w. \<forall>d. value_i32 J n d S = Ok w" if t: "jtype_at J (conf_defaults S) n = Some JT_number_integer"
  proof -
    obtain v where v: "j_type J v = JT_number_integer"
      "\<And>get d. conf_value J {JT_number_integer, JT_number_unsigned} get n d S = (get v :: u32 result)"
      using conf_value_typed [of S n JT_number_integer "{JT_number_integer, JT_number_unsigned}"] t eq by auto
    with get_u64_total [of v] show ?thesis by (auto simp: value_i32_def)
  qed
qed

end

subsection \<open>A concrete instance\<close>

fun jval_entries :: "jval \<Rightarrow> (string \<times> jval) list" where
  "jval_entries (JObj kvs) = map (\<lambda>k. (k, the (map_of kvs k))) (remdups (map fst kvs))"
| "jval_entries j = []"

fun jval_clear :: "jval \<Rightarrow> jval" where
  "jval_clear (JObj kvs) = JObj []"
| "jval_clear j = j"

definition jval_conf :: "(string \<Rightarrow> jval option) \<Rightarrow> jval json_conf" where
  "jval_conf p =
     \<lparr>j_null = JNull, j_type = jval_type, j_of_u64 = JUInt, j_of_i32 = JInt, j_of_bool = JBool,
      j_of_double = JFloat, j_of_string = JStr, j_set = jval_set, j_contains = jval_contains,
      j_at = jval_at, j_push = jval_push, j_items = jval_items, j_get_u64 = jval_get_u64,
      j_get_bool = jval_get_bool, j_get_double = jval_get_double, j_get_string = jval_get_string,
      j_dump = jval_dump, j_parse = p, j_entries = jval_entries, j_clear = jval_clear, j_pretty = jval_dump\<rparr>"

lemma map_of_None_image: "map_of kvs k = None \<longleftrightarrow> k \<notin> fst ` set kvs"
  by (rule map_of_eq_None_iff)

lemma jval_entries_iff:
  "jval_type j \<in> {JT_null, JT_object} \<Longrightarrow>
    (k, v) \<in> set (jval_entries j) \<longleftrightarrow> jval_contains j k \<and> jval_at j k = Ok v"
  by (cases j) (auto simp: map_of_None_image image_iff split: option.splits dest: map_of_SomeD)

lemma jval_conf_laws:
  "jval_type j = JT_boolean \<Longrightarrow> \<exists>b. jval_get_bool j = Ok b"
  "jval_type j = JT_string \<Longrightarrow> \<exists>s. jval_get_string j = Ok s"
  "jval_type j \<noteq> JT_string \<Longrightarrow> jval_get_string j = Err JsonTypeError"
  "jval_type j \<in> {JT_number_unsigned, JT_number_integer} \<Longrightarrow> \<exists>n. jval_get_u64 j = Ok n"
  "jval_contains j k \<Longrightarrow> jval_type j = JT_object"
  "jval_contains j k \<Longrightarrow> \<exists>v. jval_at j k = Ok v"
  "distinct (map fst (jval_entries j))"
  "jval_type j \<in> {JT_null, JT_object} \<Longrightarrow> jval_type (jval_clear j) \<in> {JT_null, JT_object}"
  "\<not> jval_contains (jval_clear j) k"
  by (cases j; auto simp: comp_def)+

lemma json_conf_library_jval: "json_conf_library (jval_conf p)"
proof -
  have "json_library (jval_conf p)"
    by unfold_locales (auto simp: jval_conf_def map_of_alist_set jval_type_iff split: if_splits option.splits)
  then show ?thesis
    unfolding json_conf_library_def json_conf_library_axioms_def
    using jval_conf_laws jval_entries_iff by (simp add: jval_conf_def)
qed

interpretation jval_conf: json_conf_library "jval_conf p" for p
  by (rule json_conf_library_jval)

subsection \<open>Main results\<close>

text \<open>
  C19: settings keep their types. After any sequence of registrations, assignments from text and resets,
  the settings are exactly the registered names, each with the JSON type of its default;
  and the reader for that type returns the stored value and never the fallback it is given.
\<close>

theorem settings_keep_types:
  assumes "json_conf_library J" and "(conf_step B J)\<^sup>*\<^sup>* (new_Settings J) S"
  shows "jtype_at J (conf_settings S) = jtype_at J (conf_defaults S)
    \<and> (jtype_at J (conf_defaults S) n = Some JT_boolean \<longrightarrow> (\<exists>b. \<forall>d. value_bool J n d S = Ok b))
    \<and> (jtype_at J (conf_defaults S) n = Some JT_string \<longrightarrow> (\<exists>s. \<forall>d. value_string J n d S = Ok s))
    \<and> (jtype_at J (conf_defaults S) n = Some JT_number_unsigned \<longrightarrow> (\<exists>w. \<forall>d. value_u32 J n d S = Ok w))
    \<and> (jtype_at J (conf_defaults S) n = Some JT_number_integer \<longrightarrow> (\<exists>w. \<forall>d. value_i32 J n d S = Ok w))"
proof -
  have "well_typed J S" by (rule json_conf_library.typed_reachable [OF assms])
  with json_conf_library.value_typed [OF assms(1) this] show ?thesis by (auto simp: well_typed_def)
qed

lemmas jval_conf_fields = jval_conf_def

lemma jval_conf_simps [simp]:
  "j_null (jval_conf p) = JNull" "j_type (jval_conf p) = jval_type" "j_of_u64 (jval_conf p) = JUInt"
  "j_of_i32 (jval_conf p) = JInt" "j_of_bool (jval_conf p) = JBool" "j_of_string (jval_conf p) = JStr"
  "j_set (jval_conf p) = jval_set" "j_contains (jval_conf p) = jval_contains" "j_at (jval_conf p) = jval_at"
  "j_get_u64 (jval_conf p) = jval_get_u64" "j_get_bool (jval_conf p) = jval_get_bool"
  "j_get_string (jval_conf p) = jval_get_string" "j_dump (jval_conf p) = jval_dump" "j_parse (jval_conf p) = p"
  "j_entries (jval_conf p) = jval_entries" "j_clear (jval_conf p) = jval_clear" "j_pretty (jval_conf p) = jval_dump"
  by (simp_all add: jval_conf_def)

lemmas conf_defs = conf_set_def conf_exists_def put_setting_def put_default_def put_validator_def
  registerString_def registerInt_def registerUInt_def registerBool_def registerEnum_def new_Settings_def
  convert_setting_def conf_value_def value_u32_def value_i32_def value_bool_def value_string_def

theorem settings_keep_types_witness:
  "\<exists>S. (conf_step boost_std (jval_conf Map.empty))\<^sup>*\<^sup>* (new_Settings (jval_conf Map.empty)) S
     \<and> (\<exists>w. \<forall>d. value_u32 (jval_conf Map.empty) ''rest.port'' d S = Ok w)"
proof -
  let ?J = "jval_conf Map.empty" and ?S = "registerUInt (jval_conf Map.empty) ''rest.port'' 27182 None (new_Settings (jval_conf Map.empty))"
  have step: "(conf_step boost_std ?J)\<^sup>*\<^sup>* (new_Settings ?J) ?S" by (intro r_into_rtranclp conf_step.intros)
  have "jtype_at ?J (conf_defaults ?S) ''rest.port'' = Some JT_number_unsigned"
    by (simp add: jtype_at_def conf_defs)
  with settings_keep_types [OF json_conf_library_jval step, of "''rest.port''"] step show ?thesis by blast
qed

subsection \<open>Reading back what was set\<close>

context json_conf_library
begin

lemma conf_exists_put:
  "j_type J (conf_settings S) \<in> {JT_null, JT_object} \<Longrightarrow>
    conf_exists J n (put_setting J name v S) \<longleftrightarrow> n = name \<or> conf_exists J n S"
  using contains_set by (auto simp: conf_exists_def put_setting_def)

lemma at_put_setting:
  assumes "j_type J (conf_settings S) \<in> {JT_null, JT_object}" and "n = name \<or> conf_exists J n S"
  shows "j_at J (conf_settings (put_setting J name v S)) n
    = (if n = name then Ok v else j_at J (conf_settings S) n)"
  using assms at_set at_set_other by (auto simp: conf_exists_def put_setting_def)

lemma conf_value_put:
  assumes "j_type J (conf_settings S) \<in> {JT_null, JT_object}"
  shows "conf_value J types get n d (put_setting J name v S)
    = (if n = name then (if j_type J v \<in> types then get v else Ok d) else conf_value J types get n d S)"
  using at_put_setting [OF assms, of n name v] conf_exists_put [OF assms, of n name v]
  by (auto simp: conf_value_def)

lemma conf_set_Ok:
  assumes "conf_set B J name val S = Ok S'"
  obtains j v where "j_at J (conf_settings S) name = Ok j" and "conf_exists J name S"
    and "convert_setting B J name (j_type J j) val = Ok v" and "S' = put_setting J name v S"
  using assms by (auto simp: conf_set_def rbind_Ok_iff split: if_splits)

lemma conf_set_typed:
  assumes "conf_set B J name val S = Ok S'" and "jtype_at J (conf_settings S) name = Some t"
  obtains v where "convert_setting B J name t val = Ok v" and "S' = put_setting J name v S" and "j_type J v = t"
  using assms conf_set_Ok [OF assms(1)] convert_setting_type
  by (metis (no_types, lifting) conf_exists_def jtype_at_def option.sel sum.case(2))

end

lemma ucast_ucast_u32: "ucast (ucast (w :: u32) :: u64) = w"
  by (rule bit_word_eqI) (auto simp: bit_unsigned_iff)

lemma ucast_scast_u32: "ucast (scast (w :: u32) :: u64) = w"
  by (rule bit_word_eqI) (auto simp: bit_unsigned_iff bit_signed_iff)

text \<open>
  C32: what is set is what is read. When assigning a text to a setting succeeds, the reader for its
  type returns the number, the truth value or the text that was given, and all other settings
  read as before.
\<close>

theorem conf_set_value:
  assumes "json_conf_library J" and "well_typed J S" and set: "conf_set B J name val S = Ok S'"
  shows "(jtype_at J (conf_settings S) name = Some JT_number_unsigned \<longrightarrow>
        value_u32 J name d1 S' = Ok (the (b_lex_u32 B val)) \<and> b_lex_u32 B val \<noteq> None)
    \<and> (jtype_at J (conf_settings S) name = Some JT_number_integer \<longrightarrow>
        value_i32 J name d2 S' = Ok (the (b_lex_i32 B val)) \<and> b_lex_i32 B val \<noteq> None)
    \<and> (jtype_at J (conf_settings S) name = Some JT_boolean \<longrightarrow> value_bool J name d3 S' = convertToBool B val)
    \<and> (jtype_at J (conf_settings S) name = Some JT_string \<longrightarrow> value_string J name d4 S' = Ok val)
    \<and> (n \<noteq> name \<longrightarrow> value_u32 J n d1 S' = value_u32 J n d1 S \<and> value_i32 J n d2 S' = value_i32 J n d2 S
        \<and> value_bool J n d3 S' = value_bool J n d3 S \<and> value_string J n d4 S' = value_string J n d4 S)"
proof -
  have obj: "j_type J (conf_settings S) \<in> {JT_null, JT_object}" using assms(2) by (simp add: well_typed_def)
  have lib: "json_library J" using assms(1) by (rule json_conf_library.axioms)
  note put = json_conf_library.conf_value_put [OF assms(1) obj]
  note typed = json_conf_library.conf_set_typed [OF assms(1) set]
  note gets = json_library.get_u64 [OF lib] json_library.get_bool [OF lib] json_library.get_string [OF lib]
    json_conf_library.get_u64_i32 [OF assms(1)]
  show ?thesis
  proof (intro conjI impI)
    assume "jtype_at J (conf_settings S) name = Some JT_number_unsigned"
    then show "value_u32 J name d1 S' = Ok (the (b_lex_u32 B val))" and "b_lex_u32 B val \<noteq> None"
      by (rule typed; auto simp: value_u32_def put convert_setting_def gets ucast_ucast_u32 split: option.splits)+
  next
    assume "jtype_at J (conf_settings S) name = Some JT_number_integer"
    then show "value_i32 J name d2 S' = Ok (the (b_lex_i32 B val))" and "b_lex_i32 B val \<noteq> None"
      by (rule typed; auto simp: value_i32_def put convert_setting_def gets ucast_scast_u32 split: option.splits)+
  next
    assume "jtype_at J (conf_settings S) name = Some JT_boolean"
    then show "value_bool J name d3 S' = convertToBool B val"
      by (rule typed) (auto simp: value_bool_def put convert_setting_def gets rbind_Ok_iff)
  next
    assume "jtype_at J (conf_settings S) name = Some JT_string"
    then show "value_string J name d4 S' = Ok val"
      by (rule typed) (auto simp: value_string_def put convert_setting_def gets)
  qed (use set in \<open>auto elim!: json_conf_library.conf_set_Ok [OF assms(1)]
        simp: value_u32_def value_i32_def value_bool_def value_string_def put\<close>)
qed

definition sample_conf :: "jval Settings" where
  "sample_conf = registerBool (jval_conf Map.empty) ''mining.autostart'' False
     (registerUInt (jval_conf Map.empty) ''rest.port'' 27182 (Some (RangeValidator T_u64 1024 65535))
       (new_Settings (jval_conf Map.empty)))"

lemma sample_conf_typed: "well_typed (jval_conf p) sample_conf"
  by (simp add: well_typed_def sample_conf_def conf_defs)

lemma sample_conf_port:
  "conf_validators sample_conf ''rest.port'' = Some (RangeValidator T_u64 1024 65535)"
  "jtype_at (jval_conf p) (conf_settings sample_conf) ''rest.port'' = Some JT_number_unsigned"
  by (simp_all add: sample_conf_def conf_defs jtype_at_def)

lemma scan_8080: "(scan_unsigned ''8080'' :: 'a :: len word option) = (if 8080 < (2::nat) ^ LENGTH('a) then Some (of_nat 8080) else None)"
  by (subst scan_digits_text) (simp_all add: digits_def isdigit_def less_eq_char_def)

lemma sample_conf_set:
  "conf_set boost_std (jval_conf p) ''rest.port'' ''8080'' sample_conf
     = Ok (put_setting (jval_conf p) ''rest.port'' (JUInt 8080) sample_conf)"
  by (simp add: conf_set_def sample_conf_def conf_defs validate_def boost_std_def scan_8080 lexical_cast_def)

theorem conf_set_value_witness:
  "\<exists>S'. conf_set boost_std (jval_conf Map.empty) ''rest.port'' ''8080'' sample_conf = Ok S'
     \<and> value_u32 (jval_conf Map.empty) ''rest.port'' 0 S' = Ok 8080"
  using conf_set_value [OF json_conf_library_jval sample_conf_typed sample_conf_set, of Map.empty 0]
    sample_conf_set [of Map.empty]
  by (simp add: sample_conf_port boost_std_def scan_8080)

text \<open>
  A checked number stays in its range. For a setting that holds an unsigned number and is
  guarded by a 64-bit range below \<open>2^32\<close>, whatever text is assigned successfully, the
  32-bit value that is read back lies in the range. In particular no negative text gets through,
  although the conversion to an unsigned type accepts a minus sign.
\<close>

theorem conf_set_in_range:
  assumes "boost_library B" and "json_conf_library J" and "well_typed J S"
    and range: "conf_validators S name = Some (RangeValidator T_u64 lo hi)" and "hi < 2 ^ 32"
    and "jtype_at J (conf_settings S) name = Some JT_number_unsigned"
    and set: "conf_set B J name val S = Ok S'"
  shows "\<exists>w. value_u32 J name d S' = Ok w \<and> lo \<le> uint w \<and> uint w \<le> hi"
proof -
  have obj: "j_type J (conf_settings S) \<in> {JT_null, JT_object}" using assms(3) by (simp add: well_typed_def)
  from set range obtain x where x: "b_lex_u64 B val = Some x" "lo \<le> uint x" "uint x \<le> hi"
    by (auto simp: conf_set_def rbind_Ok_iff validator.check_Ok_iff lexical_cast_def split: if_splits option.splits)
  obtain v where "convert_setting B J name JT_number_unsigned val = Ok v" and v: "S' = put_setting J name v S"
    by (rule json_conf_library.conf_set_typed [OF assms(2) set assms(6)])
  then obtain w where w: "b_lex_u32 B val = Some w" and S': "S' = put_setting J name (j_of_u64 J (ucast w)) S"
    by (auto simp: convert_setting_def split: option.splits)
  have lib: "json_library J" using assms(2) by (rule json_conf_library.axioms)
  have "value_u32 J name d S' = Ok w"
    by (simp add: S' value_u32_def json_conf_library.conf_value_put [OF assms(2) obj] json_library.type_u64 [OF lib]
        json_library.get_u64 [OF lib] ucast_ucast_u32)
  moreover have "uint x < int (2 ^ 32)" using x(3) assms(5) by simp
  then have "unat x < 2 ^ 32" unfolding of_nat_unat [of x, where 'a = int, symmetric] of_nat_less_iff .
  with w x(1) have "unat w = unat x"
    by (intro scan_widths) (simp_all add: boost_library.lex_u32 [OF assms(1)] boost_library.lex_u64 [OF assms(1)])
  then have "uint w = uint x" by (metis of_nat_unat)
  ultimately show ?thesis using x by auto
qed

theorem conf_set_in_range_witness:
  "\<exists>S' w. conf_set boost_std (jval_conf Map.empty) ''rest.port'' ''8080'' sample_conf = Ok S'
     \<and> value_u32 (jval_conf Map.empty) ''rest.port'' 0 S' = Ok w \<and> 1024 \<le> uint w \<and> uint w \<le> 65535"
  using conf_set_in_range [OF boost_std.boost_library_axioms json_conf_library_jval sample_conf_typed
      sample_conf_port(1) _ sample_conf_port(2) sample_conf_set, of Map.empty 0] sample_conf_set [of Map.empty]
  by auto

text \<open>
  \<open>setNoThrow\<close> can throw. A negative text whose value modulo \<open>2^64\<close> lies in the range passes the 64-bit
  validator, and the 32-bit conversion that follows throws.
\<close>

theorem setNoThrow_throws:
  assumes "boost_library B" and "conf_exists J name S" and "j_at J (conf_settings S) name = Ok j"
    and "j_type J j = JT_number_unsigned" and "conf_validators S name = Some (RangeValidator T_u64 1024 65535)"
  shows "setNoThrow B J name ''-18446744073709550000'' S = Err BadLexicalCast"
proof -
  have part: "unsigned_part ''-18446744073709550000'' = ''18446744073709550000''" "negative ''-18446744073709550000''"
    and val: "digits ''18446744073709550000''" "digits_value 0 ''18446744073709550000'' = 18446744073709550000"
    by (simp_all add: unsigned_part_def negative_def digits_def isdigit_def less_eq_char_def)
  have "b_lex_u64 B ''-18446744073709550000'' = Some (- of_nat 18446744073709550000)"
    and "b_lex_u32 B ''-18446744073709550000'' = None"
    unfolding boost_library.lex_u32 [OF assms(1)] boost_library.lex_u64 [OF assms(1)] scan_unsigned_def part scan_digits_def
    using val part by simp_all
  then show ?thesis
    using assms(2-) by (simp add: setNoThrow_def lexical_cast_def convert_setting_def)
qed

subsection \<open>Loading a file\<close>

text \<open>A value that the validator of its name accepts when a file is loaded.\<close>

definition entry_valid :: "boost_lib \<Rightarrow> ('j, 'b) json_lib_scheme \<Rightarrow> Validator option \<Rightarrow> 'j \<Rightarrow> bool" where
  "entry_valid B J va v = (case va of None \<Rightarrow> True
     | Some w \<Rightarrow> (case json_to_string J v of Inl e \<Rightarrow> False | Inr s \<Rightarrow> isValid B w s))"

definition all_valid :: "boost_lib \<Rightarrow> ('j, 'b) json_lib_scheme \<Rightarrow> 'j Settings \<Rightarrow> bool" where
  "all_valid B J S \<longleftrightarrow> (\<forall>n v. conf_exists J n S \<longrightarrow> j_at J (conf_settings S) n = Ok v
     \<longrightarrow> entry_valid B J (conf_validators S n) v)"

lemma load_item_valid:
  assumes "conf_exists J k S" and "entry_valid B J (conf_validators S k) v"
  shows "load_item B J (k, v) (S, c) = Ok (put_setting J k v S, c + 1)"
  using assms by (auto simp: load_item_def entry_valid_def split: option.splits sum.splits)

lemma put_setting_validators [simp]: "conf_validators (put_setting J k v S) = conf_validators S"
  by (simp add: put_setting_def)

context json_conf_library
begin

lemma load_items:
  assumes "j_type J (conf_settings S) \<in> {JT_null, JT_object}"
    and "\<forall>(k, v) \<in> set es. conf_exists J k S \<and> entry_valid B J (conf_validators S k) v"
  shows "rfold (load_item B J) es (S, c)
    = Ok (S\<lparr>conf_settings := fold (\<lambda>(k, v) j. j_set J j k v) es (conf_settings S)\<rparr>, c + length es)"
  using assms
proof (induction es arbitrary: S c)
  case (Cons e es)
  obtain k v where e: "e = (k, v)" by fastforce
  have "load_item B J (k, v) (S, c) = Ok (put_setting J k v S, c + 1)"
    using Cons.prems(2) by (intro load_item_valid) (auto simp: e)
  moreover have "rfold (load_item B J) es (put_setting J k v S, c + 1)
      = Ok ((put_setting J k v S)\<lparr>conf_settings := fold (\<lambda>(k, v) j. j_set J j k v) es (conf_settings (put_setting J k v S))\<rparr>,
          c + 1 + length es)"
    using Cons.prems conf_exists_put [OF Cons.prems(1)] obj_set [OF Cons.prems(1)]
    by (intro Cons.IH) (auto simp: put_setting_def)
  ultimately show ?case by (simp add: e put_setting_def)
qed simp

lemma fold_set_entries:
  assumes "j_type J j \<in> {JT_null, JT_object}" and "distinct (map fst es)"
  shows "j_contains J (fold (\<lambda>(k, v) j. j_set J j k v) es j) n \<longleftrightarrow> n \<in> fst ` set es \<or> j_contains J j n"
    and "(n, v) \<in> set es \<Longrightarrow> j_at J (fold (\<lambda>(k, v) j. j_set J j k v) es j) n = Ok v"
  using assms(2)
proof (induction es arbitrary: n v rule: rev_induct)
  case (snoc e es)
  obtain k w where e: "e = (k, w)" by fastforce
  note obj = jtype_at_fold(2) [OF assms(1), of es]
  { case 1 then show ?case using snoc.IH(1) contains_set [OF obj] by (auto simp: e)
  next
    case 2
    show ?case
    proof (cases "n = k")
      case True
      with 2 have "v = w" by (auto simp: e image_iff)
      with True show ?thesis using at_set [OF obj] by (simp add: e)
    next
      case False
      then have in_es: "(n, v) \<in> set es" using 2 by (auto simp: e)
      moreover have "distinct (map fst es)" using 2(2) by simp
      moreover have "n \<in> fst ` set es" using in_es by force
      ultimately show ?thesis
        using snoc.IH(1) [of n] snoc.IH(2) [of n v] False at_set_other [OF obj, of k n w] by (simp add: e)
    qed }
qed (simp_all add: assms)

text \<open>What is loaded is what the file says, and the rest stays.\<close>

lemma conf_load_valid:
  assumes "j_type J (conf_settings S) \<in> {JT_null, JT_object}" and "j_parse J txt = Some conf"
    and obj: "j_type J conf \<in> {JT_null, JT_object}"
    and valid: "\<And>n v. j_contains J conf n \<Longrightarrow> j_at J conf n = Ok v \<Longrightarrow>
      conf_exists J n S \<and> entry_valid B J (conf_validators S n) v"
  shows "\<exists>S'. conf_load B J (Some txt) S = Ok (S', length (j_entries J conf))
    \<and> (\<forall>n. conf_exists J n S' \<longleftrightarrow> conf_exists J n S)
    \<and> (\<forall>n. j_contains J conf n \<longrightarrow> j_at J (conf_settings S') n = j_at J conf n)"
proof -
  let ?es = "j_entries J conf"
  have es: "\<forall>(k, v) \<in> set ?es. conf_exists J k S \<and> entry_valid B J (conf_validators S k) v"
    using entries_iff [OF obj] valid by blast
  define S' where "S' = S\<lparr>conf_settings := fold (\<lambda>(k, v) j. j_set J j k v) ?es (conf_settings S)\<rparr>"
  have "conf_load B J (Some txt) S = Ok (S', length ?es)"
    using load_items [OF assms(1) es, of 0] by (simp add: conf_load_def assms(2) S'_def)
  moreover have "conf_exists J n S' \<longleftrightarrow> conf_exists J n S" for n
    using fold_set_entries(1) [OF assms(1) entries_distinct [of conf], of n] es
    by (auto simp: conf_exists_def S'_def)
  moreover have "j_at J (conf_settings S') n = j_at J conf n" if c: "j_contains J conf n" for n
  proof -
    obtain v where "j_at J conf n = Ok v" using at_total [OF c] by blast
    moreover from this have "(n, v) \<in> set ?es" using entries_iff [OF obj] c by blast
    ultimately show ?thesis using fold_set_entries(2) [OF assms(1) entries_distinct [of conf]] by (simp add: S'_def)
  qed
  ultimately show ?thesis by blast
qed

lemma all_valid_put_default:
  assumes "j_type J (conf_settings S) \<in> {JT_null, JT_object}" and "all_valid B J S" and "entry_valid B J va v"
  shows "all_valid B J (put_default J n v (put_validator n va S))"
  unfolding all_valid_def
proof (intro allI impI)
  fix m w
  let ?S = "put_validator n va S"
  have obj: "j_type J (conf_settings ?S) \<in> {JT_null, JT_object}" using assms(1) by (simp add: put_validator_def)
  assume "conf_exists J m (put_default J n v ?S)" and "j_at J (conf_settings (put_default J n v ?S)) m = Ok w"
  then have "m = n \<or> conf_exists J m ?S" "j_at J (conf_settings (put_setting J n v ?S)) m = Ok w"
    using conf_exists_put [OF obj, of m n v] by (simp_all add: put_default_def conf_exists_def)
  then show "entry_valid B J (conf_validators (put_default J n v ?S) m) w"
    using at_put_setting [OF obj, of m n v] assms(2,3)
    by (cases "m = n") (auto simp: put_default_def put_validator_def all_valid_def conf_exists_def)
qed

end

subsection \<open>The settings of the program\<close>

text \<open>\<^verbatim>\<open>registerSettings\<close> in \<^verbatim>\<open>src/src/main.cpp\<close>; the three numeric settings share one range.\<close>

definition filesizeMin :: int where "filesizeMin = 1024"
definition filesizeMax :: int where "filesizeMax = 1024 * 1024 * 1024"
definition filesizeDefault :: u32 where "filesizeDefault = 1024 * 1024 * 5"
definition HTTPServerPortDefault :: u32 where "HTTPServerPortDefault = 27182"
definition WebSocketServerPorDefault :: u32 where "WebSocketServerPorDefault = 14142"

definition registerSettings :: "boost_lib \<Rightarrow> ('j, 'b) json_conf_scheme \<Rightarrow> os_env \<Rightarrow> 'j Settings result" where
  "registerSettings B J os =
     (let range = RangeValidator T_u64 filesizeMin filesizeMax;
          S = registerBool J ''chain.reset.enable'' True (new_Settings J)
      in rbind (getDefaultDatabaseFolder os) (\<lambda>dbfolder.
         rbind (registerString B J ''database.folder'' dbfolder (Some NotEmptyValidator) S) (\<lambda>S.
         let S = registerUInt J ''database.filesize.max'' filesizeDefault (Some range) S;
             S = registerBool J ''mining.autostart'' False S
         in rbind (registerString B J ''mining.miner.address'' ''<CHANGE ME>'' (Some NotEmptyValidator) S) (\<lambda>S.
            let S = registerUInt J ''rest.port'' HTTPServerPortDefault (Some range) S;
                S = registerUInt J ''websocket.port'' WebSocketServerPorDefault (Some range) S;
                S = registerBool J ''rest.autoload'' False S
            in rbind (getDefaultPeersFile os) (\<lambda>peersfile.
               rbind (registerString B J ''peers.file'' peersfile (Some NotEmptyValidator) S) (\<lambda>S.
               rbind (registerString B J ''logs.level'' ''info'' None S) (\<lambda>S.
               let S = registerBool J ''logs.file.enabled'' True S
               in registerString B J ''logs.file.folder'' dbfolder (Some NotEmptyValidator) S)))))))"

text \<open>\<^verbatim>\<open>initSettings\<close>, with the content of the configuration file before and after.\<close>

definition initSettings ::
  "boost_lib \<Rightarrow> ('j, 'b) json_conf_scheme \<Rightarrow> os_env \<Rightarrow> string option \<Rightarrow> ('j Settings \<times> string) result" where
  "initSettings B J os content =
     rbind (registerSettings B J os) (\<lambda>S.
       case content of
         Some txt \<Rightarrow> rbind (conf_load B J (Some txt) S) (\<lambda>(S', count). Ok (S', txt))
       | None \<Rightarrow> Ok (S, conf_save J S))"

subsection \<open>The registered settings are valid\<close>

definition conf_inv :: "boost_lib \<Rightarrow> ('j, 'b) json_lib_scheme \<Rightarrow> 'j Settings \<Rightarrow> bool" where
  "conf_inv B J S \<longleftrightarrow> well_typed J S \<and> all_valid B J S"

text \<open>One registration, and all of them in the order of \<open>registerSettings\<close>.\<close>

definition register_entry :: "('j, 'b) json_lib_scheme \<Rightarrow> string \<Rightarrow> Validator option \<Rightarrow> 'j \<Rightarrow> 'j Settings \<Rightarrow> 'j Settings" where
  "register_entry J n va v S = put_default J n v (put_validator n va S)"

definition registered :: "('j, 'b) json_lib_scheme \<Rightarrow> string \<Rightarrow> string \<Rightarrow> 'j Settings" where
  "registered J db peers =
    (let range = Some (RangeValidator T_u64 filesizeMin filesizeMax) in
     register_entry J ''logs.file.folder'' (Some NotEmptyValidator) (j_of_string J db)
    (register_entry J ''logs.file.enabled'' (Some BoolValidator) (j_of_bool J True)
    (register_entry J ''logs.level'' None (j_of_string J ''info'')
    (register_entry J ''peers.file'' (Some NotEmptyValidator) (j_of_string J peers)
    (register_entry J ''rest.autoload'' (Some BoolValidator) (j_of_bool J False)
    (register_entry J ''websocket.port'' range (j_of_u64 J (ucast WebSocketServerPorDefault))
    (register_entry J ''rest.port'' range (j_of_u64 J (ucast HTTPServerPortDefault))
    (register_entry J ''mining.miner.address'' (Some NotEmptyValidator) (j_of_string J ''<CHANGE ME>'')
    (register_entry J ''mining.autostart'' (Some BoolValidator) (j_of_bool J False)
    (register_entry J ''database.filesize.max'' range (j_of_u64 J (ucast filesizeDefault))
    (register_entry J ''database.folder'' (Some NotEmptyValidator) (j_of_string J db)
    (register_entry J ''chain.reset.enable'' (Some BoolValidator) (j_of_bool J True) (new_Settings J)))))))))))))"

locale conf_libraries = json_conf_library J + boost_library B
  for J :: "('j, 'b) json_conf_scheme" and B :: boost_lib
begin

lemma entry_valid_bool [simp]: "entry_valid B J (Some BoolValidator) (j_of_bool J b)"
  by (simp add: entry_valid_def json_to_string_def type_bool dump_bool isBoolean_def trueStrings_def falseStrings_def iequals)

lemma entry_valid_string [simp]: "isValid B w s \<Longrightarrow> entry_valid B J (Some w) (j_of_string J s)"
  by (simp add: entry_valid_def json_to_string_def type_string)

lemma entry_valid_range [simp]:
  "lo \<le> uint n \<Longrightarrow> uint n \<le> hi \<Longrightarrow> entry_valid B J (Some (RangeValidator T_u64 lo hi)) (j_of_u64 J n)"
  using scan_show_nat [of "unat n", where 'a = 64] unsigned_less [of n, where 'a = nat]
  by (simp add: entry_valid_def json_to_string_def type_u64 dump_u64 lexical_cast_def lex_u64)

lemma entry_valid_none [simp]: "entry_valid B J None v"
  by (simp add: entry_valid_def)

lemma conf_inv_new: "conf_inv B J (new_Settings J)"
  by (simp add: conf_inv_def well_typed_def all_valid_def new_Settings_def conf_exists_def type_null contains_null)

lemma conf_inv_put:
  "conf_inv B J S \<Longrightarrow> entry_valid B J va v \<Longrightarrow> conf_inv B J (put_default J n v (put_validator n va S))"
  using typed_put_default all_valid_put_default by (simp add: conf_inv_def well_typed_def)

lemma jtype_put:
  "conf_inv B J S \<Longrightarrow> jtype_at J (conf_settings (put_default J n v (put_validator n va S)))
    = (jtype_at J (conf_settings S))(n \<mapsto> j_type J v)"
  using jtype_at_set by (simp add: conf_inv_def well_typed_def put_default_def put_setting_def put_validator_def)

lemma validators_put:
  "conf_validators (put_default J n v (put_validator n va S)) = (conf_validators S)(n := va)"
  by (simp add: put_default_def put_setting_def put_validator_def)

lemma jtype_new: "jtype_at J (conf_settings (new_Settings J)) = Map.empty"
  by (simp add: fun_eq_iff jtype_at_def new_Settings_def contains_null)

lemma registered_inv: "conf_inv B J S \<Longrightarrow> entry_valid B J va v \<Longrightarrow> conf_inv B J (register_entry J n va v S)"
  unfolding register_entry_def by (rule conf_inv_put)

lemma registered_type:
  "conf_inv B J S \<Longrightarrow> jtype_at J (conf_settings (register_entry J n va v S)) = (jtype_at J (conf_settings S))(n \<mapsto> j_type J v)"
  unfolding register_entry_def by (rule jtype_put)

lemma registered_validator: "conf_validators (register_entry J n va v S) = (conf_validators S)(n := va)"
  unfolding register_entry_def by (rule validators_put)

lemma registered_value:
  assumes "conf_inv B J S"
  shows "conf_value J types get m d (register_entry J n va v S)
    = (if m = n then (if j_type J v \<in> types then get v else Ok d) else conf_value J types get m d S)"
proof -
  have "conf_value J types get m d (register_entry J n va v S) = conf_value J types get m d (put_setting J n v (put_validator n va S))"
    by (simp add: register_entry_def put_default_def conf_value_def conf_exists_def)
  moreover have "j_type J (conf_settings (put_validator n va S)) \<in> {JT_null, JT_object}"
    using assms by (simp add: conf_inv_def well_typed_def put_validator_def)
  ultimately show ?thesis
    by (simp add: conf_value_put) (simp add: conf_value_def conf_exists_def put_validator_def)
qed

lemma registerSettings_eq:
  assumes "getDefaultDatabaseFolder os = Ok db" and "getDefaultPeersFile os = Ok peers" and "db \<noteq> []" and "peers \<noteq> []"
  shows "registerSettings B J os = Ok (registered J db peers)"
  using assms by (simp add: registerSettings_def registerString_def registerBool_def registerUInt_def Let_def
      validate_def register_entry_def registered_def)

lemma ports_valid:
  "entry_valid B J (Some (RangeValidator T_u64 filesizeMin filesizeMax)) (j_of_u64 J (ucast filesizeDefault))"
  "entry_valid B J (Some (RangeValidator T_u64 filesizeMin filesizeMax)) (j_of_u64 J (ucast HTTPServerPortDefault))"
  "entry_valid B J (Some (RangeValidator T_u64 filesizeMin filesizeMax)) (j_of_u64 J (ucast WebSocketServerPorDefault))"
  by (rule entry_valid_range; simp add: filesizeMin_def filesizeMax_def filesizeDefault_def
      HTTPServerPortDefault_def WebSocketServerPorDefault_def)+

lemma registered_ok:
  assumes "db \<noteq> []" and "peers \<noteq> []"
  shows "conf_inv B J (registered J db peers)"
    and "jtype_at J (conf_settings (registered J db peers)) = [''chain.reset.enable'' \<mapsto> JT_boolean, ''database.folder'' \<mapsto> JT_string,
        ''database.filesize.max'' \<mapsto> JT_number_unsigned, ''mining.autostart'' \<mapsto> JT_boolean,
        ''mining.miner.address'' \<mapsto> JT_string, ''rest.port'' \<mapsto> JT_number_unsigned,
        ''websocket.port'' \<mapsto> JT_number_unsigned, ''rest.autoload'' \<mapsto> JT_boolean, ''peers.file'' \<mapsto> JT_string,
        ''logs.level'' \<mapsto> JT_string, ''logs.file.enabled'' \<mapsto> JT_boolean, ''logs.file.folder'' \<mapsto> JT_string]"
  using assms ports_valid unfolding registered_def Let_def
  by (simp_all add: registered_type registered_inv conf_inv_new jtype_new type_bool type_string type_u64 del: fun_upd_apply)

text \<open>The values a start without any change of the configuration works with.\<close>

lemma registered_values:
  assumes "db \<noteq> []" and "peers \<noteq> []"
  shows "value_string J ''database.folder'' d (registered J db peers) = Ok db"
    and "value_string J ''peers.file'' d (registered J db peers) = Ok peers"
    and "value_string J ''mining.miner.address'' d (registered J db peers) = Ok ''<CHANGE ME>''"
    and "value_string J ''logs.level'' d (registered J db peers) = Ok ''info''"
    and "value_string J ''logs.file.folder'' d (registered J db peers) = Ok db"
    and "value_u32 J ''rest.port'' w (registered J db peers) = Ok HTTPServerPortDefault"
    and "value_u32 J ''websocket.port'' w (registered J db peers) = Ok WebSocketServerPorDefault"
    and "value_bool J ''mining.autostart'' b (registered J db peers) = Ok False"
    and "value_bool J ''rest.autoload'' b (registered J db peers) = Ok False"
    and "value_bool J ''logs.file.enabled'' b (registered J db peers) = Ok True"
  using assms ports_valid unfolding registered_def Let_def value_string_def value_u32_def value_bool_def
  by (simp_all add: registered_value registered_inv conf_inv_new type_bool type_string type_u64 get_string get_u64 get_bool
      ucast_ucast_u32)

lemma registerSettings_valid:
  assumes "getDataFolder os = Ok folder"
  shows "\<exists>S. registerSettings B J os = Ok S \<and> conf_inv B J S
    \<and> jtype_at J (conf_settings S) = [''chain.reset.enable'' \<mapsto> JT_boolean, ''database.folder'' \<mapsto> JT_string,
        ''database.filesize.max'' \<mapsto> JT_number_unsigned, ''mining.autostart'' \<mapsto> JT_boolean,
        ''mining.miner.address'' \<mapsto> JT_string, ''rest.port'' \<mapsto> JT_number_unsigned,
        ''websocket.port'' \<mapsto> JT_number_unsigned, ''rest.autoload'' \<mapsto> JT_boolean, ''peers.file'' \<mapsto> JT_string,
        ''logs.level'' \<mapsto> JT_string, ''logs.file.enabled'' \<mapsto> JT_boolean, ''logs.file.folder'' \<mapsto> JT_string]
    \<and> conf_validators S ''logs.level'' = None
    \<and> conf_validators S ''rest.port'' = Some (RangeValidator T_u64 filesizeMin filesizeMax)
    \<and> conf_validators S ''websocket.port'' = Some (RangeValidator T_u64 filesizeMin filesizeMax)
    \<and> conf_validators S ''database.folder'' = Some NotEmptyValidator"
proof -
  define db where "db = folder @ [PATH_SEPERATOR os] @ ''AshChain''"
  define peers where "peers = db @ [PATH_SEPERATOR os] @ ''peers.txt''"
  have ne: "db \<noteq> []" "peers \<noteq> []" by (simp_all add: db_def peers_def)
  have "getDefaultDatabaseFolder os = Ok db" "getDefaultPeersFile os = Ok peers"
    by (simp_all add: getDefaultDatabaseFolder_def getDefaultPeersFile_def assms db_def peers_def)
  from registerSettings_eq [OF this ne] registered_ok [OF ne]
  show ?thesis by (intro exI [of _ "registered J db peers"]) (simp add: registered_def Let_def registered_validator)
qed

end

interpretation conf_std: conf_libraries "jval_conf p" boost_std for p
  by unfold_locales

subsection \<open>The configuration of the program\<close>

context json_conf_library
begin

lemma value_u32_put:
  "j_type J (conf_settings S) \<in> {JT_null, JT_object} \<Longrightarrow>
    value_u32 J name d (put_setting J name (j_of_u64 J (ucast w)) S) = Ok w"
  by (simp add: value_u32_def conf_value_put type_u64 ucast_ucast_u32)

end

text \<open>
  C31: the configuration file that the first start writes is accepted by the next start and
  restores every setting. The only thing assumed of the parser is that it reads back what was
  written.
\<close>

theorem initSettings_restart:
  assumes "json_conf_library J" and "boost_library B" and "getDataFolder os = Ok folder"
    and parse: "\<And>S. registerSettings B J os = Ok S \<Longrightarrow> j_parse J (conf_save J S) = Some (conf_settings S)"
  shows "\<exists>S txt S'. initSettings B J os None = Ok (S, txt) \<and> initSettings B J os (Some txt) = Ok (S', txt)
    \<and> (\<forall>n. conf_exists J n S' \<longleftrightarrow> conf_exists J n S)
    \<and> (\<forall>n. conf_exists J n S \<longrightarrow> j_at J (conf_settings S') n = j_at J (conf_settings S) n)"
proof -
  have lib: "conf_libraries J B" using assms(1,2) by (rule conf_libraries.intro)
  obtain S where S: "registerSettings B J os = Ok S" "conf_inv B J S"
    using conf_libraries.registerSettings_valid [OF lib assms(3)] by blast
  then have obj: "j_type J (conf_settings S) \<in> {JT_null, JT_object}" and "all_valid B J S"
    by (simp_all add: conf_inv_def well_typed_def)
  then have "\<exists>S'. conf_load B J (Some (conf_save J S)) S = Ok (S', length (j_entries J (conf_settings S)))
    \<and> (\<forall>n. conf_exists J n S' \<longleftrightarrow> conf_exists J n S)
    \<and> (\<forall>n. j_contains J (conf_settings S) n \<longrightarrow> j_at J (conf_settings S') n = j_at J (conf_settings S) n)"
    using S(1) by (intro json_conf_library.conf_load_valid [OF assms(1) obj parse])
      (auto simp: all_valid_def conf_exists_def)
  then obtain S' where "conf_load B J (Some (conf_save J S)) S = Ok (S', length (j_entries J (conf_settings S)))"
    "\<forall>n. conf_exists J n S' \<longleftrightarrow> conf_exists J n S"
    "\<forall>n. j_contains J (conf_settings S) n \<longrightarrow> j_at J (conf_settings S') n = j_at J (conf_settings S) n" by blast
  then show ?thesis
    by (intro exI [of _ S] exI [of _ "conf_save J S"] exI [of _ S']) (simp add: initSettings_def S(1) conf_exists_def)
qed

definition sample_os :: os_env where
  "sample_os = \<lparr>os_platform = Linux, os_pw_dir = ''/home/a'', os_profile = None, os_appdata = None\<rparr>"

theorem initSettings_restart_witness:
  "\<exists>J :: jval json_conf. \<exists>S txt S'. initSettings boost_std J sample_os None = Ok (S, txt)
    \<and> initSettings boost_std J sample_os (Some txt) = Ok (S', txt)
    \<and> (\<forall>n. conf_exists J n S \<longrightarrow> j_at J (conf_settings S') n = j_at J (conf_settings S) n)"
proof -
  have os: "getDataFolder sample_os = Ok ''/home/a''" by (simp add: getDataFolder_def sample_os_def)
  define S0 where "S0 = (case registerSettings boost_std (jval_conf Map.empty) sample_os of Inr S \<Rightarrow> S)"
  define J where "J = jval_conf (\<lambda>_. Some (conf_settings S0))"
  have same: "registerSettings boost_std (jval_conf p) sample_os = registerSettings boost_std (jval_conf q) sample_os" for p q
    by (simp add: registerSettings_def conf_defs Let_def)
  have "j_parse J (conf_save J S) = Some (conf_settings S)" if "registerSettings boost_std J sample_os = Ok S" for S
  proof -
    have "registerSettings boost_std (jval_conf Map.empty) sample_os = Ok S"
      using that unfolding J_def by (subst same [of _ "\<lambda>_. Some (conf_settings S0)"])
    then have "S0 = S" by (simp add: S0_def)
    then show ?thesis by (simp add: J_def)
  qed
  moreover have "json_conf_library J" unfolding J_def by (rule json_conf_library_jval)
  ultimately show ?thesis
    using initSettings_restart [OF _ boost_std.boost_library_axioms os, of J] by blast
qed

text \<open>
  Ports are not checked against the range of ports. The two port settings are registered with
  the range for file sizes, so a port number above 65535 is accepted and read back, while the
  constants for the range of ports are never used.
\<close>

theorem port_out_of_range_accepted:
  assumes "json_conf_library J" and "boost_library B" and "getDataFolder os = Ok folder"
    and "name = ''rest.port'' \<or> name = ''websocket.port''" and "65535 < n" and "n \<le> 1024 * 1024 * 1024"
  shows "\<exists>S S'. registerSettings B J os = Ok S \<and> conf_set B J name (show_nat n) S = Ok S'
    \<and> value_u32 J name d S' = Ok (of_nat n)"
proof -
  have lib: "conf_libraries J B" using assms(1,2) by (rule conf_libraries.intro)
  obtain S where S: "registerSettings B J os = Ok S" "conf_inv B J S"
    "jtype_at J (conf_settings S) name = Some JT_number_unsigned"
    "conf_validators S name = Some (RangeValidator T_u64 filesizeMin filesizeMax)"
    using conf_libraries.registerSettings_valid [OF lib assms(3)] assms(4) by fastforce
  have n: "n < 2 ^ 32" "n < 2 ^ 64" using assms(6) by simp_all
  have lex: "b_lex_u64 B (show_nat n) = Some (of_nat n)" "b_lex_u32 B (show_nat n) = Some (of_nat n)"
    using n scan_show_nat [of n, where 'a = 64] scan_show_nat [of n, where 'a = 32]
    by (simp_all add: boost_library.lex_u64 [OF assms(2)] boost_library.lex_u32 [OF assms(2)])
  have "uint (of_nat n :: u64) = int n" using n(2) unat_of_nat64 [of n] by (metis of_nat_unat)
  then have "isValid B (RangeValidator T_u64 filesizeMin filesizeMax) (show_nat n)"
    using assms(5,6) by (simp add: lexical_cast_def lex filesizeMin_def filesizeMax_def)
  then have v: "validate B (RangeValidator T_u64 filesizeMin filesizeMax) (show_nat n) = Ok ()"
    by (rule validator.check_valid)
  obtain j where j: "j_at J (conf_settings S) name = Ok j" "j_type J j = JT_number_unsigned" "conf_exists J name S"
    using S(3) by (auto simp: jtype_at_def conf_exists_def split: if_splits sum.splits)
  define S' where "S' = put_setting J name (j_of_u64 J (ucast (of_nat n :: u32))) S"
  have set: "conf_set B J name (show_nat n) S = Ok S'"
    using j S(4) v lex by (simp add: conf_set_def convert_setting_def S'_def)
  have "j_type J (conf_settings S) \<in> {JT_null, JT_object}" using S(2) by (simp add: conf_inv_def well_typed_def)
  then have "value_u32 J name d S' = Ok (of_nat n)"
    unfolding S'_def by (rule json_conf_library.value_u32_put [OF assms(1)])
  with S(1) set show ?thesis by auto
qed

theorem port_out_of_range_accepted_witness:
  "\<exists>S S'. registerSettings boost_std (jval_conf Map.empty) sample_os = Ok S
    \<and> conf_set boost_std (jval_conf Map.empty) ''rest.port'' (show_nat 70000) S = Ok S'
    \<and> value_u32 (jval_conf Map.empty) ''rest.port'' 0 S' = Ok 70000"
  using port_out_of_range_accepted [OF json_conf_library_jval boost_std.boost_library_axioms,
      of sample_os "''/home/a''" "''rest.port''" 70000 Map.empty 0]
  by (simp add: getDataFolder_def sample_os_def)

text \<open>
  Assigning a setting without a validator crashes. \<open>conf_set\<close> and \<open>setNoThrow\<close> call the validator of the name
  without testing for a null pointer, which is what \<open>registerString\<close> stores when no validator is given;
  among the settings of the program this is the log level. Loading a file does test for it.
\<close>

theorem set_without_validator:
  assumes "json_conf_library J" and "boost_library B" and "getDataFolder os = Ok folder"
  shows "\<exists>S. registerSettings B J os = Ok S
    \<and> conf_set B J ''logs.level'' val S = Err UndefinedBehaviour
    \<and> setNoThrow B J ''logs.level'' val S = Err UndefinedBehaviour
    \<and> load_item B J (''logs.level'', j_of_string J val) (S, 0) = Ok (put_setting J ''logs.level'' (j_of_string J val) S, 1)"
proof -
  have lib: "conf_libraries J B" using assms(1,2) by (rule conf_libraries.intro)
  obtain S where S: "registerSettings B J os = Ok S" "jtype_at J (conf_settings S) ''logs.level'' = Some JT_string"
    "conf_validators S ''logs.level'' = None"
    using conf_libraries.registerSettings_valid [OF lib assms(3)] by fastforce
  then obtain j where "j_at J (conf_settings S) ''logs.level'' = Ok j" "j_type J j = JT_string" "conf_exists J ''logs.level'' S"
    by (auto simp: jtype_at_def conf_exists_def split: if_splits sum.splits)
  with S show ?thesis by (intro exI [of _ S]) (simp add: conf_set_def setNoThrow_def load_item_def)
qed

theorem set_without_validator_witness:
  "\<exists>S. conf_set boost_std (jval_conf Map.empty) ''logs.level'' ''debug'' S = Err UndefinedBehaviour"
  using set_without_validator [OF json_conf_library_jval boost_std.boost_library_axioms,
      of sample_os "''/home/a''" Map.empty "''debug''"]
  by (auto simp: getDataFolder_def sample_os_def)

text \<open>
  A file can change the type of a setting. Loading validates the text of a value but stores the
  value with the type it has in the file: a truth value written as a text passes, and is then
  ignored by the reader for truth values, which returns whatever fallback it is given. An invalid
  value that is not a text is reported as a type error of the JSON library and not as the
  invalid argument that the code means to throw.
\<close>

theorem load_changes_type:
  assumes "json_conf_library J" and "boost_library B" and "well_typed J S" and "conf_exists J name S"
    and "conf_validators S name = Some BoolValidator" and "j_parse J txt = Some conf"
  shows "(j_entries J conf = [(name, j_of_string J ''true'')] \<longrightarrow>
      (\<exists>S'. conf_load B J (Some txt) S = Ok (S', 1) \<and> value_string J name d S' = Ok ''true''
         \<and> (\<forall>b. value_bool J name b S' = Ok b)))
    \<and> (j_entries J conf = [(name, j_of_u64 J 7)] \<longrightarrow> conf_load B J (Some txt) S = Err JsonTypeError)"
proof -
  have obj: "j_type J (conf_settings S) \<in> {JT_null, JT_object}" using assms(3) by (simp add: well_typed_def)
  have lib: "json_library J" using assms(1) by (rule json_conf_library.axioms)
  have "isBoolean B ''true''" "\<not> isBoolean B ''7''"
    by (simp_all add: isBoolean_def trueStrings_def falseStrings_def boost_library.iequals [OF assms(2)] upcase_def less_eq_char_def)
  moreover have "show_u64 7 = ''7''" by (simp add: show_nat.simps digit_char_table)
  ultimately show ?thesis
    using assms(4-6)
    by (auto simp: conf_load_def load_item_def json_to_string_def json_conf_library.type_string [OF assms(1)]
        json_library.get_string [OF lib] json_library.type_u64 [OF lib] json_conf_library.dump_u64 [OF assms(1)]
        json_conf_library.get_string_error [OF assms(1)] value_string_def value_bool_def
        json_conf_library.conf_value_put [OF assms(1) obj])
qed

theorem load_changes_type_witness:
  "\<exists>(J :: jval json_conf) S'. conf_load boost_std J (Some ''f'') sample_conf = Ok (S', 1)
     \<and> (\<forall>b. value_bool J ''mining.autostart'' b S' = Ok b)"
proof -
  let ?J = "jval_conf (\<lambda>_. Some (JObj [(''mining.autostart'', JStr ''true'')]))"
  have "conf_exists ?J ''mining.autostart'' sample_conf" "conf_validators sample_conf ''mining.autostart'' = Some BoolValidator"
    by (simp_all add: sample_conf_def conf_defs)
  moreover have "j_parse ?J ''f'' = Some (JObj [(''mining.autostart'', JStr ''true'')])" by simp
  ultimately have "\<exists>S'. conf_load boost_std ?J (Some ''f'') sample_conf = Ok (S', 1)
      \<and> value_string ?J ''mining.autostart'' [] S' = Ok ''true'' \<and> (\<forall>b. value_bool ?J ''mining.autostart'' b S' = Ok b)"
    using load_changes_type [OF json_conf_library_jval boost_std.boost_library_axioms sample_conf_typed] by fastforce
  then show ?thesis by (intro exI [of _ ?J]) auto
qed

end
