(* ===== verification/Ash_Rest.thy ===== *)
theory Ash_Rest
  imports Ash_Run Ash_Settings
begin

section \<open>The web service\<close>

text \<open>
  The HTTP handlers of \<^verbatim>\<open>src/src/MinerApp.cpp\<close> (\<^verbatim>\<open>initWebService\<close>, \<^verbatim>\<open>initRestService\<close>, \<^verbatim>\<open>initHttp\<close>) and
  \<^verbatim>\<open>src/src/ProblemDetails.h\<close>. A handler maps a request to the responses it writes, in order, and to the new state of the
  node. A request carries the groups that the pattern of its path matched (\<open>Ash_Routes\<close>) and the lookup of its
  query string. Pages that are compiled in and files that replace them are parameters, as is the random key of a
  new wallet.
\<close>

subsection \<open>Requests, responses and state\<close>

record HttpRequest =
  rq_path :: string
  rq_match :: "string list"
  rq_query :: "string \<Rightarrow> string option"
  rq_content :: string

record HttpResponse =
  http_status :: nat
  http_body :: string
  http_type :: "string option"

definition write_status :: "nat \<Rightarrow> HttpResponse" where
  "write_status c = \<lparr>http_status = c, http_body = [], http_type = None\<rparr>"

definition write_both :: "nat \<Rightarrow> string \<Rightarrow> HttpResponse" where
  "write_both c s = \<lparr>http_status = c, http_body = s, http_type = None\<rparr>"

definition write_text :: "string \<Rightarrow> HttpResponse" where
  "write_text s = write_both 200 s"

abbreviation bad_request :: HttpResponse where
  "bad_request \<equiv> write_status 400"

text \<open>\<^verbatim>\<open>path_match[i].str()\<close>, empty for a group that does not exist.\<close>

definition match_str :: "HttpRequest \<Rightarrow> nat \<Rightarrow> string" where
  "match_str rq i = (if i < length (rq_match rq) then rq_match rq ! i else [])"

text \<open>\<open>wa_mineThread\<close>: \<^verbatim>\<open>_mineThread\<close> is joinable.\<close>

record 'j WebApp =
  wa_node :: MinerApp
  wa_mineThread :: bool
  wa_settings :: "'j Settings"

record page_env =
  pg_builtin :: "string \<Rightarrow> string"
  pg_override :: "string \<Rightarrow> string \<Rightarrow> string option"
  pg_build :: string

record 'j json_rest = "'j json_conf" +
  j_dump_indent :: "int \<Rightarrow> 'j \<Rightarrow> string"

subsection \<open>Reading numbers\<close>

text \<open>
  \<^verbatim>\<open>std::from_chars\<close> reads the longest prefix that is a number and ignores the rest. The
  variable is left alone when there is none or when the number does not fit.
\<close>

datatype 'n from_chars_result = FC_ok 'n | FC_invalid_argument | FC_out_of_range

definition from_chars_u64 :: "string \<Rightarrow> u64 from_chars_result" where
  "from_chars_u64 s =
     (let ds = takeWhile isdigit s in
      if ds = [] then FC_invalid_argument
      else if digits_value 0 ds < 2 ^ 64 then FC_ok (of_nat (digits_value 0 ds)) else FC_out_of_range)"

definition from_chars_int :: "string \<Rightarrow> int from_chars_result" where
  "from_chars_int s =
     (let neg = (s \<noteq> [] \<and> hd s = CHR ''-''); ds = takeWhile isdigit (if neg then tl s else s);
          i = (if neg then - int (digits_value 0 ds) else int (digits_value 0 ds)) in
      if ds = [] then FC_invalid_argument
      else if - (2 ^ 31) \<le> i \<and> i < 2 ^ 31 then FC_ok i else FC_out_of_range)"

text \<open>The index that is read into a variable set to 0, nothing for an invalid argument.\<close>

definition read_index :: "string \<Rightarrow> u64 option" where
  "read_index s = (case from_chars_u64 s of FC_ok n \<Rightarrow> Some n | FC_invalid_argument \<Rightarrow> None | FC_out_of_range \<Rightarrow> Some 0)"

definition GetIndent :: "(string \<Rightarrow> string option) \<Rightarrow> int" where
  "GetIndent query = (case query ''indent'' of
       Some identstr \<Rightarrow> (case from_chars_int identstr of FC_ok i \<Rightarrow> i | FC_out_of_range \<Rightarrow> 0 | FC_invalid_argument \<Rightarrow> -1)
     | None \<Rightarrow> -1)"

subsection \<open>Pages\<close>

definition APP_NAME_LONG :: string where "APP_NAME_LONG = ''AshCoin''"
definition APP_DOMAIN :: string where "APP_DOMAIN = ''AC''"
definition GITHUB_PAGE :: string where "GITHUB_PAGE = ''https://github.com/zethon/ash''"
definition COPYRIGHT :: string where "COPYRIGHT = ''Copyright (c) 2019-2020, github.com/zethon''"
definition VERSION :: string where "VERSION = ''0.1.1''"

definition GetRawHtmlContent :: "page_env \<Rightarrow> string \<Rightarrow> string \<Rightarrow> string \<Rightarrow> string" where
  "GetRawHtmlContent pg datafolder filename content =
     (case pg_override pg datafolder filename of Some found \<Rightarrow> found | None \<Rightarrow> content)"

definition app_entries :: "page_env \<Rightarrow> Dictionary \<Rightarrow> Dictionary" where
  "app_entries pg dict =
     fold (\<lambda>(k, v). smap_set k v)
       [(''%app-title%'', APP_NAME_LONG), (''%app-domain%'', APP_DOMAIN), (''%app-github%'', GITHUB_PAGE),
        (''%app-copyright%'', COPYRIGHT), (''%build-date%'', pg_build pg), (''%build-version%'', VERSION)] dict"

definition servePage ::
  "boost_lib \<Rightarrow> ('j, 'b) json_lib_scheme \<Rightarrow> page_env \<Rightarrow> 'j Settings \<Rightarrow> string \<Rightarrow> Dictionary \<Rightarrow> HttpResponse list result" where
  "servePage B J pg S filename dict =
     (let tempDict = app_entries pg dict in
      rbind (value_string J ''database.folder'' [] S) (\<lambda>datafolder.
      rbind (massert (datafolder \<noteq> [])) (\<lambda>_.
        let header_text = GetRawHtmlContent pg datafolder ''header.html'' (pg_builtin pg ''header.html'');
            tempDict = smap_set ''%header_html%'' (DoDictionary B header_text tempDict) tempDict;
            footer_text = GetRawHtmlContent pg datafolder ''footer.html'' (pg_builtin pg ''footer.html'');
            tempDict = smap_set ''%footer_html%'' (DoDictionary B footer_text tempDict) tempDict;
            page = GetRawHtmlContent pg datafolder filename (pg_builtin pg filename)
        in Ok [write_text (DoDictionary B page tempDict)])))"

definition getStandardDictionary ::
  "('j, 'b) json_lib_scheme \<Rightarrow> page_env \<Rightarrow> 'j Settings \<Rightarrow> Dictionary \<Rightarrow> Dictionary result" where
  "getStandardDictionary J pg S dict =
     rbind (value_u32 J ''rest.port'' HTTPServerPortDefault S) (\<lambda>port.
       Ok (smap_set ''%rest-port%'' (show_nat (unat port)) (app_entries pg dict)))"

text \<open>The style sheet and the script, with their content types.\<close>

definition serve_file ::
  "('j, 'b) json_lib_scheme \<Rightarrow> page_env \<Rightarrow> string \<Rightarrow> string \<Rightarrow> 'j WebApp \<Rightarrow> HttpResponse list result" where
  "serve_file J pg filename content_type a =
     rbind (value_string J ''database.folder'' [] (wa_settings a)) (\<lambda>datafolder.
     rbind (massert (datafolder \<noteq> [])) (\<lambda>_.
       Ok [\<lparr>http_status = 200, http_body = GetRawHtmlContent pg datafolder filename (pg_builtin pg filename),
            http_type = Some content_type\<rparr>]))"

definition get_style :: "('j, 'b) json_lib_scheme \<Rightarrow> page_env \<Rightarrow> 'j WebApp \<Rightarrow> HttpResponse list result" where
  "get_style J pg a = serve_file J pg ''style.css'' ''text/css'' a"

definition get_common_js :: "('j, 'b) json_lib_scheme \<Rightarrow> page_env \<Rightarrow> 'j WebApp \<Rightarrow> HttpResponse list result" where
  "get_common_js J pg a = serve_file J pg ''common.js'' ''text/javascript'' a"

definition get_index ::
  "boost_lib \<Rightarrow> ('j, 'b) json_lib_scheme \<Rightarrow> page_env \<Rightarrow> 'j WebApp \<Rightarrow> HttpResponse list result" where
  "get_index B J pg a =
     rbind (getStandardDictionary J pg (wa_settings a) []) (\<lambda>dict.
     rbind (cumDifficulty (blockchain (wa_node a))) (\<lambda>cum.
       let dict = smap_set ''%chain-size%'' (show_u64 (chain_size (blockchain (wa_node a)) - 1)) dict;
           dict = smap_set ''%chain-diff%'' (show_u64 (m_difficulty (app_miner (wa_node a)))) dict;
           dict = smap_set ''%chain-cumdiff%'' (show_u64 cum) dict;
           dict = smap_set ''%mining-status%'' (if miningDone (wa_node a) then ''stopped'' else ''started'') dict;
           dict = smap_set ''%mining-uuid%'' (uuid (wa_node a)) dict
       in servePage B J pg (wa_settings a) ''index.html'' dict))"

definition get_address_page ::
  "boost_lib \<Rightarrow> ('j, 'b) json_lib_scheme \<Rightarrow> page_env \<Rightarrow> HttpRequest \<Rightarrow> 'j WebApp \<Rightarrow> HttpResponse list result" where
  "get_address_page B J pg rq a =
     servePage B J pg (wa_settings a) ''address.html'' (smap_set ''%address%'' (match_str rq 1) [])"

definition get_tx_page ::
  "boost_lib \<Rightarrow> ('j, 'b) json_lib_scheme \<Rightarrow> page_env \<Rightarrow> HttpRequest \<Rightarrow> 'j WebApp \<Rightarrow> HttpResponse list result" where
  "get_tx_page B J pg rq a =
     servePage B J pg (wa_settings a) ''tx.html'' (smap_set ''%transaction%'' (match_str rq 1) [])"

definition get_createtx_page ::
  "boost_lib \<Rightarrow> ('j, 'b) json_lib_scheme \<Rightarrow> page_env \<Rightarrow> 'j WebApp \<Rightarrow> HttpResponse list result" where
  "get_createtx_page B J pg a = servePage B J pg (wa_settings a) ''createtx.html'' []"

definition get_block_page ::
  "boost_lib \<Rightarrow> ('j, 'b) json_lib_scheme \<Rightarrow> page_env \<Rightarrow> HttpRequest \<Rightarrow> 'j WebApp \<Rightarrow> HttpResponse list result" where
  "get_block_page B J pg rq a =
     (let c = blockchain (wa_node a) in
      case read_index (match_str rq 1) of
        None \<Rightarrow> Ok [bad_request]
      | Some blkIndex \<Rightarrow>
          if chain_size c \<le> blkIndex then Ok [bad_request]
          else rbind (chain_at c blkIndex) (\<lambda>block.
               rbind (massert (index block = blkIndex)) (\<lambda>_.
               if 2 < length (rq_match rq) \<and> match_str rq 2 = ''json''
               then Ok [write_text (j_dump J (Block_to_json J block))]
               else rbind (getStandardDictionary J pg (wa_settings a) []) (\<lambda>dict.
                    let previd = (if blkIndex = 0 then chain_size c - 1 else blkIndex - 1);
                        nextId = (blkIndex + 1) mod chain_size c;
                        dict = fold (\<lambda>(k, v). smap_set k v)
                          [(''%block-id%'', show_u64 blkIndex), (''%block-hash%'', hash block),
                           (''%block-previoushash%'', previousHash block), (''%block-root%'', ''TODO: MERKLE ROOT''),
                           (''%block-time%'', ''TODO: BLOCK TIME''), (''%block-difficulty%'', show_u64 (difficulty block)),
                           (''%block-nonce%'', show_u64 (nonce block)),
                           (''%block-transactions%'', show_u64 (vec_size (transactions block))),
                           (''%block-valueout%'', ''TODO: VALUE OUT''), (''%block-previd%'', show_u64 previd),
                           (''%block-nextid%'', show_u64 nextId)] dict
                    in servePage B J pg (wa_settings a) ''block.html'' dict))))"

subsection \<open>Blocks\<close>

definition invalid_block :: string where
  "invalid_block = ''<html><body><h2 stye='' @ quoted ''color:red'' @ ''>Invalid Block</h2></body></html>''"

definition block_link :: "int \<Rightarrow> string \<Rightarrow> string" where
  "block_link i name = ''<a href='' @ quote1 (''/block-idx/'' @ show_int i) @ ''>'' @ name @ ''</a>&nbsp;''"

definition get_block_idx :: "('j, 'b) json_rest_scheme \<Rightarrow> HttpRequest \<Rightarrow> 'j WebApp \<Rightarrow> HttpResponse list result" where
  "get_block_idx J rq a =
     (let c = blockchain (wa_node a) in
      case from_chars_int (match_str rq 1) of
        FC_ok i \<Rightarrow>
          if chain_size c \<le> of_int i then Ok [write_text invalid_block]
          else rbind (chain_at c (of_int i)) (\<lambda>b.
               Ok [write_text (''<pre>'' @ j_dump_indent J 4 (Block_to_json J b) @ ''</pre>'' @ ''<br/>''
                 @ (if 0 < i then block_link (i - 1) ''prev'' else []) @ ''current: '' @ show_int i
                 @ (if of_int i < chain_size c then ''&nbsp;'' @ block_link (i + 1) ''next'' else []))])
      | _ \<Rightarrow> Ok [write_text invalid_block])"

text \<open>The loop over the indices from \<open>startingIdx\<close> to the end.\<close>

definition get_blocks_last :: "('j, 'b) json_lib_scheme \<Rightarrow> HttpRequest \<Rightarrow> 'j WebApp \<Rightarrow> HttpResponse list result" where
  "get_blocks_last J rq a =
     (let c = blockchain (wa_node a) in
      case read_index (match_str rq 1) of
        None \<Rightarrow> Ok [bad_request]
      | Some n \<Rightarrow>
          let startingIdx = (if chain_size c \<le> n then 0 else chain_size c - n) in
          rbind (rmap (\<lambda>idx. chain_at c (of_nat idx)) [unat startingIdx ..< unat (chain_size c)]) (\<lambda>bs.
            Ok [write_text (j_dump J (if bs = [] then j_null J
                  else set_all J [(''blocks'', push_all J (Block_to_json J) bs)]))]))"

definition get_rest_block :: "('j, 'b) json_rest_scheme \<Rightarrow> HttpRequest \<Rightarrow> 'j WebApp \<Rightarrow> HttpResponse list result" where
  "get_rest_block J rq a =
     (let c = blockchain (wa_node a) in
      case read_index (match_str rq 1) of
        None \<Rightarrow> Ok [bad_request]
      | Some blkIndex \<Rightarrow>
          if chain_size c \<le> blkIndex then Ok [bad_request]
          else rbind (GetBlockDetails c blkIndex) (\<lambda>block.
               rbind (massert (index block = blkIndex)) (\<lambda>_.
                 Ok [write_text (j_dump_indent J (GetIndent (rq_query rq)) (Block_to_json J block))])))"

definition get_summary :: "('j, 'b) json_lib_scheme \<Rightarrow> 'j WebApp \<Rightarrow> HttpResponse list result" where
  "get_summary J a =
     (let c = blockchain (wa_node a) in
      rbind (chain_back c) (\<lambda>b.
      rbind (cumDifficulty c) (\<lambda>cum.
        Ok [write_text (j_dump J (set_all J [(''blocks'', push_all J (Block_to_json J) [b]), (''cumdiff'', j_of_u64 J cum),
              (''difficulty'', j_of_u64 J (m_difficulty (app_miner (wa_node a)))),
              (''mining'', j_of_bool J (\<not> miningDone (wa_node a)))]))])))"

subsection \<open>Addresses and transactions\<close>

definition get_unspent ::
  "hash_lib \<Rightarrow> ('j, 'b) json_rest_scheme \<Rightarrow> HttpRequest \<Rightarrow> 'j WebApp \<Rightarrow> HttpResponse list result" where
  "get_unspent H J rq a =
     rbind (if 1 < length (rq_match rq) \<and> match_str rq 1 \<noteq> []
            then GetUnspentTxOuts H (blockchain (wa_node a)) (match_str rq 1)
            else GetUnspentTxOuts H (blockchain (wa_node a)) []) (\<lambda>outs.
       Ok [write_text (j_dump_indent J (GetIndent (rq_query rq)) (UnspentTxOuts_to_json J outs))])"

definition get_address :: "('j, 'b) json_rest_scheme \<Rightarrow> HttpRequest \<Rightarrow> 'j WebApp \<Rightarrow> HttpResponse list result" where
  "get_address J rq a =
     rbind (GetAddressLedger (blockchain (wa_node a)) (match_str rq 1)) (\<lambda>ledger.
       Ok [write_text (j_dump_indent J (GetIndent (rq_query rq)) (AddressLedger_to_json J ledger))])"

definition get_tx :: "('j, 'b) json_rest_scheme \<Rightarrow> HttpRequest \<Rightarrow> 'j WebApp \<Rightarrow> HttpResponse list result" where
  "get_tx J rq a =
     (let c = blockchain (wa_node a) in
      rbind (case FindTransaction c (match_str rq 1) of
               None \<Rightarrow> Ok []
             | Some (blockindex, txindex) \<Rightarrow>
                 rbind (GetBlockDetails c blockindex) (\<lambda>tempblock.
                 rbind (vec_at (transactions tempblock) txindex) (\<lambda>tx.
                   let json = Transaction_to_json J tx;
                       json = j_set J json ''blockindex'' (j_of_u64 J (index tempblock));
                       json = j_set J json ''time'' (j_of_u64 J (btime tempblock))
                   in Ok [write_text (j_dump_indent J (GetIndent (rq_query rq)) json)])))
        (\<lambda>out. Ok (out @ [write_status 404])))"

text \<open>\<open>exponent\<close> and \<open>validated\<close> are what the random generator and the check of the key yield.\<close>

definition get_createWallet :: "cryptopp \<Rightarrow> ('j, 'b) json_rest_scheme \<Rightarrow> nat \<Rightarrow> bool \<Rightarrow> HttpResponse list" where
  "get_createWallet cp J exponent validated =
     (let privateKey = GeneratePrivateKey cp exponent validated
      in [write_text (j_dump_indent J 4 (set_all J [(''private-key'', j_of_string J privateKey),
            (''public-key'', j_of_string J (GetPublicKey cp privateKey)),
            (''address'', j_of_string J (GetAddressFromPrivateKey cp privateKey))]))])"

record ProblemDetail =
  problem_type :: string
  problem_title :: string
  problem_status :: u32
  problem_detail :: string
  problem_instance :: string

definition ProblemDetail_to_json :: "('j, 'b) json_lib_scheme \<Rightarrow> ProblemDetail \<Rightarrow> 'j" where
  "ProblemDetail_to_json J pd =
     set_all J [(''type'', j_of_string J (problem_type pd)), (''title'', j_of_string J (problem_title pd)),
                (''status'', j_of_u64 J (ucast (problem_status pd))), (''detail'', j_of_string J (problem_detail pd)),
                (''instance'', j_of_string J (problem_instance pd))]"

definition ProblemDetail_from_json :: "('j, 'b) json_lib_scheme \<Rightarrow> 'j \<Rightarrow> ProblemDetail result" where
  "ProblemDetail_from_json J j =
     rbind (at_get J (j_get_string J) j ''type'') (\<lambda>t.
     rbind (at_get J (j_get_string J) j ''title'') (\<lambda>ti.
     rbind (at_get J (j_get_u64 J) j ''status'') (\<lambda>st.
     rbind (at_get J (j_get_string J) j ''detail'') (\<lambda>d.
     rbind (at_get J (j_get_string J) j ''instance'') (\<lambda>i.
       Ok \<lparr>problem_type = t, problem_title = ti, problem_status = ucast st, problem_detail = d, problem_instance = i\<rparr>)))))"

definition post_createtx ::
  "cryptopp \<Rightarrow> hash_lib \<Rightarrow> boost_lib \<Rightarrow> ('j, 'b) json_rest_scheme \<Rightarrow> HttpRequest \<Rightarrow> 'j WebApp
   \<Rightarrow> (HttpResponse list \<times> 'j WebApp) result" where
  "post_createtx cp H B J rq a =
     (case j_parse J (rq_content rq) of
        None \<Rightarrow> Ok ([bad_request], a)
      | Some json \<Rightarrow>
          if \<not> j_contains J json ''toaddress'' \<or> \<not> j_contains J json ''privatekey'' \<or> \<not> j_contains J json ''amount''
          then Ok ([bad_request], a)
          else rbind (j_at J json ''amount'') (\<lambda>jamount.
          if \<not> j_is_number J jamount then Ok ([bad_request], a)
          else rbind (at_get J (j_get_string J) json ''toaddress'') (\<lambda>toaddress.
               rbind (at_get J (j_get_string J) json ''privatekey'') (\<lambda>privateKey.
               rbind (j_get_double J jamount) (\<lambda>amt.
               rbind (CreateTransaction cp H (b_iequals B) (blockchain (wa_node a)) privateKey toaddress amt) (\<lambda>(result, newtx).
               if result = SUCCESS
               then Ok ([write_status 201],
                        a\<lparr>wa_node := (wa_node a)\<lparr>blockchain := queueTransaction newtx (blockchain (wa_node a))\<rparr>\<rparr>)
               else rbind (TxResult_ToString result) (\<lambda>name.
                    let details = \<lparr>problem_type = ''/createx/'' @ name, problem_title = name, problem_status = 500,
                                   problem_detail = [], problem_instance = rq_path rq\<rparr>
                    in Ok ([write_both 500 (j_dump J (ProblemDetail_to_json J details))], a))))))))"

subsection \<open>Starting and stopping the miner\<close>

text \<open>Assigning a new thread to a thread object that was not joined ends the program.\<close>

definition get_startMining :: "'j WebApp \<Rightarrow> (HttpResponse list \<times> 'j WebApp) result" where
  "get_startMining a =
     (if miningDone (wa_node a)
      then if wa_mineThread a then Err Terminate
           else Ok ([write_both 200 ''OK''], a\<lparr>wa_node := (wa_node a)\<lparr>miningDone := False\<rparr>, wa_mineThread := True\<rparr>)
      else Ok ([bad_request], a))"

text \<open>
  \<^verbatim>\<open>join\<close> of the mining thread. The thread may be in a search, whose block it then requeues or adds, and the other threads go on
  meanwhile: \<open>ends s\<close> is what has become of a node \<open>s\<close> when the mining thread has returned, or \<open>None\<close> when it
  never does (theorem \<open>lost_abort\<close> of \<open>Ash_System\<close>), and then \<^verbatim>\<open>join\<close> does not return either. Without a thread there is nothing to wait for.
\<close>

definition join_mining :: "(MinerApp \<Rightarrow> MinerApp option) \<Rightarrow> 'j WebApp \<Rightarrow> 'j WebApp option" where
  "join_mining ends a =
     (if wa_mineThread a then map_option (\<lambda>s. a\<lparr>wa_node := s, wa_mineThread := False\<rparr>) (ends (wa_node a)) else Some a)"

definition get_stopMining :: "(MinerApp \<Rightarrow> MinerApp option) \<Rightarrow> 'j WebApp \<Rightarrow> (HttpResponse list \<times> 'j WebApp) option" where
  "get_stopMining ends a =
     (if \<not> miningDone (wa_node a)
      then map_option (\<lambda>a. ([write_both 200 ''OK''], a)) (join_mining ends (a\<lparr>wa_node := stopMining (wa_node a)\<rparr>))
      else Some ([bad_request], a))"

definition get_shutdown :: "'j WebApp \<Rightarrow> HttpResponse list \<times> 'j WebApp" where
  "get_shutdown a = ([write_both 200 ''OK''], a\<lparr>wa_node := signalExit (wa_node a)\<rparr>)"

subsection \<open>Numbers in paths\<close>

lemma takeWhile_digits: "digits s \<Longrightarrow> takeWhile isdigit s = s"
  by (simp add: digits_def takeWhile_eq_all_conv list_all_iff)

lemma from_chars_show_nat:
  "from_chars_u64 (show_nat n) = (if n < 2 ^ 64 then FC_ok (of_nat n) else FC_out_of_range)"
  by (simp add: from_chars_u64_def takeWhile_digits digits_value_show_nat)

lemma read_index_show_nat: "read_index (show_nat n) = Some (if n < 2 ^ 64 then of_nat n else 0)"
  by (simp add: read_index_def from_chars_show_nat)

lemma rmap_chain_at:
  assumes "length (blocks c) < 2 ^ 64"
  shows "rmap (\<lambda>idx. chain_at c (of_nat idx)) [k ..< length (blocks c)] = Ok (drop k (blocks c))"
proof -
  have "chain_at c (of_nat i) = Ok (blocks c ! i)" if "i \<in> set [k ..< length (blocks c)]" for i
    using that assms unat_of_nat64 [of i] by (simp add: chain_at_def vec_at_def)
  then have "rmap (\<lambda>idx. chain_at c (of_nat idx)) [k ..< length (blocks c)] = Ok (map (\<lambda>i. blocks c ! i) [k ..< length (blocks c)])"
    by (rule rmap_all_Ok)
  moreover have "map (\<lambda>i. blocks c ! i) [k ..< length (blocks c)] = drop k (blocks c)"
    by (rule nth_equalityI) auto
  ultimately show ?thesis by simp
qed

subsection \<open>Main results\<close>

text \<open>
  C29: the request for the last blocks answers with the last blocks. For every number \<open>n\<close> in the path, the handler that
  computes a start index with 64-bit arithmetic and loops to the end of the chain writes the
  JSON of the last \<open>n\<close> blocks of the chain in order, of all blocks when there are fewer, and the
  JSON value null when \<open>n\<close> is 0 or does not fit 64 bits.
\<close>

theorem blocks_last_equiv:
  assumes "length (blocks (blockchain (wa_node a))) < 2 ^ 64" and "match_str rq 1 = show_nat n"
  shows "get_blocks_last J rq a =
    (let bs = blocks (blockchain (wa_node a)); last_n = (if n < 2 ^ 64 then drop (length bs - n) bs else [])
     in Ok [write_text (j_dump J (if last_n = [] then j_null J
          else set_all J [(''blocks'', push_all J (Block_to_json J) last_n)]))])"
proof -
  let ?c = "blockchain (wa_node a)" and ?n = "if n < 2 ^ 64 then of_nat n else 0 :: u64"
  have size: "unat (chain_size ?c) = length (blocks ?c)" using assms(1) by (simp add: chain_size_def unat_vec_size)
  have n: "unat ?n = (if n < 2 ^ 64 then n else 0)" using unat_of_nat64 [of n] by simp
  have "unat (if chain_size ?c \<le> ?n then 0 else chain_size ?c - ?n) = length (blocks ?c) - unat ?n"
    using size by (simp add: word_le_nat_alt unat_sub)
  then have "rmap (\<lambda>idx. chain_at ?c (of_nat idx))
      [unat (if chain_size ?c \<le> ?n then 0 else chain_size ?c - ?n) ..< unat (chain_size ?c)]
      = Ok (drop (length (blocks ?c) - unat ?n) (blocks ?c))"
    using rmap_chain_at [OF assms(1)] size by simp
  moreover have "drop (length (blocks ?c) - unat ?n) (blocks ?c)
      = (if n < 2 ^ 64 then drop (length (blocks ?c) - n) (blocks ?c) else [])" unfolding n by simp
  ultimately show ?thesis
    unfolding get_blocks_last_def Let_def assms(2) read_index_show_nat option.case by simp
qed

definition sample_request :: "string \<Rightarrow> HttpRequest" where
  "sample_request s = \<lparr>rq_path = ''/'' , rq_match = [[], s], rq_query = Map.empty, rq_content = s\<rparr>"

definition sample_web :: "MinerApp \<Rightarrow> jval WebApp" where
  "sample_web node = \<lparr>wa_node = node, wa_mineThread = False, wa_settings = sample_conf\<rparr>"

theorem blocks_last_equiv_witness:
  "get_blocks_last jval_lib (sample_request (show_nat 1)) (sample_web sample_node)
    = Ok [write_text (j_dump jval_lib (set_all jval_lib [(''blocks'', push_all jval_lib (Block_to_json jval_lib) [sample_block 1 1 9 []])]))]"
  using blocks_last_equiv [of "sample_web sample_node" "sample_request (show_nat 1)" 1 jval_lib]
  by (simp add: sample_web_def sample_request_def match_str_def)

text \<open>
  C24: the request for one block answers with its details or refuses. For a number below the
  size of a linked chain it writes the JSON of the block with its inputs filled in, for a number beyond the end
  it writes a bad request. A number that does not fit 64 bits is not refused: it is
  answered with the first block.
\<close>

theorem rest_block_correct:
  assumes ok: "chain_ok cp J (blockchain (wa_node a))" and "match_str rq 1 = show_nat n"
  defines "c \<equiv> blockchain (wa_node a)" and "sz \<equiv> length (blocks (blockchain (wa_node a)))"
  shows "(sz \<le> n \<and> n < 2 ^ 64 \<longrightarrow> get_rest_block J rq a = Ok [write_status 400])
    \<and> (\<forall>b. n < sz \<and> GetBlockDetails c (of_nat n) = Ok b \<longrightarrow>
         get_rest_block J rq a = Ok [write_text (j_dump_indent J (GetIndent (rq_query rq)) (Block_to_json J b))])
    \<and> (\<forall>b. 2 ^ 64 \<le> n \<and> GetBlockDetails c 0 = Ok b \<longrightarrow>
         get_rest_block J rq a = Ok [write_text (j_dump_indent J (GetIndent (rq_query rq)) (Block_to_json J b))])"
proof -
  have len: "sz < 2 ^ 32" "0 < sz" using ok by (simp_all add: chain_ok_def sz_def)
  then have chain: "unat (chain_size c) = sz" by (simp add: chain_size_def unat_vec_size c_def sz_def)
  have details: "index b = of_nat i" if "i < sz" "GetBlockDetails c (of_nat i) = Ok b" for i b
  proof -
    have "unat (of_nat i :: u64) = i" using that(1) len by (intro unat_of_nat64) simp
    moreover from that(2) obtain b' where "chain_at c (of_nat i) = Ok b'" "index b = index b'"
      by (auto simp: GetBlockDetails_def rbind_Ok_iff setTransactions_def)
    ultimately show ?thesis
      using chain_ok_index [OF ok, of i] that(1) by (simp add: chain_at_def vec_at_Ok_iff c_def sz_def)
  qed
  have hit: "get_rest_block J rq a = Ok [write_text (j_dump_indent J (GetIndent (rq_query rq)) (Block_to_json J b))]"
    if i: "read_index (show_nat n) = Some (of_nat i)" "i < sz" "GetBlockDetails c (of_nat i) = Ok b" for i b
  proof -
    have "\<not> chain_size c \<le> of_nat i"
      using i(2) len unat_of_nat64 [of i] by (simp add: word_le_nat_alt chain)
    then show ?thesis
      using i details [OF i(2,3)] unfolding get_rest_block_def assms(2) by (simp add: Let_def c_def)
  qed
  have miss: "get_rest_block J rq a = Ok [write_status 400]" if "sz \<le> n" "n < 2 ^ 64"
  proof -
    have "chain_size c \<le> of_nat n" using that unat_of_nat64 [of n] by (simp add: word_le_nat_alt chain)
    then show ?thesis using that unfolding get_rest_block_def assms(2) by (simp add: read_index_show_nat c_def)
  qed
  show ?thesis using hit [of n] hit [of 0] miss len by (auto simp: read_index_show_nat)
qed

text \<open>A JSON library with indented output.\<close>

definition jval_rest :: "(string \<rightharpoonup> jval) \<Rightarrow> jval json_rest" where
  "jval_rest p =
     \<lparr>j_null = JNull, j_type = jval_type, j_of_u64 = JUInt, j_of_i32 = JInt, j_of_bool = JBool,
      j_of_double = JFloat, j_of_string = JStr, j_set = jval_set, j_contains = jval_contains,
      j_at = jval_at, j_push = jval_push, j_items = jval_items, j_get_u64 = jval_get_u64,
      j_get_bool = jval_get_bool, j_get_double = jval_get_double, j_get_string = jval_get_string,
      j_dump = jval_dump, j_parse = p, j_entries = jval_entries, j_clear = jval_clear, j_pretty = jval_dump,
      j_dump_indent = (\<lambda>_. jval_dump)\<rparr>"

lemma json_library_rest: "json_library (jval_rest p)"
  by unfold_locales
    (auto simp: jval_rest_def map_of_alist_set jval_type_iff split: if_splits option.splits)

theorem rest_block_correct_witness:
  "get_rest_block (jval_rest Map.empty) (sample_request (show_nat 7)) (sample_web sample_node) = Ok [write_status 400]
   \<and> (\<exists>s. get_rest_block (jval_rest Map.empty) (sample_request (show_nat 1)) (sample_web sample_node) = Ok [write_text s])
   \<and> (\<exists>s. get_rest_block (jval_rest Map.empty) (sample_request (show_nat (2 ^ 64))) (sample_web sample_node) = Ok [write_text s])"
proof -
  have ok: "chain_ok sample_cp (jval_rest Map.empty) (blockchain (wa_node (sample_web sample_node)))"
    using sample_node_ok by (simp add: sample_web_def)
  have m: "match_str (sample_request (show_nat n)) 1 = show_nat n" for n by (simp add: match_str_def sample_request_def)
  have d: "GetBlockDetails (blockchain sample_node) 1 = Ok (sample_block 1 1 9 [])"
    "GetBlockDetails (blockchain sample_node) 0 = Ok (sample_block 0 1 5 [])"
    by (simp_all add: GetBlockDetails_def chain_at_def vec_at_def setTransactions_def sample_block_def)
  show ?thesis
    using rest_block_correct [OF ok m, of 7] rest_block_correct [OF ok m, of 1] rest_block_correct [OF ok m, of "2 ^ 64"] d
    by (auto simp: sample_web_def)
qed

context json_library
begin

lemma ProblemDetail_json: "ProblemDetail_from_json J (ProblemDetail_to_json J pd) = Ok pd"
  by (simp add: ProblemDetail_from_json_def ProblemDetail_to_json_def at_get_def at_set_all ucast_ucast_u32)

end

text \<open>
  C23: a payment request is carried out or refused as a whole. For a request with an address, a key
  and an amount, when the payment can be created the answer is 201, the new transaction stands
  at the end of the queue, and the next block that is built ends with it; when the funds do
  not suffice or there are none, the answer is 500 with a problem description that reads back, and the
  state is unchanged. When sender and receiver are the same, the conversion of the result to a name
  throws instead.
\<close>

theorem createtx_correct:
  assumes lib: "json_library J"
    and body: "j_parse J (rq_content rq) = Some (set_all J [(''toaddress'', j_of_string J receiver),
      (''privatekey'', j_of_string J key), (''amount'', jamount)])"
      "j_is_number J jamount" "j_get_double J jamount = Ok amt"
    and tx: "CreateTransaction cp H (b_iequals B) (blockchain (wa_node a)) key receiver amt = Ok (r, newtx)"
    and ne: "blocks (blockchain (wa_node a)) \<noteq> []"
  shows "case r of
      SUCCESS \<Rightarrow> (\<exists>a'. post_createtx cp H B J rq a = Ok ([write_status 201], a')
        \<and> txQueue (blockchain (wa_node a')) = txQueue (blockchain (wa_node a)) @ [newtx]
        \<and> blocks (blockchain (wa_node a')) = blocks (blockchain (wa_node a)) \<and> database (wa_node a') = database (wa_node a)
        \<and> (\<exists>b c. createUnminedBlock cp J now addr (blockchain (wa_node a')) = Ok (b, c)
             \<and> last (transactions b) = calcuateId cp (index b) newtx))
    | NOOP_TRANSACTION \<Rightarrow> post_createtx cp H B J rq a = Err (RuntimeError ''unknown TxResult'')
    | _ \<Rightarrow> (\<exists>pd. post_createtx cp H B J rq a = Ok ([write_both 500 (j_dump J (ProblemDetail_to_json J pd))], a)
        \<and> problem_status pd = 500 \<and> problem_instance pd = rq_path rq
        \<and> TxResult_ToString r = Ok (problem_title pd)
        \<and> ProblemDetail_from_json J (ProblemDetail_to_json J pd) = Ok pd)"
proof -
  have post: "post_createtx cp H B J rq a =
      (if r = SUCCESS
       then Ok ([write_status 201], a\<lparr>wa_node := (wa_node a)\<lparr>blockchain := queueTransaction newtx (blockchain (wa_node a))\<rparr>\<rparr>)
       else rbind (TxResult_ToString r) (\<lambda>name.
              let details = \<lparr>problem_type = ''/createx/'' @ name, problem_title = name, problem_status = 500,
                             problem_detail = [], problem_instance = rq_path rq\<rparr>
              in Ok ([write_both 500 (j_dump J (ProblemDetail_to_json J details))], a)))"
    by (simp add: post_createtx_def body json_library.contains_set_all [OF lib] json_library.at_set_all [OF lib]
        at_get_def json_library.get_string [OF lib] tx)
  show ?thesis
  proof (cases r)
    case SUCCESS
    have "blocks (queueTransaction newtx (blockchain (wa_node a))) \<noteq> []" using ne by (simp add: queueTransaction_def)
    from createUnminedBlock_eq [OF this, of cp J now addr]
    show ?thesis unfolding SUCCESS TxResult.case post by (simp add: queueTransaction_def new_Block_def Let_def)
  qed (auto simp: post Let_def json_library.ProblemDetail_json [OF lib])
qed

lemma sample_payment:
  "\<exists>t. CreateTransaction sample_cp sample_hashes (=) sample_chain ''key'' ''x'' (dbl_of_nat 30) = Ok (SUCCESS, t)"
proof -
  have "enough (dbl_of_nat 30) [sample_unspent] 1"
    by (simp add: enough_single sample_collected dbl_cmp_of_nat)
  then have "\<exists>n. enough (dbl_of_nat 30) [sample_unspent] n" by blast
  then show ?thesis
    using CreateTransaction_eq [OF sample_sender_def [symmetric] sample_unspent_eq, of "(=)" "''x''" "dbl_of_nat 30"]
    by (simp add: Let_def)
qed

theorem createtx_correct_witness:
  "\<exists>(J :: jval json_rest) B rq a a'. post_createtx sample_cp sample_hashes B J rq a = Ok ([write_status 201], a')
     \<and> length (txQueue (blockchain (wa_node a'))) = length (txQueue (blockchain (wa_node a))) + 1"
proof -
  let ?J = "jval_rest (\<lambda>_. Some (JObj [(''toaddress'', JStr ''x''), (''privatekey'', JStr ''key''), (''amount'', JFloat (dbl_of_nat 30))]))"
  let ?B = "boost_std\<lparr>b_iequals := (=)\<rparr>" and ?a = "sample_web (sample_node\<lparr>blockchain := sample_chain\<rparr>)"
  obtain t where t: "CreateTransaction sample_cp sample_hashes (b_iequals ?B) (blockchain (wa_node ?a)) ''key'' ''x'' (dbl_of_nat 30) = Ok (SUCCESS, t)"
    using sample_payment by (auto simp: sample_web_def)
  have body: "j_parse ?J (rq_content (sample_request [])) = Some (set_all ?J [(''toaddress'', j_of_string ?J ''x''),
      (''privatekey'', j_of_string ?J ''key''), (''amount'', JFloat (dbl_of_nat 30))])"
    "j_is_number ?J (JFloat (dbl_of_nat 30))" "j_get_double ?J (JFloat (dbl_of_nat 30)) = Ok (dbl_of_nat 30)"
    by (simp_all add: jval_rest_def set_all_def j_is_number_def)
  have "blocks (blockchain (wa_node ?a)) \<noteq> []" by (simp add: sample_web_def sample_chain_simps)
  from createtx_correct [OF json_library_rest body t this] obtain a' where
    "post_createtx sample_cp sample_hashes ?B ?J (sample_request []) ?a = Ok ([write_status 201], a')"
    "txQueue (blockchain (wa_node a')) = txQueue (blockchain (wa_node ?a)) @ [t]" by auto
  then show ?thesis
    by (intro exI [of _ ?J] exI [of _ ?B] exI [of _ "sample_request []"] exI [of _ ?a] exI [of _ a']) simp
qed

text \<open>
  A found transaction is answered twice: the handler writes the transaction and then, in
  any case, a not-found response.
\<close>

theorem get_tx_always_not_found:
  assumes "get_tx J rq a = Ok out"
  shows "last out = write_status 404
    \<and> length out = (if FindTransaction (blockchain (wa_node a)) (match_str rq 1) = None then 1 else 2)"
  using assms by (auto simp: get_tx_def rbind_Ok_iff Let_def split: option.splits)

subsection \<open>The text of a page\<close>

text \<open>What a dictionary gives for a key.\<close>

definition dict_value :: "Dictionary \<Rightarrow> string \<Rightarrow> string" where
  "dict_value d k = (case map_of d k of Some v \<Rightarrow> v | None \<Rightarrow> k)"

text \<open>A dictionary as the pages use it: in order, with keys as names and loose values.\<close>

definition page_dict :: "Dictionary \<Rightarrow> bool" where
  "page_dict d \<longleftrightarrow> smap_ok d \<and> (\<forall>(k, v) \<in> set d. is_key k \<and> loose v)"

lemma page_dict_set: "page_dict d \<Longrightarrow> is_key k \<Longrightarrow> loose v \<Longrightarrow> page_dict (smap_set k v d)"
proof -
  have "set (smap_set k v d) \<subseteq> insert (k, v) (set d)" by (induction d rule: smap_set.induct) auto
  then show "page_dict d \<Longrightarrow> is_key k \<Longrightarrow> loose v \<Longrightarrow> page_dict (smap_set k v d)" by (auto simp: page_dict_def)
qed

lemma page_dict_value: "page_dict d \<Longrightarrow> k \<in> fst ` set d \<Longrightarrow> loose (dict_value d k)"
  by (auto simp: page_dict_def dict_value_def split: option.split dest: map_of_SomeD simp: map_of_eq_None_iff)

lemma DoDictionary_page:
  "boost_library B \<Longrightarrow> template_ok segs \<Longrightarrow> page_dict d \<Longrightarrow> DoDictionary B (render (\<lambda>k. k) segs) d = render (dict_value d) segs"
  using DoDictionary_render [of B segs d] by (simp add: page_dict_def dict_value_def [abs_def])

lemma page_dict_app:
  assumes "page_dict d" and "loose (pg_build pg)"
  shows "page_dict (app_entries pg d)"
proof -
  have keys: "is_key ''%app-title%''" "is_key ''%app-domain%''" "is_key ''%app-github%''" "is_key ''%app-copyright%''" "is_key ''%build-date%''"
    "is_key ''%build-version%''" by (simp_all add: is_key_def name_char_def isdigit_def less_eq_char_def)
  have vals: "loose APP_NAME_LONG" "loose APP_DOMAIN" "loose GITHUB_PAGE" "loose COPYRIGHT" "loose VERSION"
    by (simp_all add: APP_NAME_LONG_def APP_DOMAIN_def GITHUB_PAGE_def COPYRIGHT_def VERSION_def)
  show ?thesis using assms keys vals by (simp add: app_entries_def page_dict_set)
qed

text \<open>
  C30: a page is its template with every key replaced at once. Let the header, the footer and the page be texts of well-formed
  templates, as those of the program are, the header with no keys but those of the request and of the application, the footer with
  these and the one for the header. Then \<open>servePage\<close> answers with the template of the page in which every key of the request or the
  application has its value, the key for the header the header with its keys replaced, the key for the footer likewise, and everything else is
  unchanged. Percent signs of style attributes in all three do no harm, although the texts of header and footer are
  values of the dictionary that the page is filled in with.
\<close>

theorem servePage_fills:
  assumes B: "boost_library B" and folder: "value_string J ''database.folder'' [] S = Ok folder" "folder \<noteq> []"
    and texts: "GetRawHtmlContent pg folder ''header.html'' (pg_builtin pg ''header.html'') = render (\<lambda>k. k) hs"
      "GetRawHtmlContent pg folder ''footer.html'' (pg_builtin pg ''footer.html'') = render (\<lambda>k. k) fs"
      "GetRawHtmlContent pg folder name (pg_builtin pg name) = render (\<lambda>k. k) ps"
    and ok: "template_ok hs" "template_ok fs" "template_ok ps" "page_dict dict" "loose (pg_build pg)"
    and keys: "set (keys_of hs) \<subseteq> fst ` set (app_entries pg dict)"
      "set (keys_of fs) \<subseteq> insert ''%header_html%'' (fst ` set (app_entries pg dict))"
  shows "let value = dict_value (app_entries pg dict);
             header = render value hs; value = value(''%header_html%'' := header);
             footer = render value fs; value = value(''%footer_html%'' := footer)
         in servePage B J pg S name dict = Ok [write_text (render value ps)]"
proof -
  define d where "d = app_entries pg dict"
  have d: "page_dict d" unfolding d_def using ok(4,5) by (rule page_dict_app)
  define hdr where "hdr = render (dict_value d) hs"
  define d1 where "d1 = smap_set ''%header_html%'' hdr d"
  have "loose hdr" unfolding hdr_def using keys(1) by (intro loose_render ok) (auto simp: d_def [symmetric] intro!: page_dict_value [OF d])
  then have d1: "page_dict d1" unfolding d1_def by (intro page_dict_set d) (simp_all add: is_key_def name_char_def isdigit_def less_eq_char_def)
  have v1: "dict_value d1 = (dict_value d)(''%header_html%'' := hdr)"
    using d by (auto simp: fun_eq_iff dict_value_def d1_def page_dict_def)
  define ft where "ft = render (dict_value d1) fs"
  define d2 where "d2 = smap_set ''%footer_html%'' ft d1"
  have "loose ft" unfolding ft_def using keys(2) by (intro loose_render ok) (auto simp: d1_def d_def [symmetric] intro!: page_dict_value [OF d1, unfolded d1_def])
  then have d2: "page_dict d2" unfolding d2_def by (intro page_dict_set d1) (simp_all add: is_key_def name_char_def isdigit_def less_eq_char_def)
  have v2: "dict_value d2 = (dict_value d1)(''%footer_html%'' := ft)"
    using d1 by (auto simp: fun_eq_iff dict_value_def d2_def page_dict_def)
  have "servePage B J pg S name dict = Ok [write_text (render (dict_value d2) ps)]"
    using folder texts DoDictionary_page [OF B ok(1) d] DoDictionary_page [OF B ok(2) d1] DoDictionary_page [OF B ok(3) d2]
    by (simp add: servePage_def d_def [symmetric] hdr_def [symmetric] d1_def [symmetric] ft_def [symmetric] d2_def [symmetric])
  then show ?thesis by (simp add: v2 v1 ft_def hdr_def d_def Let_def)
qed

definition sample_header :: "segment list" where
  "sample_header = [Literal ''<h2>'', Key ''%app-title%'', Literal '' ('', Key ''%app-domain%'', Literal '')</h2><td style=width:1%;></td>'']"

definition sample_footer :: "segment list" where
  "sample_footer = [Literal ''<small>'', Key ''%app-github%'', Literal ''</small>'']"

definition sample_page :: "segment list" where
  "sample_page = [Key ''%header_html%'', Literal ''<th colspan=100%>Address '', Key ''%address%'', Literal ''</th>'', Key ''%footer_html%'']"

definition sample_pages :: page_env where
  "sample_pages = \<lparr>pg_builtin = (\<lambda>f. if f = ''header.html'' then render (\<lambda>k. k) sample_header
       else if f = ''footer.html'' then render (\<lambda>k. k) sample_footer else render (\<lambda>k. k) sample_page),
     pg_override = (\<lambda>_ _. None), pg_build = ''May  1 2020''\<rparr>"

theorem servePage_fills_witness:
  "servePage boost_std (jval_conf Map.empty) sample_pages (registered (jval_conf Map.empty) ''/db'' ''/peers'') ''address.html'' [(''%address%'', ''1x'')]
    = Ok [write_text (''<h2>AshCoin (AC)</h2><td style=width:1%;></td><th colspan=100%>Address 1x</th>''
        @ ''<small>https://github.com/zethon/ash</small>'')]"
proof -
  let ?J = "jval_conf Map.empty" and ?d = "[(''%address%'', ''1x'')]"
  have "conf_libraries ?J boost_std" using json_conf_library_jval boost_std.boost_library_axioms by (rule conf_libraries.intro)
  then have folder: "value_string ?J ''database.folder'' [] (registered ?J ''/db'' ''/peers'') = Ok ''/db''" "''/db'' \<noteq> []"
    by (simp_all add: conf_libraries.registered_values)
  have texts: "GetRawHtmlContent sample_pages ''/db'' ''header.html'' (pg_builtin sample_pages ''header.html'') = render (\<lambda>k. k) sample_header"
    "GetRawHtmlContent sample_pages ''/db'' ''footer.html'' (pg_builtin sample_pages ''footer.html'') = render (\<lambda>k. k) sample_footer"
    "GetRawHtmlContent sample_pages ''/db'' ''address.html'' (pg_builtin sample_pages ''address.html'') = render (\<lambda>k. k) sample_page"
    by (simp_all add: GetRawHtmlContent_def sample_pages_def)
  have ok: "template_ok sample_header" "template_ok sample_footer" "template_ok sample_page" "page_dict ?d" "loose (pg_build sample_pages)"
    by (simp_all add: sample_header_def sample_footer_def sample_page_def page_dict_def sample_pages_def is_key_def name_char_def isdigit_def
        after_key_def less_eq_char_def)
  have dict: "app_entries sample_pages ?d = [(''%address%'', ''1x''), (''%app-copyright%'', COPYRIGHT), (''%app-domain%'', APP_DOMAIN),
      (''%app-github%'', GITHUB_PAGE), (''%app-title%'', APP_NAME_LONG), (''%build-date%'', ''May  1 2020''), (''%build-version%'', VERSION)]"
    by (simp add: app_entries_def sample_pages_def less_eq_char_def less_char_def)
  have keys: "set (keys_of sample_header) \<subseteq> fst ` set (app_entries sample_pages ?d)"
    "set (keys_of sample_footer) \<subseteq> insert ''%header_html%'' (fst ` set (app_entries sample_pages ?d))"
    by (simp_all add: dict sample_header_def sample_footer_def)
  from servePage_fills [OF boost_std.boost_library_axioms folder texts ok keys] show ?thesis
    by (simp add: dict_value_def dict sample_header_def sample_footer_def sample_page_def APP_NAME_LONG_def APP_DOMAIN_def GITHUB_PAGE_def)
qed

text \<open>
  A request to start the miner can end the program. After a shutdown request while the thread was running, and after the thread has stopped
  by itself because a block could not be added, the thread object that a start request overwrites was not joined.
\<close>

theorem start_terminates:
  assumes "wa_mineThread a"
  shows "get_startMining (snd (get_shutdown a)) = Err Terminate"
    and "get_startMining (a\<lparr>wa_node := (wa_node a)\<lparr>miningDone := True\<rparr>\<rparr>) = Err Terminate"
  using assms by (simp_all add: get_shutdown_def get_startMining_def signalExit_def stopMining_def)

text \<open>
  A number in the configuration file can stop the program. A number for the folder of the database passes the check that
  the setting is not empty and is stored as a number; the reader for texts then returns its fallback,
  the empty text, and the assertion in every page handler fails.
\<close>

theorem numeric_folder_aborts:
  assumes "json_conf_library J" and "boost_library B" and "getDataFolder os = Ok folder"
    and "j_parse J txt = Some conf" and "j_entries J conf = [(''database.folder'', j_of_u64 J n)]"
  shows "\<exists>S. initSettings B J os (Some txt) = Ok (S, txt)
    \<and> (\<forall>filename dict. servePage B J pg S filename dict = Err AssertFailed)"
proof -
  have lib: "conf_libraries J B" using assms(1,2) by (rule conf_libraries.intro)
  have jlib: "json_library J" using assms(1) by (rule json_conf_library.axioms)
  obtain S where S: "registerSettings B J os = Ok S" "conf_inv B J S"
    "jtype_at J (conf_settings S) ''database.folder'' = Some JT_string"
    "conf_validators S ''database.folder'' = Some NotEmptyValidator"
    using conf_libraries.registerSettings_valid [OF lib assms(3)] by fastforce
  have obj: "j_type J (conf_settings S) \<in> {JT_null, JT_object}" using S(2) by (simp add: conf_inv_def well_typed_def)
  have "conf_exists J ''database.folder'' S" using S(3) by (auto simp: jtype_at_def conf_exists_def split: if_splits)
  then have "load_item B J (''database.folder'', j_of_u64 J n) (S, 0) = Ok (put_setting J ''database.folder'' (j_of_u64 J n) S, 1)"
    using S(4) by (simp add: load_item_def json_to_string_def json_library.type_u64 [OF jlib] json_conf_library.dump_u64 [OF assms(1)])
  then have "initSettings B J os (Some txt) = Ok (put_setting J ''database.folder'' (j_of_u64 J n) S, txt)"
    by (simp add: initSettings_def S(1) conf_load_def assms(4,5))
  moreover have "value_string J ''database.folder'' [] (put_setting J ''database.folder'' (j_of_u64 J n) S) = Ok []"
    by (simp add: value_string_def json_conf_library.conf_value_put [OF assms(1) obj] json_library.type_u64 [OF jlib])
  ultimately show ?thesis by (simp add: servePage_def Let_def)
qed

theorem numeric_folder_aborts_witness:
  "\<exists>(J :: jval json_conf) S. initSettings boost_std J sample_os (Some ''f'') = Ok (S, ''f'')
    \<and> servePage boost_std J \<lparr>pg_builtin = (\<lambda>_. []), pg_override = (\<lambda>_ _. None), pg_build = []\<rparr> S ''index.html'' [] = Err AssertFailed"
proof -
  let ?J = "jval_conf (\<lambda>_. Some (JObj [(''database.folder'', JUInt 5)]))"
  have "j_parse ?J ''f'' = Some (JObj [(''database.folder'', JUInt 5)])"
    "j_entries ?J (JObj [(''database.folder'', JUInt 5)]) = [(''database.folder'', j_of_u64 ?J 5)]"
    "getDataFolder sample_os = Ok ''/home/a''" by (simp_all add: getDataFolder_def sample_os_def)
  from numeric_folder_aborts [OF json_conf_library_jval boost_std.boost_library_axioms this(3,1,2)]
  show ?thesis by blast
qed

end
