(* ===== verification/Ash_Computer.thy ===== *)
theory Ash_Computer
  imports Ash_Crypto
begin

section \<open>Computer id\<close>

text \<open>
  \<^verbatim>\<open>src/src/ComputerID.h\<close> and its three implementations: the id of a node is the hash of what is
  known about the machine and of the folder of its database. What the operating system answers is
  a parameter (record \<open>machine\<close>).

  On a Mac the addresses of the network interfaces are read in a loop that goes to the next
  interface only after all calls for the current one have succeeded; the loop is a partial
  function. It returns if every interface with an address keeps answering, and never when one keeps failing.
\<close>

subsection \<open>State\<close>

record ComputerID =
  uniquePerProcess :: bool
  customData :: string

definition new_ComputerID :: ComputerID where
  "new_ComputerID = \<lparr>uniquePerProcess = False, customData = []\<rparr>"

definition setCustomData :: "string \<Rightarrow> ComputerID \<Rightarrow> ComputerID" where
  "setCustomData v c = c\<lparr>customData := v\<rparr>"

definition setUniquePerProcess :: "bool \<Rightarrow> ComputerID \<Rightarrow> ComputerID" where
  "setUniquePerProcess v c = c\<lparr>uniquePerProcess := v\<rparr>"

text \<open>
  The answers to the calls one iteration of the loop makes for an interface: the first call that fails, or the
  type of the link and its first six bytes.
\<close>

datatype link_reply =
    NoIndex | NoSize | NoMemory | NoList
  | is_Link: Link (link_ether: bool) (link_bytes: "8 word list")

record interface =
  ifa_name :: string
  ifa_addr :: bool

text \<open>
  \<open>mc_ifaddrs\<close>: the list that \<^verbatim>\<open>getifaddrs\<close> fills in, or nothing when it fails. \<open>mc_link k name\<close>: the
  answers in iteration \<open>k\<close> of the loop. \<open>mc_sha1\<close>: the digest that Crypto++ computes.
\<close>

record machine =
  mc_host_name :: string
  mc_this :: string
  mc_ifaddrs :: "interface list option"
  mc_link :: "nat \<Rightarrow> string \<Rightarrow> link_reply"
  mc_sha1 :: "string \<Rightarrow> string"

definition SHA1 :: "cryptopp \<Rightarrow> machine \<Rightarrow> string \<Rightarrow> string" where
  "SHA1 cp m txt = cp_hex_encode cp (mc_sha1 m txt)"

subsection \<open>Addresses of network interfaces\<close>

text \<open>Output of an \<^verbatim>\<open>int\<close> below 256 after \<^verbatim>\<open>std::hex\<close>: no leading zeros.\<close>

definition hex_digit :: "nat \<Rightarrow> char" where
  "hex_digit n = ''0123456789abcdef'' ! n"

definition show_hex_byte :: "8 word \<Rightarrow> string" where
  "show_hex_byte b = (let n = unat b in if n < 16 then [hex_digit n] else [hex_digit (n div 16), hex_digit (n mod 16)])"

fun mac_text :: "8 word list \<Rightarrow> string" where
  "mac_text [] = []"
| "mac_text [b] = show_hex_byte b"
| "mac_text (b # bs) = show_hex_byte b @ '':'' @ mac_text bs"

partial_function (option) mac_loop ::
  "(nat \<Rightarrow> string \<Rightarrow> link_reply) \<Rightarrow> nat \<Rightarrow> interface list \<Rightarrow> string \<Rightarrow> string option" where
  "mac_loop link k ifaddr builder = (case ifaddr of
       [] \<Rightarrow> Some builder
     | i # rest \<Rightarrow>
         if \<not> ifa_addr i then mac_loop link (k + 1) rest builder
         else (case link k (ifa_name i) of
                 Link ether bytes \<Rightarrow> mac_loop link (k + 1) rest (if ether then builder @ mac_text (take 6 bytes) else builder)
               | _ \<Rightarrow> mac_loop link (k + 1) ifaddr builder))"

definition getMacString :: "machine \<Rightarrow> string result option" where
  "getMacString m = (case mc_ifaddrs m of
       None \<Rightarrow> Some (Err (RuntimeError ''call to getifaddrs failed''))
     | Some ifaddr \<Rightarrow> map_option Ok (mac_loop (mc_link m) 0 ifaddr []))"

subsection \<open>The id\<close>

definition uuid_tail :: "machine \<Rightarrow> ComputerID \<Rightarrow> string" where
  "uuid_tail m c = (if uniquePerProcess c then mc_this m else []) @ (if customData c \<noteq> [] then customData c else [])"

definition getUUID_Posix :: "cryptopp \<Rightarrow> machine \<Rightarrow> ComputerID \<Rightarrow> string" where
  "getUUID_Posix cp m c = SHA1 cp m (mc_host_name m @ uuid_tail m c)"

definition getUUID_Windows :: "cryptopp \<Rightarrow> machine \<Rightarrow> ComputerID \<Rightarrow> string" where
  "getUUID_Windows cp m c = SHA1 cp m (mc_host_name m @ uuid_tail m c)"

definition getUUID_Mac :: "cryptopp \<Rightarrow> machine \<Rightarrow> ComputerID \<Rightarrow> string result option" where
  "getUUID_Mac cp m c =
     map_option (\<lambda>r. rbind r (\<lambda>mac. Ok (SHA1 cp m (mc_host_name m @ mac @ uuid_tail m c)))) (getMacString m)"

subsection \<open>When the loop returns\<close>

lemma mac_loop_Nil: "mac_loop link k [] builder = Some builder"
  by (simp add: mac_loop.simps)

lemma mac_loop_Cons:
  "mac_loop link k (i # rest) builder =
     (if \<not> ifa_addr i then mac_loop link (k + 1) rest builder
      else if is_Link (link k (ifa_name i))
      then mac_loop link (k + 1) rest
        (if link_ether (link k (ifa_name i)) then builder @ mac_text (take 6 (link_bytes (link k (ifa_name i)))) else builder)
      else mac_loop link (k + 1) (i # rest) builder)"
  by (subst mac_loop.simps) (simp split: link_reply.split)

text \<open>The interface answers at some iteration from \<open>k\<close> on.\<close>

definition answers :: "(nat \<Rightarrow> string \<Rightarrow> link_reply) \<Rightarrow> nat \<Rightarrow> interface \<Rightarrow> bool" where
  "answers link k i \<longleftrightarrow> (\<exists>n \<ge> k. is_Link (link n (ifa_name i)))"

lemma answers_mono: "answers link (Suc k) i \<Longrightarrow> answers link k i"
  by (auto simp: answers_def dest: Suc_leD)

lemma mac_loop_pass:
  assumes "ifa_addr i" and "is_Link (link (k + d) (ifa_name i))"
  shows "\<exists>k' builder'. mac_loop link k (i # rest) builder = mac_loop link k' rest builder'"
  using assms(2)
proof (induction d arbitrary: k)
  case 0
  then show ?case by (subst mac_loop_Cons) (use assms(1) in auto)
next
  case (Suc d)
  from Suc.IH [of "Suc k"] Suc.prems show ?case by (subst mac_loop_Cons) (use assms(1) in auto)
qed

lemma mac_loop_returns:
  assumes "\<And>i k. i \<in> set ifaddr \<Longrightarrow> ifa_addr i \<Longrightarrow> answers link k i"
  shows "\<exists>txt. mac_loop link k ifaddr builder = Some txt"
  using assms
proof (induction ifaddr arbitrary: k builder)
  case Nil
  then show ?case by (simp add: mac_loop_Nil)
next
  case (Cons i rest)
  have rest: "\<exists>txt. mac_loop link k rest builder = Some txt" for k builder using Cons by simp
  show ?case
  proof (cases "ifa_addr i")
    case True
    then obtain d where "is_Link (link (k + d) (ifa_name i))"
      using Cons.prems [of i k] by (auto simp: answers_def le_iff_add)
    from mac_loop_pass [OF True, where link = link, OF this, of rest builder] rest show ?thesis by auto
  next
    case False
    then show ?thesis using rest by (simp add: mac_loop_Cons)
  qed
qed

lemma mac_loop_answered:
  assumes "mac_loop link k ifaddr builder = Some result"
  shows "\<forall>i \<in> set ifaddr. ifa_addr i \<longrightarrow> answers link k i"
proof (rule mac_loop.raw_induct [where P = "\<lambda>link k ifaddr builder result.
      \<forall>i \<in> set ifaddr. ifa_addr i \<longrightarrow> answers link k i", OF _ assms])
  fix loop link k ifaddr builder result
  assume IH: "\<And>link k ifaddr builder result. loop link k ifaddr builder = Some result \<Longrightarrow>
      \<forall>i \<in> set ifaddr. ifa_addr i \<longrightarrow> answers link k i"
    and eq: "(case ifaddr of [] \<Rightarrow> Some builder
       | i # rest \<Rightarrow> if \<not> ifa_addr i then loop link (k + 1) rest builder
           else (case link k (ifa_name i) of
              Link ether bytes \<Rightarrow> loop link (k + 1) rest (if ether then builder @ mac_text (take 6 bytes) else builder)
            | _ \<Rightarrow> loop link (k + 1) ifaddr builder)) = Some (result :: string)"
  have now: "is_Link (link k (ifa_name i)) \<Longrightarrow> answers link k i" for i by (auto simp: answers_def)
  show "\<forall>i \<in> set ifaddr. ifa_addr i \<longrightarrow> answers link k i"
  proof (cases ifaddr)
    case (Cons i rest)
    show ?thesis
    proof (cases "ifa_addr i \<and> \<not> is_Link (link k (ifa_name i))")
      case True
      then have "loop link (k + 1) ifaddr builder = Some result"
        using eq Cons by (cases "link k (ifa_name i)") auto
      then show ?thesis using IH [of link "k + 1" ifaddr] answers_mono by fastforce
    next
      case False
      then have "\<exists>b. loop link (k + 1) rest b = Some result"
        using eq Cons by (cases "link k (ifa_name i)") (auto split: if_splits)
      then show ?thesis using IH [of link "k + 1" rest] False now Cons answers_mono by fastforce
    qed
  qed simp
qed

text \<open>The text for machines whose answers do not change from call to call.\<close>

lemma mac_loop_stable:
  assumes "\<And>k n. link k n = link 0 n" and "\<forall>i \<in> set ifaddr. ifa_addr i \<longrightarrow> is_Link (link 0 (ifa_name i))"
  shows "mac_loop link k ifaddr builder = Some (builder @ concat
    [mac_text (take 6 (link_bytes (link 0 (ifa_name i)))). i \<leftarrow> ifaddr, ifa_addr i \<and> link_ether (link 0 (ifa_name i))])"
  using assms(2)
proof (induction ifaddr arbitrary: k builder)
  case Nil
  then show ?case by (simp add: mac_loop_Nil)
next
  case (Cons i rest)
  then show ?case using assms(1) [of k] by (subst mac_loop_Cons) auto
qed

text \<open>
  C40: the id on a Mac. When the list of interfaces can be read, the call returns if every
  interface that has an address answers all calls again and again, and it never
  returns when one of them keeps failing, since the loop then stays at this interface. When the
  answers do not change, one of the two is the case, and the id is the hash of the host name, the addresses of the
  Ethernet interfaces in the order of the list, and the folder.
\<close>

theorem getUUID_Mac_returns:
  assumes "mc_ifaddrs m = Some ifaddr"
  shows "((\<forall>i \<in> set ifaddr. ifa_addr i \<longrightarrow> (\<forall>k. \<exists>n \<ge> k. is_Link (mc_link m n (ifa_name i))))
        \<longrightarrow> (\<exists>uid. getUUID_Mac cp m c = Some (Ok uid)))
    \<and> ((\<exists>i \<in> set ifaddr. ifa_addr i \<and> (\<forall>n. \<not> is_Link (mc_link m n (ifa_name i)))) \<longrightarrow> getUUID_Mac cp m c = None)
    \<and> ((\<forall>k n. mc_link m k n = mc_link m 0 n) \<longrightarrow>
         getUUID_Mac cp m c =
           (if \<forall>i \<in> set ifaddr. ifa_addr i \<longrightarrow> is_Link (mc_link m 0 (ifa_name i))
            then Some (Ok (SHA1 cp m (mc_host_name m
              @ concat [mac_text (take 6 (link_bytes (mc_link m 0 (ifa_name i)))).
                  i \<leftarrow> ifaddr, ifa_addr i \<and> link_ether (mc_link m 0 (ifa_name i))]
              @ (if uniquePerProcess c then mc_this m else []) @ customData c)))
            else None))"
proof -
  have uid: "getUUID_Mac cp m c = map_option (\<lambda>mac. Ok (SHA1 cp m (mc_host_name m @ mac @ uuid_tail m c)))
      (mac_loop (mc_link m) 0 ifaddr [])"
    by (simp add: getUUID_Mac_def getMacString_def assms option.map_comp o_def)
  have never: "getUUID_Mac cp m c = None" if "i \<in> set ifaddr" "ifa_addr i" "\<forall>n. \<not> is_Link (mc_link m n (ifa_name i))" for i
    using mac_loop_answered [of "mc_link m" 0 ifaddr "[]"] that unfolding uid
    by (cases "mac_loop (mc_link m) 0 ifaddr []") (auto simp: answers_def)
  have "\<exists>uid. getUUID_Mac cp m c = Some (Ok uid)"
    if "\<forall>i \<in> set ifaddr. ifa_addr i \<longrightarrow> (\<forall>k. \<exists>n \<ge> k. is_Link (mc_link m n (ifa_name i)))"
    using mac_loop_returns [of ifaddr "mc_link m" 0 "[]"] that unfolding uid by (auto simp: answers_def)
  moreover have "getUUID_Mac cp m c =
           (if \<forall>i \<in> set ifaddr. ifa_addr i \<longrightarrow> is_Link (mc_link m 0 (ifa_name i))
            then Some (Ok (SHA1 cp m (mc_host_name m
              @ concat [mac_text (take 6 (link_bytes (mc_link m 0 (ifa_name i)))).
                  i \<leftarrow> ifaddr, ifa_addr i \<and> link_ether (mc_link m 0 (ifa_name i))]
              @ (if uniquePerProcess c then mc_this m else []) @ customData c)))
            else None)" if st: "\<forall>k n. mc_link m k n = mc_link m 0 n"
  proof (cases "\<forall>i \<in> set ifaddr. ifa_addr i \<longrightarrow> is_Link (mc_link m 0 (ifa_name i))")
    case True
    from st have "mc_link m k n = mc_link m 0 n" for k n by blast
    from mac_loop_stable [of "mc_link m", OF this True, of 0 "[]"] True show ?thesis unfolding uid by (simp add: uuid_tail_def)
  next
    case False
    then obtain i where i: "i \<in> set ifaddr" "ifa_addr i" "\<not> is_Link (mc_link m 0 (ifa_name i))" by blast
    from st i(3) have "\<forall>n. \<not> is_Link (mc_link m n (ifa_name i))" by metis
    from never [OF i(1,2) this] False show ?thesis by simp
  qed
  ultimately show ?thesis using never by blast
qed

definition sample_machine :: machine where
  "sample_machine = \<lparr>mc_host_name = ''mac'', mc_this = [],
     mc_ifaddrs = Some [\<lparr>ifa_name = ''en0'', ifa_addr = True\<rparr>, \<lparr>ifa_name = ''tun'', ifa_addr = False\<rparr>],
     mc_link = (\<lambda>_ name. if name = ''en0'' then Link True [10, 0, 255, 1, 2, 3] else NoIndex), mc_sha1 = id\<rparr>"

theorem getUUID_Mac_returns_witness:
  "getUUID_Mac sample_cp sample_machine (setCustomData ''/db'' new_ComputerID)
     = Some (Ok (SHA1 sample_cp sample_machine ''maca:0:ff:1:2:3/db''))
   \<and> getUUID_Mac sample_cp (sample_machine\<lparr>mc_ifaddrs := Some [\<lparr>ifa_name = ''tun'', ifa_addr = True\<rparr>]\<rparr>) new_ComputerID = None"
  using getUUID_Mac_returns [of sample_machine "the (mc_ifaddrs sample_machine)" sample_cp "setCustomData ''/db'' new_ComputerID"]
    getUUID_Mac_returns [of "sample_machine\<lparr>mc_ifaddrs := Some [\<lparr>ifa_name = ''tun'', ifa_addr = True\<rparr>]\<rparr>"
      "[\<lparr>ifa_name = ''tun'', ifa_addr = True\<rparr>]" sample_cp new_ComputerID]
  by (simp add: sample_machine_def new_ComputerID_def setCustomData_def show_hex_byte_def hex_digit_def)

end
