(* ===== verification/Ash_Main.thy ===== *)
theory Ash_Main
  imports Ash_Protocol Ash_Rest Ash_Computer
begin

section \<open>The program\<close>

text \<open>
  \<^verbatim>\<open>src/src/main.cpp\<close> and the parts of \<^verbatim>\<open>src/src/MinerApp.cpp\<close> that put the components together: the
  constructor and the destructor of \<^verbatim>\<open>MinerApp\<close>, the setup of the HTTP server, of the web sockets and of the
  peers, and \<^verbatim>\<open>run\<close>, from the command line to the running node.

  The disk is a function from paths to contents. A result can be missing: the identification of the
  machine and the joining of threads may not return.
\<close>

subsection \<open>Disk and environment\<close>

type_synonym disk = "string \<Rightarrow> string option"

text \<open>\<^verbatim>\<open>operator/\<close> of \<^verbatim>\<open>boost::filesystem::path\<close> for a relative second operand.\<close>

definition is_separator :: "os_env \<Rightarrow> char \<Rightarrow> bool" where
  "is_separator os c \<longleftrightarrow> c = CHR ''/'' \<or> os_platform os = Windows \<and> c = CHR 0x5C"

definition path_append :: "os_env \<Rightarrow> string \<Rightarrow> string \<Rightarrow> string" where
  "path_append os p q = (if p = [] \<or> is_separator os (last p) then p @ q else p @ [PATH_SEPERATOR os] @ q)"

definition generic_string :: "os_env \<Rightarrow> string \<Rightarrow> string" where
  "generic_string os p = map (\<lambda>c. if is_separator os c then CHR ''/'' else c) p"

text \<open>
  What the outside contributes to a start: the machine, the clock and the text made from it, the outcome of opening the
  index, the address the HTTP server is configured with and the conversion to the type of its port.
\<close>

record start_env =
  se_os :: os_env
  se_machine :: machine
  se_release :: bool
  se_now :: BlockTime
  se_gendata :: string
  se_index :: "string option"
  se_http_address :: string
  se_http_port :: "u32 \<Rightarrow> nat"

subsection \<open>The application object\<close>

record 'j AshApp =
  app_web :: "'j WebApp"
  app_peers :: PeerManager
  app_http_port :: "nat option"
  app_http_running :: bool
  app_browsed :: "string option"

text \<open>Sequencing of steps that can throw and that can fail to return.\<close>

definition obind :: "'a result option \<Rightarrow> ('a \<Rightarrow> 'b result option) \<Rightarrow> 'b result option" where
  "obind m f = (case m of None \<Rightarrow> None | Some (Inl e) \<Rightarrow> Some (Inl e) | Some (Inr x) \<Rightarrow> f x)"

lemma obind_simps [simp]:
  "obind None f = None" "obind (Some (Err e)) f = Some (Err e)" "obind (Some (Ok x)) f = f x"
  by (simp_all add: obind_def)

lemma obind_Ok_iff: "obind m f = Some (Ok y) \<longleftrightarrow> (\<exists>x. m = Some (Ok x) \<and> f x = Some (Ok y))"
  by (auto simp: obind_def split: option.splits sum.splits)

definition DatabaseFile :: string where "DatabaseFile = ''chain.ashdb''"

definition new_ChainDatabase :: "os_env \<Rightarrow> disk \<Rightarrow> string \<Rightarrow> ChainDatabase" where
  "new_ChainDatabase os files folder = \<lparr>dbfile = files (path_append os folder DatabaseFile)\<rparr>"

definition getUUID :: "cryptopp \<Rightarrow> os_env \<Rightarrow> machine \<Rightarrow> ComputerID \<Rightarrow> string result option" where
  "getUUID cp os m c = (case os_platform os of
       MacOS \<Rightarrow> getUUID_Mac cp m c
     | Windows \<Rightarrow> Some (Ok (getUUID_Windows cp m c))
     | _ \<Rightarrow> Some (Ok (getUUID_Posix cp m c)))"

definition new_MinerApp ::
  "cryptopp \<Rightarrow> ('j, 'b) json_lib_scheme \<Rightarrow> start_env \<Rightarrow> disk \<Rightarrow> 'j Settings \<Rightarrow> 'j AshApp result option" where
  "new_MinerApp cp J E files S =
     obind (Some (value_string J ''database.folder'' [] S)) (\<lambda>dbfolder.
     obind (getUUID cp (se_os E) (se_machine E) (setCustomData dbfolder new_ComputerID)) (\<lambda>uid.
       let node = \<lparr>uuid = uid, rewardAddress = [], database = new_ChainDatabase (se_os E) files dbfolder,
             blockchain = empty_Blockchain, tempchain = None, app_done = False, miningDone = False,
             app_miner = \<lparr>m_difficulty = 0\<rparr>\<rparr>
       in Some (Ok \<lparr>app_web = \<lparr>wa_node = node, wa_mineThread = False, wa_settings = S\<rparr>,
            app_peers = new_PeerManager (se_release E), app_http_port = None, app_http_running = False, app_browsed = None\<rparr>)))"

text \<open>
  The destructor waits for the mining thread, if there is one, whatever it is doing and as long as it takes; then the HTTP server is
  stopped and the members are destroyed.
\<close>

definition destroy_MinerApp :: "(MinerApp \<Rightarrow> MinerApp option) \<Rightarrow> 'j AshApp \<Rightarrow> 'j AshApp option" where
  "destroy_MinerApp ends a =
     Option.bind (join_mining ends (app_web a)) (\<lambda>w.
       map_option (\<lambda>ps. a\<lparr>app_web := w, app_http_running := False, app_peers := ps\<rparr>) (destroy_PeerManager (app_peers a)))"

definition initHttp :: "('j, 'b) json_lib_scheme \<Rightarrow> start_env \<Rightarrow> 'j AshApp \<Rightarrow> 'j AshApp result" where
  "initHttp J E a = rbind (value_u32 J ''rest.port'' HTTPServerPortDefault (wa_settings (app_web a))) (\<lambda>port.
     Ok (a\<lparr>app_http_port := Some (se_http_port E port)\<rparr>))"

definition initWebSocket :: "('j, 'b) json_lib_scheme \<Rightarrow> 'j AshApp \<Rightarrow> 'j AshApp result" where
  "initWebSocket J a = rbind (value_u32 J ''websocket.port'' WebSocketServerPorDefault (wa_settings (app_web a))) (\<lambda>port.
     Ok (a\<lparr>app_peers := initWebSocketServer port (app_peers a)\<rparr>))"

definition ask_summary :: "nat \<Rightarrow> sent" where
  "ask_summary conn = [(conn, summary_request)]"

definition initPeers ::
  "boost_lib \<Rightarrow> ('j, 'b) json_lib_scheme \<Rightarrow> start_env \<Rightarrow> disk \<Rightarrow> 'j AshApp \<Rightarrow> 'j AshApp result option" where
  "initPeers B J E files a =
     obind (Some (value_string J ''peers.file'' [] (wa_settings (app_web a)))) (\<lambda>peersfile.
       if peersfile = [] then Some (Ok a)
       else obind (Some (loadPeers B (files peersfile) (app_peers a))) (\<lambda>ps.
              map_option (\<lambda>ps. Ok (a\<lparr>app_peers := ps\<rparr>)) (connectAll (se_release E) ask_summary ps)))"

datatype 'j program_end = Printed string | Stopped "'j AshApp" | Running "'j AshApp"

text \<open>
  \<^verbatim>\<open>run\<close>: without an address for the rewards it returns at once (\<open>Stopped\<close>); otherwise everything is started
  and the function waits in its last loop (\<open>Running\<close>).
\<close>

definition start_threads :: "('j, 'b) json_lib_scheme \<Rightarrow> start_env \<Rightarrow> 'j AshApp \<Rightarrow> 'j AshApp result" where
  "start_threads J E a =
     (let a = a\<lparr>app_http_running := True\<rparr>; w = app_web a in
      rbind (value_bool J ''mining.autostart'' False (wa_settings w)) (\<lambda>autostart.
      let a = a\<lparr>app_web := (if autostart then w\<lparr>wa_mineThread := True\<rparr>
                           else w\<lparr>wa_node := (wa_node w)\<lparr>miningDone := True\<rparr>\<rparr>)\<rparr>
      in rbind (value_bool J ''rest.autoload'' False (wa_settings w)) (\<lambda>autoload.
         if \<not> autoload then Ok a
         else let address = (if se_http_address E = [] then ''localhost'' else se_http_address E);
                  localUrl = ''http://'' @ address @ '':'' @ show_nat (the (app_http_port a))
              in rbind (openBrowser (se_os E) localUrl) (\<lambda>opened. Ok (a\<lparr>app_browsed := opened\<rparr>)))))"

definition run ::
  "cryptopp \<Rightarrow> boost_lib \<Rightarrow> ('j, 'b) json_lib_scheme \<Rightarrow> start_env \<Rightarrow> disk \<Rightarrow> 'j AshApp \<Rightarrow> 'j program_end result option" where
  "run cp B J E files a =
     obind (Some (value_string J ''mining.miner.address'' [] (wa_settings (app_web a)))) (\<lambda>address.
     let a = a\<lparr>app_web := (app_web a)\<lparr>wa_node := (wa_node (app_web a))\<lparr>rewardAddress := address\<rparr>\<rparr>\<rparr> in
     if address = [] \<or> address = ''<CHANGE ME>'' then Some (Ok (Stopped a))
     else obind (Some (rbind (initHttp J E a) (initWebSocket J))) (\<lambda>a.
          obind (initPeers B J E files a) (\<lambda>a.
          let s = wa_node (app_web a) in
          obind (Some (db_initialize cp J (genesisBlock cp J (se_now E) (se_gendata E) s) (se_index E) (blockchain s) (database s))) (\<lambda>(c, db).
          obind (Some (start_threads J E (a\<lparr>app_web := (app_web a)\<lparr>wa_node := s\<lparr>blockchain := c, database := db\<rparr>\<rparr>\<rparr>))) (\<lambda>a.
            Some (Ok (Running a)))))))"

subsection \<open>The entry point\<close>

text \<open>The level and the file of the logs.\<close>

definition initializeLogs :: "('j, 'b) json_lib_scheme \<Rightarrow> os_env \<Rightarrow> 'j Settings \<Rightarrow> (string \<times> string) result" where
  "initializeLogs J os S =
     rbind (value_string J ''logs.level'' ''info'' S) (\<lambda>levelstr.
     rbind (value_bool J ''logs.file.enabled'' False S) (\<lambda>enabled.
       if \<not> enabled then Ok (levelstr, [])
       else rbind (value_string J ''logs.file.folder'' [] S) (\<lambda>logfolder.
            Ok (levelstr, if logfolder \<noteq> [] then generic_string os (path_append os logfolder ''ash.log'') else []))))"

record options =
  opt_help :: bool
  opt_version :: bool
  opt_config :: "string option"
  opt_createwallet :: bool

text \<open>\<open>desc\<close>: the help text. \<open>exponent\<close> and \<open>validated\<close>: what the random generator delivers.\<close>

definition main_program ::
  "cryptopp \<Rightarrow> boost_lib \<Rightarrow> ('j, 'b) json_rest_scheme \<Rightarrow> start_env \<Rightarrow> string \<Rightarrow> nat \<Rightarrow> bool \<Rightarrow> options \<Rightarrow> disk
   \<Rightarrow> ('j program_end \<times> disk) result option" where
  "main_program cp B J E desc exponent validated vm files =
     (if opt_help vm then Some (Ok (Printed desc, files))
      else if opt_createwallet vm
      then let privateKey = GeneratePrivateKey cp exponent validated
           in Some (Ok (Printed (j_dump_indent J 4 (set_all J [(''private-key'', j_of_string J privateKey),
                (''public-key'', j_of_string J (GetPublicKey cp privateKey)),
                (''address'', j_of_string J (GetAddressFromPrivateKey cp privateKey))])), files))
      else obind (Some (getDefaultConfigFile (se_os E))) (\<lambda>configFile.
           let configFile = (case opt_config vm of Some f \<Rightarrow> f | None \<Rightarrow> configFile) in
           obind (Some (initSettings B J (se_os E) (files configFile))) (\<lambda>(settings, content).
           let files = files(configFile \<mapsto> content) in
           obind (Some (initializeLogs J (se_os E) settings)) (\<lambda>logs.
           obind (new_MinerApp cp J E files settings) (\<lambda>app.
           obind (run cp B J E files app) (\<lambda>fin. Some (Ok (fin, files))))))))"

subsection \<open>The parts of a start\<close>

definition setup_servers ::
  "boost_lib \<Rightarrow> ('j, 'b) json_lib_scheme \<Rightarrow> start_env \<Rightarrow> disk \<Rightarrow> 'j AshApp \<Rightarrow> 'j AshApp result option" where
  "setup_servers B J E files a = obind (Some (rbind (initHttp J E a) (initWebSocket J))) (initPeers B J E files)"

definition with_node :: "MinerApp \<Rightarrow> 'j AshApp \<Rightarrow> 'j AshApp" where
  "with_node s a = a\<lparr>app_web := (app_web a)\<lparr>wa_node := s\<rparr>\<rparr>"

lemma with_node_simps [simp]:
  "wa_node (app_web (with_node s a)) = s" "wa_settings (app_web (with_node s a)) = wa_settings (app_web a)"
  "wa_mineThread (app_web (with_node s a)) = wa_mineThread (app_web a)"
  "app_peers (with_node s a) = app_peers a" "app_http_port (with_node s a) = app_http_port a"
  "with_node s (with_node s' a) = with_node s a"
  by (simp_all add: with_node_def)

text \<open>Neither the servers nor the threads look at the node.\<close>

lemma setup_servers_node:
  assumes "setup_servers B J E files a = Some (Ok a1)"
  shows "setup_servers B J E files (with_node s a) = Some (Ok (with_node s a1)) \<and> app_web a1 = app_web a"
proof -
  let ?S = "wa_settings (app_web a)"
  obtain port wsport peersfile where v: "value_u32 J ''rest.port'' HTTPServerPortDefault ?S = Ok port"
    "value_u32 J ''websocket.port'' WebSocketServerPorDefault ?S = Ok wsport" "value_string J ''peers.file'' [] ?S = Ok peersfile"
    using assms by (auto simp: setup_servers_def initHttp_def initWebSocket_def initPeers_def obind_Ok_iff rbind_Ok_iff)
  show ?thesis
  proof (cases "peersfile = []")
    case True
    with v assms show ?thesis
      by (auto simp: setup_servers_def initHttp_def initWebSocket_def initPeers_def with_node_def)
  next
    case False
    with v assms show ?thesis
      by (auto simp: setup_servers_def initHttp_def initWebSocket_def initPeers_def with_node_def obind_Ok_iff)
  qed
qed

lemma start_threads_Ok:
  assumes "start_threads J E a = Ok a'"
  obtains autostart where "value_bool J ''mining.autostart'' False (wa_settings (app_web a)) = Ok autostart"
    and "app_web a' = (if autostart then (app_web a)\<lparr>wa_mineThread := True\<rparr>
                    else (app_web a)\<lparr>wa_node := (wa_node (app_web a))\<lparr>miningDone := True\<rparr>\<rparr>)"
    and "app_peers a' = app_peers a" and "app_http_port a' = app_http_port a" and "app_http_running a'"
    and "\<And>s. \<exists>a''. start_threads J E (with_node s a) = Ok a''"
proof -
  obtain autostart where auto: "value_bool J ''mining.autostart'' False (wa_settings (app_web a)) = Ok autostart"
    using assms by (auto simp: start_threads_def rbind_Ok_iff Let_def)
  moreover obtain autoload where load: "value_bool J ''rest.autoload'' False (wa_settings (app_web a)) = Ok autoload"
    using assms auto by (auto simp: start_threads_def rbind_Ok_iff Let_def)
  ultimately show ?thesis
  proof (cases autoload)
    case False
    with assms auto load have "a' = a\<lparr>app_http_running := True, app_web := (if autostart then (app_web a)\<lparr>wa_mineThread := True\<rparr>
        else (app_web a)\<lparr>wa_node := (wa_node (app_web a))\<lparr>miningDone := True\<rparr>\<rparr>)\<rparr>"
      by (auto simp: start_threads_def Let_def)
    moreover have "\<exists>a''. start_threads J E (with_node s a) = Ok a''" for s
      using auto load False by (simp add: start_threads_def Let_def)
    ultimately show ?thesis using that [OF auto] by simp
  next
    case True
    with assms auto load obtain opened where opened: "openBrowser (se_os E)
        (''http://'' @ (if se_http_address E = [] then ''localhost'' else se_http_address E) @ '':'' @ show_nat (the (app_http_port a))) = Ok opened"
      by (auto simp: start_threads_def Let_def rbind_Ok_iff)
    with True assms auto load have "a' = a\<lparr>app_http_running := True, app_web := (if autostart then (app_web a)\<lparr>wa_mineThread := True\<rparr>
        else (app_web a)\<lparr>wa_node := (wa_node (app_web a))\<lparr>miningDone := True\<rparr>\<rparr>), app_browsed := opened\<rparr>"
      by (auto simp: start_threads_def Let_def)
    moreover have "\<exists>a''. start_threads J E (with_node s a) = Ok a''" for s
      using auto load True opened by (simp add: start_threads_def Let_def)
    ultimately show ?thesis using that [OF auto] by simp
  qed
qed

lemma obind_assoc: "obind (obind m f) g = obind m (\<lambda>x. obind (f x) g)"
  by (simp add: obind_def split: option.split sum.split)

lemma run_eq:
  assumes "value_string J ''mining.miner.address'' [] (wa_settings (app_web a)) = Ok addr"
  shows "run cp B J E files a =
    (let a = with_node ((wa_node (app_web a))\<lparr>rewardAddress := addr\<rparr>) a in
     if addr = [] \<or> addr = ''<CHANGE ME>'' then Some (Ok (Stopped a))
     else obind (setup_servers B J E files a) (\<lambda>a.
          let s = wa_node (app_web a) in
          obind (Some (db_initialize cp J (genesisBlock cp J (se_now E) (se_gendata E) s) (se_index E) (blockchain s) (database s)))
            (\<lambda>(c, db). obind (Some (start_threads J E (with_node (s\<lparr>blockchain := c, database := db\<rparr>) a))) (\<lambda>a. Some (Ok (Running a))))))"
  unfolding run_def setup_servers_def obind_assoc with_node_def assms by simp

lemma run_Running:
  assumes "run cp B J E files a = Some (Ok (Running a'))"
  obtains addr a1 c db where "value_string J ''mining.miner.address'' [] (wa_settings (app_web a)) = Ok addr"
    and "addr \<noteq> []" and "addr \<noteq> ''<CHANGE ME>''"
    and "setup_servers B J E files (with_node ((wa_node (app_web a))\<lparr>rewardAddress := addr\<rparr>) a) = Some (Ok a1)"
    and "db_initialize cp J (genesisBlock cp J (se_now E) (se_gendata E) ((wa_node (app_web a))\<lparr>rewardAddress := addr\<rparr>)) (se_index E)
            (blockchain (wa_node (app_web a))) (database (wa_node (app_web a))) = Ok (c, db)"
    and "start_threads J E (with_node ((wa_node (app_web a))\<lparr>rewardAddress := addr, blockchain := c, database := db\<rparr>) a1) = Ok a'"
    and "wa_settings (app_web a1) = wa_settings (app_web a)" and "wa_mineThread (app_web a1) = wa_mineThread (app_web a)"
proof -
  obtain addr where ad: "value_string J ''mining.miner.address'' [] (wa_settings (app_web a)) = Ok addr"
    using assms by (auto simp: run_def obind_Ok_iff)
  note r = assms [unfolded run_eq [OF ad] Let_def]
  then have ok: "addr \<noteq> []" "addr \<noteq> ''<CHANGE ME>''" by (auto split: if_splits)
  from r ok obtain a1 where a1: "setup_servers B J E files (with_node ((wa_node (app_web a))\<lparr>rewardAddress := addr\<rparr>) a) = Some (Ok a1)"
    by (auto simp: obind_Ok_iff)
  have web: "app_web a1 = app_web (with_node ((wa_node (app_web a))\<lparr>rewardAddress := addr\<rparr>) a)"
    using setup_servers_node [OF a1] by blast
  then have node: "wa_node (app_web a1) = (wa_node (app_web a))\<lparr>rewardAddress := addr\<rparr>" by simp
  from r ok obtain c db where db: "db_initialize cp J (genesisBlock cp J (se_now E) (se_gendata E) ((wa_node (app_web a))\<lparr>rewardAddress := addr\<rparr>)) (se_index E)
            (blockchain (wa_node (app_web a))) (database (wa_node (app_web a))) = Ok (c, db)"
    by (auto simp: a1 node obind_Ok_iff)
  from r ok have "start_threads J E (with_node ((wa_node (app_web a))\<lparr>rewardAddress := addr, blockchain := c, database := db\<rparr>) a1) = Ok a'"
    by (auto simp: a1 node db obind_Ok_iff)
  then show ?thesis by (rule that [OF ad ok a1 db]) (simp_all add: web)
qed

text \<open>On the node, \<open>run\<close> does what \<open>app_run\<close> does; the mining thread runs exactly if mining is not marked as done.\<close>

lemma run_node:
  assumes "run cp B J E files a = Some (Ok (Running a'))"
    and "\<not> wa_mineThread (app_web a)" and "\<not> miningDone (wa_node (app_web a))"
  shows "\<exists>addr autostart. value_string J ''mining.miner.address'' [] (wa_settings (app_web a)) = Ok addr
    \<and> app_run cp J addr autostart (se_now E) (se_gendata E) (se_index E) (wa_node (app_web a)) = Ok (Some (wa_node (app_web a')))
    \<and> wa_mineThread (app_web a') = (\<not> miningDone (wa_node (app_web a'))) \<and> wa_settings (app_web a') = wa_settings (app_web a)"
proof -
  obtain addr a1 c db where r: "value_string J ''mining.miner.address'' [] (wa_settings (app_web a)) = Ok addr"
    "addr \<noteq> []" "addr \<noteq> ''<CHANGE ME>''"
    and db: "db_initialize cp J (genesisBlock cp J (se_now E) (se_gendata E) ((wa_node (app_web a))\<lparr>rewardAddress := addr\<rparr>)) (se_index E)
            (blockchain (wa_node (app_web a))) (database (wa_node (app_web a))) = Ok (c, db)"
    and a': "start_threads J E (with_node ((wa_node (app_web a))\<lparr>rewardAddress := addr, blockchain := c, database := db\<rparr>) a1) = Ok a'"
    and th: "wa_mineThread (app_web a1) = wa_mineThread (app_web a)" "wa_settings (app_web a1) = wa_settings (app_web a)"
    by (rule run_Running [OF assms(1)])
  let ?a = "with_node ((wa_node (app_web a))\<lparr>rewardAddress := addr, blockchain := c, database := db\<rparr>) a1"
  obtain autostart where web: "app_web a' = (if autostart then (app_web ?a)\<lparr>wa_mineThread := True\<rparr>
      else (app_web ?a)\<lparr>wa_node := (wa_node (app_web ?a))\<lparr>miningDone := True\<rparr>\<rparr>)"
    by (rule start_threads_Ok [OF a'], erule that)
  show ?thesis
    using r db assms(2,3) th by (intro exI [of _ addr] exI [of _ autostart]) (simp add: app_run_def web)
qed

subsection \<open>Restarting the program\<close>

text \<open>The configuration file in use.\<close>

definition config_path :: "os_env \<Rightarrow> options \<Rightarrow> string result" where
  "config_path os vm = rbind (getDefaultConfigFile os) (\<lambda>f. Ok (case opt_config vm of Some g \<Rightarrow> g | None \<Rightarrow> f))"

lemma main_eq:
  assumes "\<not> opt_help vm" and "\<not> opt_createwallet vm" and "config_path (se_os E) vm = Ok cf"
    and "initSettings B J (se_os E) (files cf) = Ok (S, content)" and "initializeLogs J (se_os E) S = Ok logs"
  shows "main_program cp B J E desc k v vm files =
    obind (new_MinerApp cp J E (files(cf \<mapsto> content)) S) (\<lambda>app.
    obind (run cp B J E (files(cf \<mapsto> content)) app) (\<lambda>fin. Some (Ok (fin, files(cf \<mapsto> content)))))"
  using assms by (auto simp: main_program_def config_path_def rbind_Ok_iff Let_def)

lemma main_settings:
  assumes "main_program cp B J E desc k v vm files = Some (Ok (Running a, files'))" and "config_path (se_os E) vm = Ok cf"
  shows "\<not> opt_help vm \<and> \<not> opt_createwallet vm \<and> (\<exists>S content logs. initSettings B J (se_os E) (files cf) = Ok (S, content)
    \<and> initializeLogs J (se_os E) S = Ok logs)"
  using assms by (auto simp: main_program_def config_path_def rbind_Ok_iff Let_def obind_Ok_iff split: if_splits)

definition fresh_app :: "start_env \<Rightarrow> 'j Settings \<Rightarrow> string \<Rightarrow> ChainDatabase \<Rightarrow> 'j AshApp" where
  "fresh_app E S uid db =
     \<lparr>app_web = \<lparr>wa_node = \<lparr>uuid = uid, rewardAddress = [], database = db, blockchain = empty_Blockchain, tempchain = None,
        app_done = False, miningDone = False, app_miner = \<lparr>m_difficulty = 0\<rparr>\<rparr>, wa_mineThread = False, wa_settings = S\<rparr>,
      app_peers = new_PeerManager (se_release E), app_http_port = None, app_http_running = False, app_browsed = None\<rparr>"

lemma new_MinerApp_eq:
  assumes "value_string J ''database.folder'' [] S = Ok folder"
    and "getUUID cp (se_os E) (se_machine E) (setCustomData folder new_ComputerID) = Some (Ok uid)"
  shows "new_MinerApp cp J E files S = Some (Ok (fresh_app E S uid \<lparr>dbfile = files (path_append (se_os E) folder DatabaseFile)\<rparr>))"
  using assms by (simp add: new_MinerApp_def fresh_app_def new_ChainDatabase_def)

lemma new_MinerApp_Ok:
  assumes "new_MinerApp cp J E files S = Some (Ok app)"
  obtains folder uid where "value_string J ''database.folder'' [] S = Ok folder"
    and "getUUID cp (se_os E) (se_machine E) (setCustomData folder new_ComputerID) = Some (Ok uid)"
    and "app = fresh_app E S uid \<lparr>dbfile = files (path_append (se_os E) folder DatabaseFile)\<rparr>"
  using assms by (auto simp: new_MinerApp_def obind_Ok_iff fresh_app_def new_ChainDatabase_def)

lemma fresh_app_simps [simp]:
  "wa_settings (app_web (fresh_app E S uid db)) = S" "wa_mineThread (app_web (fresh_app E S uid db)) = False"
  "uuid (wa_node (app_web (fresh_app E S uid db))) = uid" "database (wa_node (app_web (fresh_app E S uid db))) = db"
  "blockchain (wa_node (app_web (fresh_app E S uid db))) = empty_Blockchain"
  "tempchain (wa_node (app_web (fresh_app E S uid db))) = None" "\<not> miningDone (wa_node (app_web (fresh_app E S uid db)))"
  "with_node ((wa_node (app_web (fresh_app E S uid db)))\<lparr>database := db'\<rparr>) (fresh_app E S uid db) = fresh_app E S uid db'"
  by (simp_all add: fresh_app_def with_node_def)

lemma genesisBlock_cong:
  "uuid s = uuid s' \<Longrightarrow> rewardAddress s = rewardAddress s' \<Longrightarrow> genesisBlock cp J now g s = genesisBlock cp J now g s'"
  by (simp add: genesisBlock_def)

text \<open>Starts that differ in the clock and the content of other files set up the same servers.\<close>

lemma setup_servers_cong:
  assumes "value_string J ''peers.file'' [] (wa_settings (app_web a)) = Ok pf" and "files' pf = files pf"
  shows "setup_servers B J (E\<lparr>se_now := now, se_gendata := g\<rparr>) files' a = setup_servers B J E files a"
  using assms by (cases "rbind (initHttp J E a) (initWebSocket J)")
    (auto simp: setup_servers_def initHttp_def initWebSocket_def initPeers_def rbind_Ok_iff)

lemma start_threads_cong: "start_threads J (E\<lparr>se_now := now, se_gendata := g\<rparr>) a = start_threads J E a"
  by (simp add: start_threads_def Let_def cong: if_cong)

lemma app_run_fields:
  assumes "app_run cp J addr autostart now g idx s = Ok (Some s')"
  shows "uuid s' = uuid s" and "rewardAddress s' = addr" and "idx = None"
proof -
  obtain c db where ini: "db_initialize cp J (genesisBlock cp J now g (s\<lparr>rewardAddress := addr\<rparr>)) idx (blockchain s) (database s) = Ok (c, db)"
    and s': "s' = s\<lparr>rewardAddress := addr, blockchain := c, database := db, miningDone := miningDone s \<or> \<not> autostart\<rparr>"
    using assms by (auto simp: app_run_def Let_def rbind_Ok_iff split: if_splits)
  show "uuid s' = uuid s" "rewardAddress s' = addr" by (simp_all add: s')
  show "idx = None" using ini by (auto simp: db_initialize_def Let_def rbind_Ok_iff split: if_splits option.splits)
qed

text \<open>The whole restart, for a node whose state agrees with the file at that time.\<close>

lemma restart_run:
  assumes first: "run cp B J E files (fresh_app E S uid db0) = Some (Ok (Running a))"
    and pf: "value_string J ''peers.file'' [] S = Ok pf" "files' pf = files pf"
    and s': "in_step s'" "chain_linked cp J (blocks (blockchain s'))" "length (blocks (blockchain s')) < 2 ^ 32"
  shows "\<exists>a2. run cp B J (E\<lparr>se_now := now, se_gendata := g\<rparr>) files' (fresh_app E S uid (database s')) = Some (Ok (Running a2))
    \<and> blocks (blockchain (wa_node (app_web a2))) = blocks (blockchain s') \<and> database (wa_node (app_web a2)) = database s'
    \<and> uuid (wa_node (app_web a2)) = uid \<and> app_peers a2 = app_peers a \<and> app_http_port a2 = app_http_port a"
proof -
  obtain addr a1 c db where r: "value_string J ''mining.miner.address'' [] S = Ok addr" "addr \<noteq> []" "addr \<noteq> ''<CHANGE ME>''"
    and a1: "setup_servers B J E files (with_node ((wa_node (app_web (fresh_app E S uid db0)))\<lparr>rewardAddress := addr\<rparr>) (fresh_app E S uid db0)) = Some (Ok a1)"
    and ini: "db_initialize cp J (genesisBlock cp J (se_now E) (se_gendata E) ((wa_node (app_web (fresh_app E S uid db0)))\<lparr>rewardAddress := addr\<rparr>)) (se_index E)
            empty_Blockchain db0 = Ok (c, db)"
    and a: "start_threads J E (with_node ((wa_node (app_web (fresh_app E S uid db0)))\<lparr>rewardAddress := addr, blockchain := c, database := db\<rparr>) a1) = Ok a"
    by (rule run_Running [OF first]) simp
  let ?E = "E\<lparr>se_now := now, se_gendata := g\<rparr>" and ?f = "fresh_app E S uid (database s')"
  let ?n = "(wa_node (app_web ?f))\<lparr>rewardAddress := addr\<rparr>"
  let ?c = "empty_Blockchain\<lparr>blocks := blocks (blockchain s')\<rparr>"
  have idx: "se_index E = None" using ini by (auto simp: db_initialize_def Let_def rbind_Ok_iff split: if_splits option.splits)
  have eq: "with_node ?n ?f = with_node ?n (with_node ((wa_node (app_web (fresh_app E S uid db0)))\<lparr>rewardAddress := addr\<rparr>) (fresh_app E S uid db0))"
    by (simp add: with_node_def fresh_app_def)
  have "value_string J ''peers.file'' [] (wa_settings (app_web (with_node ?n ?f))) = Ok pf" using pf(1) by simp
  then have "setup_servers B J ?E files' (with_node ?n ?f) = setup_servers B J E files (with_node ?n ?f)"
    by (rule setup_servers_cong) (rule pf(2))
  then have su: "setup_servers B J ?E files' (with_node ?n ?f) = Some (Ok (with_node ?n a1))"
    using setup_servers_node [OF a1, of ?n] unfolding eq by simp
  obtain a2 where a2: "start_threads J E (with_node (?n\<lparr>blockchain := ?c, database := database s'\<rparr>) (with_node ?n a1)) = Ok a2"
    by (rule start_threads_Ok [OF a]) (metis with_node_simps(6))
  have "run cp B J ?E files' ?f = Some (Ok (Running a2))"
    using r(2,3) a2 by (subst run_eq [of J ?f addr])
      (simp_all add: r(1) su Let_def idx node_restart [OF s'] start_threads_cong)
  moreover have "app_peers a = app_peers a1" "app_http_port a = app_http_port a1"
    by (rule start_threads_Ok [OF a], simp)+
  moreover have "blocks (blockchain (wa_node (app_web a2))) = blocks (blockchain s')" "database (wa_node (app_web a2)) = database s'"
    "uuid (wa_node (app_web a2)) = uid" "app_peers a2 = app_peers a1" "app_http_port a2 = app_http_port a1"
    by (rule start_threads_Ok [OF a2], simp)+
  ultimately show ?thesis by auto
qed

lemma main_Running:
  assumes first: "main_program cp B J E desc k v vm files = Some (Ok (Running a, files1))"
    and cf: "config_path (se_os E) vm = Ok cf" "files cf = Some content"
  obtains S logs folder uid where "\<not> opt_help vm" and "\<not> opt_createwallet vm"
    and "initSettings B J (se_os E) (Some content) = Ok (S, content)" and "initializeLogs J (se_os E) S = Ok logs"
    and "value_string J ''database.folder'' [] S = Ok folder"
    and "getUUID cp (se_os E) (se_machine E) (setCustomData folder new_ComputerID) = Some (Ok uid)"
    and "run cp B J E files (fresh_app E S uid \<lparr>dbfile = files (path_append (se_os E) folder DatabaseFile)\<rparr>) = Some (Ok (Running a))"
    and "files1 = files" and "wa_settings (app_web a) = S"
proof -
  obtain S logs where opts: "\<not> opt_help vm" "\<not> opt_createwallet vm"
    and S: "initSettings B J (se_os E) (Some content) = Ok (S, content)" "initializeLogs J (se_os E) S = Ok logs"
    using main_settings [OF first cf(1)] cf(2) by (auto simp: initSettings_def rbind_Ok_iff)
  have same: "files(cf \<mapsto> content) = files" using cf(2) by (simp add: fun_upd_idem)
  obtain app where app: "new_MinerApp cp J E files S = Some (Ok app)" "run cp B J E files app = Some (Ok (Running a))" and f: "files1 = files"
    using first S cf(2) by (auto simp: main_eq [OF opts cf(1)] obind_Ok_iff same)
  obtain folder uid where fo: "value_string J ''database.folder'' [] S = Ok folder"
    and uid: "getUUID cp (se_os E) (se_machine E) (setCustomData folder new_ComputerID) = Some (Ok uid)"
    and app_eq: "app = fresh_app E S uid \<lparr>dbfile = files (path_append (se_os E) folder DatabaseFile)\<rparr>"
    by (rule new_MinerApp_Ok [OF app(1)])
  have "wa_settings (app_web a) = S" using run_node [OF app(2)] by (auto simp: app_eq)
  with that [OF opts S fo uid _ f] app(2) app_eq show ?thesis by simp
qed

text \<open>A start satisfies the invariant of the node.\<close>

lemma started_inv:
  assumes "run cp B J E files (fresh_app E S uid db) = Some (Ok (Running a))"
    and "sound_file (genesisBlock cp J (se_now E) (se_gendata E) (wa_node (app_web a))) (dbfile db)"
  shows "node_inv cp J (wa_node (app_web a), None)" and "uuid (wa_node (app_web a)) = uid"
proof -
  let ?n = "wa_node (app_web (fresh_app E S uid db))"
  obtain addr autostart where start: "app_run cp J addr autostart (se_now E) (se_gendata E) (se_index E) ?n = Ok (Some (wa_node (app_web a)))"
    using run_node [OF assms(1)] by auto
  have same: "uuid (wa_node (app_web a)) = uuid ?n" "rewardAddress (wa_node (app_web a)) = addr"
    by (rule app_run_fields [OF start])+
  then show "uuid (wa_node (app_web a)) = uid" by simp
  have "genesisBlock cp J (se_now E) (se_gendata E) (?n\<lparr>rewardAddress := addr\<rparr>)
      = genesisBlock cp J (se_now E) (se_gendata E) (wa_node (app_web a))"
    by (rule genesisBlock_cong) (simp_all add: same)
  with assms(2) have gen: "sound_file (genesisBlock cp J (se_now E) (se_gendata E) (?n\<lparr>rewardAddress := addr\<rparr>)) (dbfile (database ?n))" by simp
  have "blocks (blockchain ?n) = []" "tempchain ?n = None"
    by (simp_all add: empty_Blockchain_def)
  from start_inv [OF start gen this] show "node_inv cp J (wa_node (app_web a), None)" .
qed

subsection \<open>The first starts\<close>

definition address_set :: "('j, 'b) json_lib_scheme \<Rightarrow> string \<Rightarrow> string \<Rightarrow> string \<Rightarrow> 'j Settings" where
  "address_set J db peers addr = put_setting J ''mining.miner.address'' (j_of_string J addr) (registered J db peers)"

context conf_libraries
begin

lemma address_loaded:
  assumes "getDefaultDatabaseFolder os = Ok db" and "getDefaultPeersFile os = Ok peers" and ne: "db \<noteq> []" "peers \<noteq> []"
    and "j_parse J txt = Some conf" and "j_entries J conf = [(''mining.miner.address'', j_of_string J addr)]" and "addr \<noteq> []"
  shows "initSettings B J os (Some txt) = Ok (address_set J db peers addr, txt)"
proof -
  let ?S = "registered J db peers"
  have "jtype_at J (conf_settings ?S) ''mining.miner.address'' = Some JT_string" by (simp add: registered_ok(2) [OF ne])
  then have "conf_exists J ''mining.miner.address'' ?S" by (auto simp: conf_exists_def jtype_at_def split: if_splits)
  moreover have "conf_validators ?S ''mining.miner.address'' = Some NotEmptyValidator"
    by (simp add: registered_def Let_def registered_validator)
  ultimately have "load_item B J (''mining.miner.address'', j_of_string J addr) (?S, 0) = Ok (address_set J db peers addr, 1)"
    using assms(7) by (simp add: load_item_def json_to_string_def type_string address_set_def)
  then show ?thesis
    using assms(5,6) by (simp add: initSettings_def registerSettings_eq [OF assms(1-4)] conf_load_def)
qed

lemma address_values:
  assumes ne: "db \<noteq> []" "peers \<noteq> []"
  shows "value_string J ''database.folder'' d (address_set J db peers addr) = Ok db"
    and "value_string J ''peers.file'' d (address_set J db peers addr) = Ok peers"
    and "value_string J ''mining.miner.address'' d (address_set J db peers addr) = Ok addr"
    and "value_string J ''logs.level'' d (address_set J db peers addr) = Ok ''info''"
    and "value_string J ''logs.file.folder'' d (address_set J db peers addr) = Ok db"
    and "value_u32 J ''rest.port'' w (address_set J db peers addr) = Ok HTTPServerPortDefault"
    and "value_u32 J ''websocket.port'' w (address_set J db peers addr) = Ok WebSocketServerPorDefault"
    and "value_bool J ''mining.autostart'' b (address_set J db peers addr) = Ok False"
    and "value_bool J ''rest.autoload'' b (address_set J db peers addr) = Ok False"
    and "value_bool J ''logs.file.enabled'' b (address_set J db peers addr) = Ok True"
proof -
  have "j_type J (conf_settings (registered J db peers)) \<in> {JT_null, JT_object}"
    using registered_ok(1) [OF ne] by (simp add: conf_inv_def well_typed_def)
  note put = conf_value_put [OF this] and vals = registered_values [OF ne, unfolded value_string_def value_u32_def value_bool_def]
  show "value_string J ''database.folder'' d (address_set J db peers addr) = Ok db"
    "value_string J ''peers.file'' d (address_set J db peers addr) = Ok peers"
    "value_string J ''mining.miner.address'' d (address_set J db peers addr) = Ok addr"
    "value_string J ''logs.level'' d (address_set J db peers addr) = Ok ''info''"
    "value_string J ''logs.file.folder'' d (address_set J db peers addr) = Ok db"
    "value_u32 J ''rest.port'' w (address_set J db peers addr) = Ok HTTPServerPortDefault"
    "value_u32 J ''websocket.port'' w (address_set J db peers addr) = Ok WebSocketServerPorDefault"
    "value_bool J ''mining.autostart'' b (address_set J db peers addr) = Ok False"
    "value_bool J ''rest.autoload'' b (address_set J db peers addr) = Ok False"
    "value_bool J ''logs.file.enabled'' b (address_set J db peers addr) = Ok True"
    unfolding value_string_def value_u32_def value_bool_def address_set_def
    by (simp_all add: put vals type_string)
qed

end

text \<open>What the peers file makes of the table of peers.\<close>

definition listed_peer :: "boost_lib \<Rightarrow> string option \<Rightarrow> string \<Rightarrow> bool" where
  "listed_peer B content name = (case content of None \<Rightarrow> False | Some txt \<Rightarrow> \<exists>l \<in> set (getlines txt). l \<noteq> [] \<and> b_trim B l = name)"

lemma create_all_port: "create_all release names m = Some m' \<Longrightarrow> pm_port m' = pm_port m"
  by (induction names arbitrary: m) (fastforce simp: createClient_def Let_def split: option.splits if_splits)+

lemma servers_started:
  assumes "value_u32 J ''rest.port'' HTTPServerPortDefault S = Ok port"
    and "value_u32 J ''websocket.port'' WebSocketServerPorDefault S = Ok wsport"
    and "value_string J ''peers.file'' [] S = Ok pf" and "pf \<noteq> []"
  shows "\<exists>a1. setup_servers B J E files (with_node s (fresh_app E S uid db)) = Some (Ok a1)
    \<and> app_web a1 = \<lparr>wa_node = s, wa_mineThread = False, wa_settings = S\<rparr>
    \<and> app_http_port a1 = Some (se_http_port E port) \<and> pm_port (app_peers a1) = Some wsport
    \<and> pm_callback (app_peers a1) = Some ask_summary \<and> peers_ok (app_peers a1) \<and> pm_started (app_peers a1)
    \<and> (\<forall>name. map_of (pm_peers (app_peers a1)) name =
         (if listed_peer B (files pf) name then Some (connecting (se_release E) name new_PeerData) else None))"
proof -
  let ?m = "initWebSocketServer wsport (new_PeerManager (se_release E))"
  have m: "peers_ok ?m" "\<not> pm_started ?m" "pm_peers ?m = []"
    using new_ok [of "se_release E"] by (simp_all add: peers_ok_def initWebSocketServer_def new_PeerManager_def)
  obtain m1 where m1: "loadPeers B (files pf) ?m = Ok m1" "peers_ok m1" "\<not> pm_started m1" "pm_port m1 = Some wsport"
    "\<And>name. map_of (pm_peers m1) name = (if listed_peer B (files pf) name then Some new_PeerData else None)"
  proof (cases "files pf")
    case None
    then show ?thesis using m by (intro that [of ?m]) (simp_all add: loadPeers_def listed_peer_def initWebSocketServer_def)
  next
    case (Some lines)
    obtain m' where m': "loadPeers B (Some lines) ?m = Ok m'" "peers_ok m'" "\<not> pm_started m'"
      "\<And>name. map_of (pm_peers m') name = (if \<exists>l \<in> set (getlines lines). l \<noteq> [] \<and> b_trim B l = name
         then Some new_PeerData else map_of (pm_peers ?m) name)"
      using load_result [OF m(1,2), of B lines] by blast
    then have "pm_port m' = Some wsport" by (auto simp: loadPeers_def rbind_Ok_iff initWebSocketServer_def)
    with m' m(3) Some show ?thesis by (intro that [of m']) (simp_all add: listed_peer_def)
  qed
  obtain m2 where m2: "connectAll (se_release E) ask_summary m1 = Some m2" "peers_ok m2" "pm_started m2" "pm_callback m2 = Some ask_summary"
    "\<And>name. map_of (pm_peers m2) name = map_option (connecting (se_release E) name) (map_of (pm_peers m1) name)"
    using connect_result [OF m1(2,3)] by blast
  have "pm_port m2 = Some wsport" using m2(1) m1(4) by (auto simp: connectAll_def dest: create_all_port)
  with m1 m2 show ?thesis
    using assms by (intro exI [of _ "(with_node s (fresh_app E S uid db))\<lparr>app_http_port := Some (se_http_port E port), app_peers := m2\<rparr>"])
      (simp add: setup_servers_def initHttp_def initWebSocket_def initPeers_def with_node_def fresh_app_def)
qed

lemma address_start:
  assumes lib: "json_conf_library J" "boost_library B" and opts: "\<not> opt_help vm" "\<not> opt_createwallet vm"
    and cf: "config_path (se_os E) vm = Ok cf" "files cf = Some content"
    and conf: "j_parse J content = Some conf" "j_entries J conf = [(''mining.miner.address'', j_of_string J addr)]"
    and addr: "addr \<noteq> []" "addr \<noteq> ''<CHANGE ME>''"
    and dirs: "getDefaultDatabaseFolder (se_os E) = Ok db" "getDefaultPeersFile (se_os E) = Ok peers" "db \<noteq> []" "peers \<noteq> []"
    and uid: "getUUID cp (se_os E) (se_machine E) (setCustomData db new_ComputerID) = Some (Ok uid)"
    and gen: "uuid n = uid" "rewardAddress n = addr"
    and ini: "db_initialize cp J (genesisBlock cp J (se_now E) (se_gendata E) n) (se_index E) empty_Blockchain d0 = Ok (c, d1)"
      "d0 = \<lparr>dbfile = files (path_append (se_os E) db DatabaseFile)\<rparr>"
  shows "\<exists>a. main_program cp B J E desc k v vm files = Some (Ok (Running a, files))
    \<and> app_web a = \<lparr>wa_node = (wa_node (app_web (fresh_app E (address_set J db peers addr) uid d1)))\<lparr>rewardAddress := addr, blockchain := c, miningDone := True\<rparr>,
         wa_mineThread = False, wa_settings = address_set J db peers addr\<rparr>
    \<and> app_http_port a = Some (se_http_port E HTTPServerPortDefault) \<and> app_http_running a
    \<and> pm_port (app_peers a) = Some WebSocketServerPorDefault \<and> pm_callback (app_peers a) = Some ask_summary
    \<and> peers_ok (app_peers a) \<and> pm_started (app_peers a)
    \<and> (\<forall>name. map_of (pm_peers (app_peers a)) name =
         (if listed_peer B (files peers) name then Some (connecting (se_release E) name new_PeerData) else None))"
proof -
  let ?S = "address_set J db peers addr"
  have clib: "conf_libraries J B" using lib by (rule conf_libraries.intro)
  note vals = conf_libraries.address_values [OF clib dirs(3,4), of _ addr]
  let ?f = "fresh_app E ?S uid d0"
  let ?n = "(wa_node (app_web ?f))\<lparr>rewardAddress := addr\<rparr>"
  have n: "genesisBlock cp J (se_now E) (se_gendata E) ?n = genesisBlock cp J (se_now E) (se_gendata E) n"
    by (rule genesisBlock_cong) (simp_all add: gen)
  have same: "files(cf \<mapsto> content) = files" using cf(2) by (simp add: fun_upd_idem)
  have S: "initSettings B J (se_os E) (files cf) = Ok (?S, content)"
    using conf_libraries.address_loaded [OF clib dirs conf addr(1)] cf(2) by simp
  have logs: "\<exists>logs. initializeLogs J (se_os E) ?S = Ok logs" by (simp add: initializeLogs_def vals)
  then obtain logs where logs: "initializeLogs J (se_os E) ?S = Ok logs" by blast
  have app: "new_MinerApp cp J E files ?S = Some (Ok ?f)"
    using new_MinerApp_eq [OF vals(1) uid, of files] by (simp add: ini(2))
  obtain a1 where a1: "setup_servers B J E files (with_node ?n ?f) = Some (Ok a1)"
    "app_web a1 = \<lparr>wa_node = ?n, wa_mineThread = False, wa_settings = ?S\<rparr>"
    "app_http_port a1 = Some (se_http_port E HTTPServerPortDefault)" "pm_port (app_peers a1) = Some WebSocketServerPorDefault"
    "pm_callback (app_peers a1) = Some ask_summary" "peers_ok (app_peers a1)" "pm_started (app_peers a1)"
    "\<forall>name. map_of (pm_peers (app_peers a1)) name =
         (if listed_peer B (files peers) name then Some (connecting (se_release E) name new_PeerData) else None)"
    using servers_started [OF vals(6,7,2) dirs(4), of B E files ?n uid d0] by blast
  let ?a = "(with_node (?n\<lparr>blockchain := c, database := d1, miningDone := True\<rparr>) a1)\<lparr>app_http_running := True\<rparr>"
  have "start_threads J E (with_node (?n\<lparr>blockchain := c, database := d1\<rparr>) a1) = Ok ?a"
    by (simp add: start_threads_def Let_def with_node_def a1(2) vals)
  then have "run cp B J E files ?f = Some (Ok (Running ?a))"
    using addr by (subst run_eq [of J ?f addr]) (simp_all add: vals a1(1,2) Let_def n ini(1))
  then have "main_program cp B J E desc k v vm files = Some (Ok (Running ?a, files))"
    using main_eq [where files = files, OF opts cf(1) S logs, of cp desc k v] by (simp add: same app)
  with a1 show ?thesis by (intro exI [of _ ?a]) (simp add: with_node_def fresh_app_def)
qed

lemma default_start:
  assumes lib: "json_conf_library J" "boost_library B" and opts: "\<not> opt_help vm" "\<not> opt_createwallet vm"
    and cf: "config_path (se_os E) vm = Ok cf" "files cf = None"
    and dirs: "getDefaultDatabaseFolder (se_os E) = Ok db" "getDefaultPeersFile (se_os E) = Ok peers" "db \<noteq> []" "peers \<noteq> []"
    and uid: "getUUID cp (se_os E) (se_machine E) (setCustomData db new_ComputerID) = Some (Ok uid)"
  shows "\<exists>a. main_program cp B J E desc k v vm files = Some (Ok (Stopped a, files(cf \<mapsto> conf_save J (registered J db peers))))
    \<and> wa_settings (app_web a) = registered J db peers
    \<and> database (wa_node (app_web a)) = \<lparr>dbfile = (files(cf \<mapsto> conf_save J (registered J db peers))) (path_append (se_os E) db DatabaseFile)\<rparr>"
proof -
  let ?S = "registered J db peers" and ?files = "files(cf \<mapsto> conf_save J (registered J db peers))"
  let ?f = "fresh_app E ?S uid \<lparr>dbfile = ?files (path_append (se_os E) db DatabaseFile)\<rparr>"
  have clib: "conf_libraries J B" using lib by (rule conf_libraries.intro)
  note vals = conf_libraries.registered_values [OF clib dirs(3,4)]
  have S: "initSettings B J (se_os E) (files cf) = Ok (?S, conf_save J ?S)"
    by (simp add: initSettings_def conf_libraries.registerSettings_eq [OF clib dirs] cf(2))
  have "\<exists>logs. initializeLogs J (se_os E) ?S = Ok logs" by (simp add: initializeLogs_def vals)
  then obtain logs where logs: "initializeLogs J (se_os E) ?S = Ok logs" by blast
  have app: "new_MinerApp cp J E ?files ?S = Some (Ok ?f)" by (rule new_MinerApp_eq [OF vals(1) uid])
  have "run cp B J E ?files ?f = Some (Ok (Stopped (with_node ((wa_node (app_web ?f))\<lparr>rewardAddress := ''<CHANGE ME>''\<rparr>) ?f)))"
    by (subst run_eq [of J ?f "''<CHANGE ME>''"]) (simp_all add: vals Let_def)
  then show ?thesis
    using main_eq [where files = files, OF opts cf(1) S logs, of cp desc k v] by (simp add: app)
qed

lemma first_initialize:
  assumes "block_storable g"
  shows "db_initialize cp J g None empty_Blockchain \<lparr>dbfile = None\<rparr>
    = Ok (empty_Blockchain\<lparr>blocks := [g]\<rparr>, \<lparr>dbfile = Some (write_block g)\<rparr>)"
  using load_blocks_write [of "[g]" "[]"] assms
  by (simp add: db_initialize_def db_write_def append_file_def isValidChain_eq empty_Blockchain_def)

lemma default_dirs:
  "getDefaultDatabaseFolder os = Ok db \<Longrightarrow> db \<noteq> []" "getDefaultPeersFile os = Ok peers \<Longrightarrow> peers \<noteq> []"
  by (auto simp: getDefaultDatabaseFolder_def getDefaultPeersFile_def rbind_Ok_iff)

subsection \<open>Wallets and the end of the program\<close>

text \<open>The command line and the REST service create wallets in the same way.\<close>

theorem createwallet_same:
  assumes "\<not> opt_help vm" and "opt_createwallet vm"
  shows "\<exists>txt. main_program cp B J E desc exponent validated vm files = Some (Ok (Printed txt, files))
    \<and> get_createWallet cp J exponent validated = [write_text txt]"
  using assms by (simp add: main_program_def get_createWallet_def Let_def)

text \<open>
  The destructor returns exactly when the mining thread does: every client is stopped before its thread is joined, and no thread is left.
\<close>

lemma destroys:
  assumes "peers_ok (app_peers a)"
  shows "(\<exists>a'. destroy_MinerApp ends a = Some a') \<longleftrightarrow> wa_mineThread (app_web a) \<longrightarrow> ends (wa_node (app_web a)) \<noteq> None"
    and "destroy_MinerApp ends a = Some a' \<Longrightarrow> \<not> wa_mineThread (app_web a') \<and> \<not> app_http_running a'
      \<and> (\<forall>(name, pd) \<in> set (pm_peers (app_peers a')). \<not> pd_worker pd)
      \<and> Some (wa_node (app_web a')) = (if wa_mineThread (app_web a) then ends (wa_node (app_web a)) else Some (wa_node (app_web a)))"
  using stop_peers_result [OF peers_ok_all [OF assms]]
  by (auto simp: destroy_MinerApp_def join_mining_def destroy_PeerManager_def worker_shutdown_def bind_eq_Some_conv)

end
