(* ===== verification/Ash_Logger.thy ===== *)
theory Ash_Logger
  imports Ash_Main
begin

section \<open>Loggers\<close>

text \<open>
  \<^verbatim>\<open>src/src/AshLogger.cpp\<close> and the part of \<^verbatim>\<open>initializeLogs\<close> in \<^verbatim>\<open>src/src/main.cpp\<close> that acts on
  loggers. The registry of spdlog is a parameter (record \<open>spdlog\<close>, locale \<open>spdlog_registry\<close>): loggers have
  a name, a level and sinks, and are found by their name.

  A component gets a copy of the root logger under its own name. The sink for the log file is added to the root
  logger before any component is created, so every component writes to the file too.
\<close>

subsection \<open>The registry\<close>

datatype level = level_trace | level_debug | level_info | level_warn | level_err | level_critical | level_off

datatype sink = StdoutColor | RotatingFile string nat nat

record logger =
  lg_name :: string
  lg_level :: level
  lg_sinks :: "sink list"

text \<open>
  \<open>sl_update name f\<close> changes the logger object that is registered under the name. \<open>sl_load_env\<close> sets levels from the
  environment and \<open>sl_load_levels\<close> from a text.
\<close>

record 'r spdlog =
  sl_get :: "'r \<Rightarrow> string \<rightharpoonup> logger"
  sl_stdout_color_mt :: "string \<Rightarrow> 'r \<Rightarrow> 'r result"
  sl_register :: "logger \<Rightarrow> 'r \<Rightarrow> 'r result"
  sl_clone :: "logger \<Rightarrow> string \<Rightarrow> logger"
  sl_update :: "string \<Rightarrow> (logger \<Rightarrow> logger) \<Rightarrow> 'r \<Rightarrow> 'r"
  sl_set_level :: "level \<Rightarrow> 'r \<Rightarrow> 'r"
  sl_load_env :: "'r \<Rightarrow> 'r"
  sl_load_levels :: "string \<Rightarrow> 'r \<Rightarrow> 'r"

text \<open>The sinks of every registered logger: what setting levels does not touch.\<close>

definition sinks_of :: "'r spdlog \<Rightarrow> 'r \<Rightarrow> string \<rightharpoonup> sink list" where
  "sinks_of SL R = map_option lg_sinks \<circ> sl_get SL R"

locale spdlog_registry =
  fixes SL :: "'r spdlog"
  assumes get_name: "sl_get SL R n = Some l \<Longrightarrow> lg_name l = n"
    and stdout_new: "sl_get SL R n = None \<Longrightarrow>
      \<exists>R'. sl_stdout_color_mt SL n R = Ok R' \<and> sinks_of SL R' = (sinks_of SL R)(n \<mapsto> [StdoutColor])"
    and register_new: "sl_get SL R (lg_name l) = None \<Longrightarrow>
      \<exists>R'. sl_register SL l R = Ok R' \<and> sl_get SL R' = (sl_get SL R)(lg_name l \<mapsto> l)"
    and clone: "lg_name (sl_clone SL l n) = n" "lg_sinks (sl_clone SL l n) = lg_sinks l"
    and update: "sl_get SL R n = Some l \<Longrightarrow> lg_name (f l) = n \<Longrightarrow> sl_get SL (sl_update SL n f R) = (sl_get SL R)(n \<mapsto> f l)"
    and levels: "sinks_of SL (sl_set_level SL lv R) = sinks_of SL R" "sinks_of SL (sl_load_env SL R) = sinks_of SL R"
      "sinks_of SL (sl_load_levels SL txt R) = sinks_of SL R"

subsection \<open>The functions of the program\<close>

definition GLOBAL_LOGGER :: string where "GLOBAL_LOGGER = ''Ash''"

text \<open>
  \<open>macro\<close>: the macro \<^verbatim>\<open>RELEASE\<close> is defined.
\<close>

definition rootLogger :: "'r spdlog \<Rightarrow> bool \<Rightarrow> 'r \<Rightarrow> 'r result" where
  "rootLogger SL macro R = (case sl_get SL R GLOBAL_LOGGER of
       Some root \<Rightarrow> Ok R
     | None \<Rightarrow> rbind (sl_stdout_color_mt SL GLOBAL_LOGGER R) (\<lambda>R.
         Ok (sl_set_level SL (if macro then level_off else level_trace) R)))"

definition initializeLogger :: "'r spdlog \<Rightarrow> bool \<Rightarrow> string \<Rightarrow> 'r \<Rightarrow> 'r result" where
  "initializeLogger SL macro name R =
     rbind (rootLogger SL macro R) (\<lambda>R.
     rbind (case sl_get SL R name of
              Some l \<Rightarrow> Ok R
            | None \<Rightarrow> (case sl_get SL R GLOBAL_LOGGER of
                None \<Rightarrow> Err UndefinedBehaviour
              | Some root \<Rightarrow> sl_register SL (sl_clone SL root name) R)) (\<lambda>R.
       Ok (sl_load_env SL R)))"

text \<open>
  \<^verbatim>\<open>initializeLogs\<close>: the level, and the sink for the file that the settings ask for.
\<close>

definition apply_logs ::
  "'r spdlog \<Rightarrow> bool \<Rightarrow> ('j, 'b) json_lib_scheme \<Rightarrow> os_env \<Rightarrow> 'j Settings \<Rightarrow> 'r \<Rightarrow> 'r result" where
  "apply_logs SL macro J os S R =
     rbind (initializeLogs J os S) (\<lambda>(levelstr, loggerfilename).
     rbind (rootLogger SL macro R) (\<lambda>R.
       let R = sl_load_levels SL levelstr R
       in Ok (if loggerfilename = [] then R
              else sl_update SL GLOBAL_LOGGER
                (\<lambda>l. l\<lparr>lg_sinks := lg_sinks l @ [RotatingFile loggerfilename (1024 * 1024 * 5) 3]\<rparr>) R)))"

text \<open>The loggers that the constructors ask for, in order.\<close>

definition component_loggers :: "string list" where
  "component_loggers = [''PeerManager'', ''Miner'', ''MinerApp'', ''ChainDatabase'']"

subsection \<open>Laws\<close>

context spdlog_registry
begin

lemma sinks_iff: "sinks_of SL R n = Some ss \<longleftrightarrow> (\<exists>l. sl_get SL R n = Some l \<and> lg_sinks l = ss)"
  by (auto simp: sinks_of_def)

lemma sinks_None: "sinks_of SL R n = None \<longleftrightarrow> sl_get SL R n = None"
  by (simp add: sinks_of_def)

lemma rootLogger_sinks:
  "\<exists>R'. rootLogger SL macro R = Ok R' \<and> sinks_of SL R' = (case sinks_of SL R GLOBAL_LOGGER of
     None \<Rightarrow> (sinks_of SL R)(GLOBAL_LOGGER \<mapsto> [StdoutColor]) | Some _ \<Rightarrow> sinks_of SL R)"
proof (cases "sl_get SL R GLOBAL_LOGGER")
  case None
  from stdout_new [OF this] None show ?thesis by (auto simp: rootLogger_def levels sinks_None [THEN iffD2])
next
  case (Some l)
  then have "sinks_of SL R GLOBAL_LOGGER = Some (lg_sinks l)" by (simp add: sinks_iff)
  with Some show ?thesis by (simp add: rootLogger_def)
qed

lemma register_sinks:
  assumes "sl_get SL R (lg_name l) = None" and "sl_register SL l R = Ok R'"
  shows "sinks_of SL R' = (sinks_of SL R)(lg_name l \<mapsto> lg_sinks l)"
  using register_new [OF assms(1)] assms(2) by (auto simp: sinks_of_def fun_eq_iff)

text \<open>A logger that exists is kept; a new one gets the sinks of the root.\<close>

lemma initializeLogger_sinks:
  assumes "sinks_of SL R GLOBAL_LOGGER = Some ss"
  shows "\<exists>R'. initializeLogger SL macro name R = Ok R'
    \<and> sinks_of SL R' = (if sinks_of SL R name = None then (sinks_of SL R)(name \<mapsto> ss) else sinks_of SL R)"
proof -
  obtain root where root: "sl_get SL R GLOBAL_LOGGER = Some root" "lg_sinks root = ss" using assms by (auto simp: sinks_iff)
  have R: "rootLogger SL macro R = Ok R" by (simp add: rootLogger_def root(1))
  show ?thesis
  proof (cases "sl_get SL R name")
    case None
    with clone(1) obtain R' where R': "sl_register SL (sl_clone SL root name) R = Ok R'"
      using register_new [of R "sl_clone SL root name"] by auto
    from register_sinks [OF _ R'] None clone have "sinks_of SL R' = (sinks_of SL R)(name \<mapsto> ss)" by (simp add: root(2))
    with R R' None root(1) show ?thesis by (simp add: initializeLogger_def levels sinks_None)
  next
    case (Some l)
    with R show ?thesis by (simp add: initializeLogger_def levels sinks_None)
  qed
qed

lemma initialize_all:
  assumes "sinks_of SL R GLOBAL_LOGGER = Some ss" and "\<forall>n \<in> set names. sinks_of SL R n \<in> {None, Some ss}"
  shows "\<exists>R'. rfold (initializeLogger SL macro) names R = Ok R' \<and> sinks_of SL R' GLOBAL_LOGGER = Some ss
    \<and> (\<forall>n. sinks_of SL R' n = (if n \<in> set names then Some ss else sinks_of SL R n))"
  using assms
proof (induction names arbitrary: R)
  case (Cons n names)
  obtain R1 where R1: "initializeLogger SL macro n R = Ok R1"
    "sinks_of SL R1 = (if sinks_of SL R n = None then (sinks_of SL R)(n \<mapsto> ss) else sinks_of SL R)"
    using initializeLogger_sinks [OF Cons.prems(1)] by blast
  have "sinks_of SL R1 GLOBAL_LOGGER = Some ss" "\<forall>m \<in> set names. sinks_of SL R1 m \<in> {None, Some ss}"
    using R1(2) Cons.prems by auto
  from Cons.IH [OF this] R1 Cons.prems(2) show ?case by (auto split: if_splits)
qed auto

end

subsection \<open>A concrete registry\<close>

definition map_spdlog :: "(string \<rightharpoonup> logger) spdlog" where
  "map_spdlog =
     \<lparr>sl_get = (\<lambda>R n. map_option (\<lambda>l. l\<lparr>lg_name := n\<rparr>) (R n)),
      sl_stdout_color_mt = (\<lambda>n R. if R n \<noteq> None then Err (RuntimeError ''logger exists'')
        else Ok (R(n \<mapsto> \<lparr>lg_name = n, lg_level = level_info, lg_sinks = [StdoutColor]\<rparr>))),
      sl_register = (\<lambda>l R. if R (lg_name l) \<noteq> None then Err (RuntimeError ''logger exists'') else Ok (R(lg_name l \<mapsto> l))),
      sl_clone = (\<lambda>l n. l\<lparr>lg_name := n\<rparr>),
      sl_update = (\<lambda>n f R. case R n of None \<Rightarrow> R | Some l \<Rightarrow> R(n \<mapsto> f (l\<lparr>lg_name := n\<rparr>))),
      sl_set_level = (\<lambda>lv R n. map_option (\<lambda>l. l\<lparr>lg_level := lv\<rparr>) (R n)),
      sl_load_env = (\<lambda>R. R), sl_load_levels = (\<lambda>txt R. R)\<rparr>"

interpretation map_spdlog: spdlog_registry map_spdlog
proof
  show "\<exists>R'. sl_stdout_color_mt map_spdlog n R = Ok R' \<and> sinks_of map_spdlog R' = (sinks_of map_spdlog R)(n \<mapsto> [StdoutColor])"
    if "sl_get map_spdlog R n = None" for R n
    using that by (intro exI [of _ "R(n \<mapsto> \<lparr>lg_name = n, lg_level = level_info, lg_sinks = [StdoutColor]\<rparr>)"])
      (auto simp: map_spdlog_def sinks_of_def)
  show "\<exists>R'. sl_register map_spdlog l R = Ok R' \<and> sl_get map_spdlog R' = (sl_get map_spdlog R)(lg_name l \<mapsto> l)"
    if "sl_get map_spdlog R (lg_name l) = None" for R l
    using that by (intro exI [of _ "R(lg_name l \<mapsto> l)"]) (auto simp: map_spdlog_def)
  show "sinks_of map_spdlog (sl_set_level map_spdlog lv R) = sinks_of map_spdlog R" for lv R
    by (simp add: map_spdlog_def sinks_of_def fun_eq_iff option.map_comp o_def)
qed (auto simp: map_spdlog_def sinks_of_def fun_eq_iff)

subsection \<open>Main result\<close>

context spdlog_registry
begin

lemma apply_logs_sinks:
  assumes "\<And>n. sl_get SL R n = None" and "initializeLogs J os S = Ok (levelstr, file)" and "file \<noteq> []"
  shows "\<exists>R'. apply_logs SL macro J os S R = Ok R'
    \<and> sinks_of SL R' = [GLOBAL_LOGGER \<mapsto> [StdoutColor, RotatingFile file (1024 * 1024 * 5) 3]]"
proof -
  have none: "sinks_of SL R n = None" for n using assms(1) by (simp add: sinks_None)
  then have empty: "sinks_of SL R = Map.empty" by (simp add: fun_eq_iff)
  obtain R1 where R1: "rootLogger SL macro R = Ok R1" "sinks_of SL R1 = [GLOBAL_LOGGER \<mapsto> [StdoutColor]]"
    using rootLogger_sinks [of macro R] by (auto simp: empty)
  let ?R = "sl_load_levels SL levelstr R1"
  have R2: "sinks_of SL ?R = [GLOBAL_LOGGER \<mapsto> [StdoutColor]]" by (simp add: levels R1(2))
  then obtain l where l: "sl_get SL ?R GLOBAL_LOGGER = Some l" "lg_sinks l = [StdoutColor]"
    using sinks_iff [of ?R GLOBAL_LOGGER "[StdoutColor]"] by auto
  let ?f = "\<lambda>l. l\<lparr>lg_sinks := lg_sinks l @ [RotatingFile file (1024 * 1024 * 5) 3]\<rparr>"
  have "sl_get SL (sl_update SL GLOBAL_LOGGER ?f ?R) = (sl_get SL ?R)(GLOBAL_LOGGER \<mapsto> ?f l)"
    using get_name [OF l(1)] by (intro update l(1)) simp
  then have "sinks_of SL (sl_update SL GLOBAL_LOGGER ?f ?R) = (sinks_of SL ?R)(GLOBAL_LOGGER \<mapsto> lg_sinks (?f l))"
    by (simp add: sinks_of_def fun_eq_iff)
  then show ?thesis using assms(2,3) R1(1) R2 by (simp add: apply_logs_def l(2))
qed

end

text \<open>
  C28: every logger of the program writes to the log file. When the settings enable the log file, then after
  the logs are set up and the components have asked for their loggers, in any order and any number of
  times, the root logger and the logger of every component have exactly two sinks, the
  console and the file in the configured folder.
\<close>

theorem logs_reach_file:
  assumes "spdlog_registry SL" and "\<And>n. sl_get SL R n = None"
    and "initializeLogs J os S = Ok (levelstr, file)" and "file \<noteq> []"
  shows "\<exists>R'. rbind (apply_logs SL macro J os S R) (rfold (initializeLogger SL macro) names) = Ok R'
    \<and> (\<forall>n \<in> insert GLOBAL_LOGGER (set names). \<exists>l. sl_get SL R' n = Some l \<and> lg_name l = n
         \<and> lg_sinks l = [StdoutColor, RotatingFile file (1024 * 1024 * 5) 3])"
proof -
  let ?ss = "[StdoutColor, RotatingFile file (1024 * 1024 * 5) 3]"
  obtain R1 where R1: "apply_logs SL macro J os S R = Ok R1" "sinks_of SL R1 = [GLOBAL_LOGGER \<mapsto> ?ss]"
    using spdlog_registry.apply_logs_sinks [OF assms(1-4)] by blast
  then have "sinks_of SL R1 GLOBAL_LOGGER = Some ?ss" "\<forall>n \<in> set names. sinks_of SL R1 n \<in> {None, Some ?ss}" by auto
  from spdlog_registry.initialize_all [OF assms(1) this, of macro] obtain R' where
    R': "rfold (initializeLogger SL macro) names R1 = Ok R'" "sinks_of SL R' GLOBAL_LOGGER = Some ?ss"
      "\<And>n. sinks_of SL R' n = (if n \<in> set names then Some ?ss else sinks_of SL R1 n)" by blast
  have "\<exists>l. sl_get SL R' n = Some l \<and> lg_name l = n \<and> lg_sinks l = ?ss" if "n \<in> insert GLOBAL_LOGGER (set names)" for n
  proof -
    have "sinks_of SL R' n = Some ?ss" using that R'(2,3) by auto
    then obtain l where "sl_get SL R' n = Some l" "lg_sinks l = ?ss"
      unfolding spdlog_registry.sinks_iff [OF assms(1)] by blast
    with spdlog_registry.get_name [OF assms(1)] show ?thesis by blast
  qed
  with R1(1) R'(1) show ?thesis by simp
qed

definition sample_logs :: "jval Settings" where
  "sample_logs = put_setting (jval_conf Map.empty) ''logs.file.enabled'' (JBool True)
     (put_setting (jval_conf Map.empty) ''logs.file.folder'' (JStr ''/log'') (new_Settings (jval_conf Map.empty)))"

theorem logs_reach_file_witness:
  "\<exists>R' l. rbind (apply_logs map_spdlog False (jval_conf Map.empty) sample_os sample_logs Map.empty)
       (rfold (initializeLogger map_spdlog False) component_loggers) = Ok R'
     \<and> sl_get map_spdlog R' ''Miner'' = Some l \<and> lg_sinks l = [StdoutColor, RotatingFile ''/log/ash.log'' 5242880 3]"
proof -
  have "initializeLogs (jval_conf Map.empty) sample_os sample_logs = Ok (''info'', ''/log/ash.log'')"
    by (simp add: sample_logs_def initializeLogs_def value_string_def value_bool_def conf_value_def conf_exists_def
        put_setting_def new_Settings_def jval_conf_def path_append_def generic_string_def is_separator_def PATH_SEPERATOR_def sample_os_def)
  from logs_reach_file [OF map_spdlog.spdlog_registry_axioms _ this, of Map.empty False component_loggers]
  show ?thesis by (fastforce simp: map_spdlog_def component_loggers_def)
qed

end
