(* ===== verification/Ash_Forks.thy ===== *)
theory Ash_Forks
  imports Ash_Protocol
begin

section \<open>Forks\<close>

text \<open>
  Two nodes whose chains part after a common beginning, as when two nodes found a block at the same height. A node that learns
  of a longer chain with more work asks for the blocks after its own last one and, as long as they do not continue its chain, for one block more;
  then it replaces its own blocks from the fork on, when it is mining at the end of its round. The conversation is a relation on the handlers of the two nodes; that it
  ends, with both nodes on the same chain, is by induction on the height of the blocks asked for.
\<close>

subsection \<open>A conversation\<close>

text \<open>
  A conversation between a node and a peer whose state does not change: the node handles a text; as long as it answers, the
  peer handles the answer and its answer is the next text.
\<close>

inductive talk :: "(string \<Rightarrow> 's \<Rightarrow> (string list \<times> 's) result) \<Rightarrow> (string \<Rightarrow> 's \<Rightarrow> (string list \<times> 's) result) \<Rightarrow> 's \<Rightarrow> string \<Rightarrow> 's \<Rightarrow> nat \<Rightarrow> 's \<Rightarrow> bool"
  for local remote :: "string \<Rightarrow> 's \<Rightarrow> (string list \<times> 's) result" and peer :: 's where
  talk_ends: "local raw s = Ok ([], s') \<Longrightarrow> talk local remote peer raw s 0 s'"
| talk_goes_on: "local raw s = Ok ([question], s1) \<Longrightarrow> remote question peer = Ok ([raw'], peer) \<Longrightarrow> talk local remote peer raw' s1 n s'
    \<Longrightarrow> talk local remote peer raw s (Suc n) s'"

inductive_simps talk_iff: "talk local remote peer raw s n s'"

text \<open>The handlers determine how the conversation goes.\<close>

lemma talk_det:
  "talk local remote peer raw s n s' \<Longrightarrow> talk local remote peer raw s m s'' \<Longrightarrow> m = n \<and> s'' = s'"
proof (induction arbitrary: m s'' rule: talk.induct)
  case (talk_ends raw s s')
  then show ?case by (simp add: talk_iff [of _ _ _ raw])
next
  case (talk_goes_on raw s question s1 raw' n s')
  from talk_goes_on.prems obtain k where "m = Suc k" "talk local remote peer raw' s1 k s''"
    using talk_goes_on.hyps(1,2) by (auto simp: talk_iff [of _ _ _ raw])
  with talk_goes_on.IH show ?case by simp
qed

subsection \<open>Taking over the blocks after the fork\<close>

text \<open>Synchronising with blocks that continue a block of the local chain replaces everything after it and keeps the queue.\<close>

lemma replace_received:
  assumes ok: "chain_ok cp J (blockchain s)" "in_step s"
    and ext: "chain_linked cp J ext" "ext \<noteq> []" "list_all (\<lambda>b. ValidHash cp J b \<and> block_storable b) ext"
    and k: "index (hd ext) = of_nat k" "0 < k" "k \<le> length (blocks (blockchain s))"
    and link: "previousHash (hd ext) = hash (blocks (blockchain s) ! (k - 1))"
  obtains s' where "syncBlockchain cp J (received ext s) = Ok (True, s')" and "in_step s'"
    and "blocks (blockchain s') = take k (blocks (blockchain s)) @ ext" and "txQueue (blockchain s') = txQueue (blockchain s)"
proof -
  let ?c = "blockchain s" and ?s = "received ext s" and ?t = "empty_Blockchain\<lparr>blocks := ext\<rparr>"
  have "length (blocks ?c) < 2 ^ 32" using ok(1) by (simp add: chain_ok_def)
  then have un: "unat (index (hd (blocks ?t))) = k" using k unat_of_nat64 [of k] by simp
  have "index (blocks ?c ! (k - 1)) = of_nat (k - 1)" using k by (intro chain_ok_index [OF ok(1)]) simp
  then have "linked cp J (blocks ?c ! (k - 1)) (hd ext)"
    using k link ext(2,3) by (cases ext) (simp_all add: linked_def ValidHash_iff of_nat_diff)
  then have ex: "extension cp J (blocks ?c ! (k - 1)) ext"
    using ext by (cases ext) (auto simp: extension_def list_all_iff)
  have s: "chain_ok cp J (blockchain ?s)" "in_step ?s" "temp_ok ?s" "tempchain ?s = Some ?t" "blocks ?t \<noteq> []"
    using ok ext(2,3) by (auto simp: in_step_def temp_ok_def list_all_iff)
  have "k < length (blocks ?c) \<or> k = length (blocks ?c)" using k(3) by auto
  with syncBlockchain_eq [OF s(1,4,5)] un k(2) ex obtain db where
    sy: "syncBlockchain cp J ?s = Ok (True, s\<lparr>blockchain := ?c\<lparr>blocks := take k (blocks ?c) @ ext\<rparr>, database := db, tempchain := None\<rparr>)"
    by (auto simp: Let_def)
  moreover from this have "in_step (s\<lparr>blockchain := ?c\<lparr>blocks := take k (blocks ?c) @ ext\<rparr>, database := db, tempchain := None\<rparr>)"
    using sync_in_step [OF s(1-3)] by auto
  ultimately show ?thesis using that by simp
qed

text \<open>
  While the node is mining, received blocks that reach the height of the block being mined end the search, and the end of the
  round requeues the transactions and takes the blocks over.
\<close>

lemma mining_takes_over:
  assumes inv: "node_inv cp J (s, Some nb)" and go: "\<not> miningDone s"
    and nb: "transactions nb = cb # txs" "isCoinbase cb = Ok True" "\<forall>tx \<in> set txs. isCoinbase tx = Ok False"
    and ext: "chain_linked cp J ext" "ext \<noteq> []" "list_all (\<lambda>b. ValidHash cp J b \<and> block_storable b) ext"
    and k: "index (hd ext) = of_nat k" "0 < k" "k \<le> length (blocks (blockchain s))"
    and link: "previousHash (hd ext) = hash (blocks (blockchain s) ! (k - 1))"
    and len: "length (blocks (blockchain s)) < k + length ext" "k + length ext < 2 ^ 32"
  shows "keepMiningCallback (received ext s) (index nb) = Ok False"
    and "\<exists>s'. mine_end cp J MINE_ABORT nb (received ext s) = Ok ([], s') \<and> blocks (blockchain s') = take k (blocks (blockchain s)) @ ext
      \<and> txQueue (blockchain s') = txQueue (blockchain s) @ txs \<and> in_step s'"
proof -
  let ?c = "blockchain s" and ?t = "empty_Blockchain\<lparr>blocks := ext\<rparr>"
  have ok: "chain_ok cp J ?c" and st: "in_step s" and on: "index nb = chain_size ?c" using inv go by (simp_all add: node_inv_def built_on_def)
  have "index (last ext) = of_nat (k + length ext - 1)"
    using chain_linked_index [OF ext(1), of "length ext - 1"] ext(2) k(1) by (cases ext) (simp_all add: last_conv_nth del: last.simps)
  then have "unat (index (last ext)) = k + length ext - 1" using len(2) unat_of_nat64 [of "k + length ext - 1"] by simp
  moreover have "unat (chain_size ?c) = length (blocks ?c)" using len by (simp add: chain_size_def unat_vec_size)
  ultimately have "\<not> index (last ext) < index nb" using len(1) by (simp add: word_less_nat_alt on)
  moreover have "chain_size ?t \<noteq> 0" using ext(2) len unat_vec_size [of ext] by (auto simp: chain_size_def word_unat_eq_iff)
  moreover have "chain_back ?t = Ok (last ext)" using ext(2) by (simp add: chain_back_def vec_back_Ok_iff)
  ultimately show "keepMiningCallback (received ext s) (index nb) = Ok False" by (simp add: keepMiningCallback_def)
  let ?s1 = "s\<lparr>blockchain := ?c\<lparr>txQueue := txQueue ?c @ txs\<rparr>\<rparr>"
  have s1: "chain_ok cp J (blockchain ?s1)" "in_step ?s1" "k \<le> length (blocks (blockchain ?s1))"
    "previousHash (hd ext) = hash (blocks (blockchain ?s1) ! (k - 1))"
    using ok st k link by (simp_all add: chain_ok_def in_step_def)
  have swap: "(received ext s)\<lparr>blockchain := blockchain ?s1\<rparr> = received ext ?s1" by simp
  have "reQueueTransactions nb (blockchain (received ext s)) = Ok (of_nat (length txs), blockchain ?s1)"
    using reQueueTransactions_eq [OF nb, of ?c] by simp
  then have "mine_end cp J MINE_ABORT nb (received ext s) = rbind (syncBlockchain cp J (received ext ?s1)) (\<lambda>(synced, s). Ok ([], s))"
    unfolding mine_end_def swap [symmetric] by simp
  moreover obtain s2 where "syncBlockchain cp J (received ext ?s1) = Ok (True, s2)" "in_step s2"
    "blocks (blockchain s2) = take k (blocks ?c) @ ext" "txQueue (blockchain s2) = txQueue ?c @ txs"
    by (rule replace_received [OF s1(1,2) ext k(1,2) s1(3,4)]) simp
  ultimately show "\<exists>s'. mine_end cp J MINE_ABORT nb (received ext s) = Ok ([], s')
      \<and> blocks (blockchain s') = take k (blocks ?c) @ ext \<and> txQueue (blockchain s') = txQueue ?c @ txs \<and> in_step s'" by auto
qed

text \<open>
  A node that is idle, or mining a block with the given transactions after the reward; and what such a node ends up with: the
  given chain, at once or at the end of its round, which is aborted, in memory and in its file, and in its queue the transactions it was mining.
\<close>

definition in_round :: "MinerApp \<Rightarrow> Block option \<Rightarrow> Transactions \<Rightarrow> bool" where
  "in_round s p txs \<longleftrightarrow> (case p of None \<Rightarrow> miningDone s
     | Some nb \<Rightarrow> \<not> miningDone s \<and> (case transactions nb of [] \<Rightarrow> False
         | cb # rest \<Rightarrow> isCoinbase cb = Ok True \<and> rest = txs \<and> list_all (\<lambda>tx. isCoinbase tx = Ok False) rest))"

definition adopts :: "cryptopp \<Rightarrow> ('j, 'b) json_lib_scheme \<Rightarrow> Block option \<Rightarrow> Transactions \<Rightarrow> Block list \<Rightarrow> MinerApp \<Rightarrow> bool" where
  "adopts cp J p queue bs s \<longleftrightarrow> (case p of None \<Rightarrow> blocks (blockchain s) = bs \<and> in_step s \<and> txQueue (blockchain s) = queue
     | Some nb \<Rightarrow> keepMiningCallback s (index nb) = Ok False
         \<and> (\<exists>s'. mine_end cp J MINE_ABORT nb s = Ok ([], s') \<and> blocks (blockchain s') = bs \<and> in_step s' \<and> txQueue (blockchain s') = queue))"

text \<open>What a round in progress adds to the queue when it is aborted.\<close>

definition requeued :: "Block option \<Rightarrow> Transactions \<Rightarrow> Transactions" where
  "requeued p txs = (case p of None \<Rightarrow> [] | Some nb \<Rightarrow> txs)"

lemma takes_over:
  assumes inv: "node_inv cp J (s, p)" "in_round s p txs"
    and ext: "chain_linked cp J ext" "ext \<noteq> []" "list_all (\<lambda>b. ValidHash cp J b \<and> block_storable b) ext"
    and k: "index (hd ext) = of_nat k" "0 < k" "k \<le> length (blocks (blockchain s))"
    and link: "previousHash (hd ext) = hash (blocks (blockchain s) ! (k - 1))"
    and len: "length (blocks (blockchain s)) < k + length ext" "k + length ext < 2 ^ 32"
  obtains s' where "sync_if_idle cp J ([], received ext s) = Ok ([], s')"
    and "adopts cp J p (txQueue (blockchain s) @ requeued p txs) (take k (blocks (blockchain s)) @ ext) s'"
proof (cases p)
  case None
  then have "chain_ok cp J (blockchain s)" "in_step s" "miningDone s" using inv by (simp_all add: node_inv_def in_round_def)
  moreover from this obtain s' where "syncBlockchain cp J (received ext s) = Ok (True, s')" "in_step s'"
    "blocks (blockchain s') = take k (blocks (blockchain s)) @ ext" "txQueue (blockchain s') = txQueue (blockchain s)"
    by (metis replace_received [OF _ _ ext k link])
  ultimately show ?thesis using that [of s'] None by (simp add: sync_if_idle_def adopts_def requeued_def)
next
  case (Some nb)
  then obtain cb where go: "\<not> miningDone s" and nb: "transactions nb = cb # txs" "isCoinbase cb = Ok True"
    "\<forall>tx \<in> set txs. isCoinbase tx = Ok False" using inv(2) by (auto simp: in_round_def list_all_iff split: list.splits)
  have "sync_if_idle cp J ([], received ext s) = Ok ([], received ext s)" using go by (simp add: sync_if_idle_def)
  moreover have "adopts cp J p (txQueue (blockchain s) @ requeued p txs) (take k (blocks (blockchain s)) @ ext) (received ext s)"
    using mining_takes_over [OF inv(1) [unfolded Some] go nb ext k link len] by (auto simp: Some adopts_def requeued_def)
  ultimately show ?thesis using that by blast
qed

lemma waits: "in_round s p txs \<Longrightarrow> tempchain s = None \<Longrightarrow> sync_if_idle cp J (ts, s) = Ok (ts, s)"
  by (simp add: sync_if_idle_def sync_none)

subsection \<open>The walk back to the fork\<close>

text \<open>
  The texts of a conversation about a fork: for every height from 2 on at which the chains may part, the request for the blocks
  from that height on and the answer.
\<close>

definition slice_texts :: "('j, 'b) json_lib_scheme \<Rightarrow> Block list \<Rightarrow> nat \<Rightarrow> 'j list" where
  "slice_texts J bs k = [tagged J ''chain'' ''request'' (range_body J (of_nat k) (index (last bs))), chain_body J (drop k bs),
     tagged J ''chain'' ''response'' (chain_body J (drop k bs))]"

definition range_reads :: "('j, 'b) json_wire_scheme \<Rightarrow> Block list \<Rightarrow> nat \<Rightarrow> bool" where
  "range_reads W bs k \<longleftrightarrow> j_parse W (range_payload (of_nat k) (index (last bs))) = Some (range_body W (of_nat k) (index (last bs)))"

text \<open>Blocks with the same hash at the same height have the same predecessors.\<close>

definition same_history :: "Block list \<Rightarrow> Block list \<Rightarrow> bool" where
  "same_history xs ys \<longleftrightarrow> list_all (\<lambda>i. hash (xs ! i) = hash (ys ! i) \<longrightarrow> take (Suc i) xs = take (Suc i) ys) [0..<min (length xs) (length ys)]"

lemma same_historyD:
  "same_history xs ys \<Longrightarrow> i < length xs \<Longrightarrow> i < length ys \<Longrightarrow> hash (xs ! i) = hash (ys ! i) \<Longrightarrow> take (Suc i) xs = take (Suc i) ys"
  by (simp add: same_history_def list_all_iff)

lemma drop_facts:
  assumes ok: "chain_ok cp J c" and k: "0 < k" "k < length (blocks c)"
  shows "chain_linked cp J (drop k (blocks c))" and "index (hd (drop k (blocks c))) = of_nat k"
    and "previousHash (hd (drop k (blocks c))) = hash (blocks c ! (k - 1))" and "last (drop k (blocks c)) = last (blocks c)"
proof -
  let ?bs = "blocks c"
  have ne: "take k ?bs \<noteq> []" "drop k ?bs \<noteq> []" using k by auto
  have "chain_linked cp J (take k ?bs @ drop k ?bs)" using ok by (simp add: chain_ok_def)
  then have l: "chain_linked cp J (drop k ?bs)" "linked cp J (last (take k ?bs)) (hd (drop k ?bs))"
    unfolding chain_linked_append [OF ne] by blast+
  then show "chain_linked cp J (drop k ?bs)" by simp
  show "index (hd (drop k ?bs)) = of_nat k" using k chain_ok_index [OF ok k(2)] by (simp add: hd_drop_conv_nth)
  have "last (take k ?bs) = ?bs ! (k - 1)" using k ne(1) last_conv_nth [OF ne(1)] by simp
  with l(2) show "previousHash (hd (drop k ?bs)) = hash (?bs ! (k - 1))" by (simp add: linked_def)
  show "last (drop k ?bs) = last ?bs" using k by (simp add: last_drop)
qed

text \<open>A node that is sent the blocks of a longer chain from height \<open>k\<close> on takes the chain over or asks for one more block.\<close>

lemma fork_step:
  assumes lib: "json_library W" and A: "chain_ok cp W (blockchain a)"
    and B: "node_inv cp W (b, p)" "in_round b p txs" "tempchain b = None"
    and len: "length (blocks (blockchain b)) < length (blocks (blockchain a))" and k: "1 < k" "k \<le> length (blocks (blockchain b))"
    and good: "list_all (\<lambda>b. ValidHash cp W b \<and> block_storable b) (drop k (blocks (blockchain a)))"
    and hist: "same_history (blocks (blockchain b)) (blocks (blockchain a))"
    and reads: "hash (blocks (blockchain b) ! (k - 1)) \<noteq> hash (blocks (blockchain a) ! (k - 1)) \<Longrightarrow> range_reads W (blocks (blockchain a)) (k - 1)" "\<forall>j \<in> set (slice_texts W (blocks (blockchain a)) k). reads_back W j"
  shows "let raw = j_dump W (tagged W ''chain'' ''response'' (chain_body W (drop k (blocks (blockchain a)))))
    in if hash (blocks (blockchain b) ! (k - 1)) = hash (blocks (blockchain a) ! (k - 1))
       then \<exists>b'. onChainMessage cp W reset_b raw b = Ok ([], b') \<and> adopts cp W p (txQueue (blockchain b) @ requeued p txs) (blocks (blockchain a)) b'
       else onChainMessage cp W reset_b raw b
         = Ok ([j_dump W (tagged W ''chain'' ''request'' (range_body W (of_nat (k - 1)) (index (last (blocks (blockchain a))))))], b)"
proof -
  let ?as = "blocks (blockchain a)" and ?bs = "blocks (blockchain b)"
  let ?raw = "j_dump W (tagged W ''chain'' ''response'' (chain_body W (drop k ?as)))"
  have ka: "0 < k" "k < length ?as" using len k by simp_all
  note d = drop_facts [OF A ka]
  have ne: "drop k ?as \<noteq> []" "length (drop k ?as) < 2 ^ 32" using ka A by (auto simp: chain_ok_def)
  have parse: "j_parse W ?raw = Some (tagged W ''chain'' ''response'' (chain_body W (drop k ?as)))"
    using reads(2) by (simp add: slice_texts_def reads_back_def)
  have send: "hash (?bs ! (k - 1)) \<noteq> hash (?as ! (k - 1)) \<Longrightarrow> sendRequestFmt W ''chain'' (range_payload (of_nat (k - 1)) (index (last ?as)))
      = Ok (j_dump W (tagged W ''chain'' ''request'' (range_body W (of_nat (k - 1)) (index (last ?as)))))"
    unfolding sendRequestFmt_def using reads(1) by (intro sendMessage_eq) (simp_all add: range_reads_def range_payload_def)
  have ok: "chain_ok cp W (blockchain b)" using B(1) by (simp add: node_inv_def)
  note recv = receive_slice [OF lib ok d(1) ne d(2) k parse, of reset_b, unfolded d(3,4)]
  show ?thesis
  proof (cases "hash (?bs ! (k - 1)) = hash (?as ! (k - 1))")
    case True
    then have tk: "take k ?bs = take k ?as" using same_historyD [OF hist, of "k - 1"] k len by simp
    have "previousHash (hd (drop k ?as)) = hash (?bs ! (k - 1))" using d(3) True by simp
    moreover have "k + length (drop k ?as) < 2 ^ 32" "length ?bs < k + length (drop k ?as)" using ka len A by (auto simp: chain_ok_def)
    ultimately obtain b' where "sync_if_idle cp W ([], received (drop k ?as) b) = Ok ([], b')"
      "adopts cp W p (txQueue (blockchain b) @ requeued p txs) (take k ?bs @ drop k ?as) b'"
      using takes_over [OF B(1,2) d(1) ne(1) good d(2) ka(1) k(2)] by blast
    with recv True show ?thesis by (simp add: Let_def tk)
  next
    case False
    with recv send waits [OF B(2,3)] show ?thesis by (simp add: Let_def)
  qed
qed

lemma fork_walk:
  assumes lib: "json_library W" and A: "chain_ok cp W (blockchain a)"
    and B: "node_inv cp W (b, p)" "in_round b p txs" "tempchain b = None"
    and len: "length (blocks (blockchain b)) < length (blocks (blockchain a))"
    and hist: "same_history (blocks (blockchain b)) (blocks (blockchain a))" "take 2 (blocks (blockchain b)) = take 2 (blocks (blockchain a))"
    and good: "list_all (\<lambda>b. ValidHash cp W b \<and> block_storable b) (drop 2 (blocks (blockchain a)))"
    and k: "1 < k" "k \<le> length (blocks (blockchain b))"
    and reads: "\<forall>i \<in> {2..k}. range_reads W (blocks (blockchain a)) i \<and> (\<forall>j \<in> set (slice_texts W (blocks (blockchain a)) i). reads_back W j)"
  shows "\<exists>n b'. talk (onChainMessage cp W reset_b) (onChainMessage cp W reset_a) a
      (j_dump W (tagged W ''chain'' ''response'' (chain_body W (drop k (blocks (blockchain a)))))) b n b'
    \<and> n + 2 \<le> k \<and> adopts cp W p (txQueue (blockchain b) @ requeued p txs) (blocks (blockchain a)) b'"
  using k reads
proof (induction k)
  case (Suc k)
  let ?as = "blocks (blockchain a)" and ?bs = "blocks (blockchain b)"
  have "set (drop (Suc k) ?as) \<subseteq> set (drop 2 ?as)" using Suc.prems(1) by (intro set_drop_subset_set_drop) simp
  then have g: "list_all (\<lambda>b. ValidHash cp W b \<and> block_storable b) (drop (Suc k) ?as)"
    using good by (auto simp: list_all_iff)
  have top: "\<forall>j \<in> set (slice_texts W ?as (Suc k)). reads_back W j" using Suc.prems(1,3) by auto
  note step = fork_step [OF lib A B len Suc.prems(1,2) g hist(1) _ top, of reset_b]
  show ?case
  proof (cases "hash (?bs ! k) = hash (?as ! k)")
    case True
    with step obtain b' where
      "onChainMessage cp W reset_b (j_dump W (tagged W ''chain'' ''response'' (chain_body W (drop (Suc k) ?as)))) b = Ok ([], b')"
      "adopts cp W p (txQueue (blockchain b) @ requeued p txs) ?as b'" by (auto simp: Let_def)
    with Suc.prems(1) show ?thesis by (intro exI [of _ 0] exI [of _ b']) (simp add: talk_ends)
  next
    case False
    then have k: "k \<noteq> 1" using arg_cong [OF hist(2), of "\<lambda>l. l ! 1"] Suc.prems(2) len by auto
    let ?q = "j_dump W (tagged W ''chain'' ''request'' (range_body W (of_nat k) (index (last ?as))))"
      and ?raw = "j_dump W (tagged W ''chain'' ''response'' (chain_body W (drop k ?as)))"
    have rd: "range_reads W ?as k" "\<forall>j \<in> set (slice_texts W ?as k). reads_back W j" using Suc.prems k by auto
    have ask: "onChainMessage cp W reset_b (j_dump W (tagged W ''chain'' ''response'' (chain_body W (drop (Suc k) ?as)))) b = Ok ([?q], b)"
      using step False rd(1) by (simp add: Let_def)
    have ans: "onChainMessage cp W reset_a ?q a = Ok ([?raw], a)"
      using rd(2) Suc.prems(2) len by (intro answer_blocks [OF lib A append_take_drop_id [symmetric]])
        (simp_all add: slice_texts_def reads_back_def last_drop)
    have "1 < k" "k \<le> length ?bs" using Suc.prems(1,2) k by simp_all
    moreover have "\<forall>i \<in> {2..k}. range_reads W ?as i \<and> (\<forall>j \<in> set (slice_texts W ?as i). reads_back W j)"
      using Suc.prems(3) by (meson atLeastAtMost_iff le_SucI)
    ultimately obtain n b' where "talk (onChainMessage cp W reset_b) (onChainMessage cp W reset_a) a ?raw b n b'"
      "n + 2 \<le> k" "adopts cp W p (txQueue (blockchain b) @ requeued p txs) ?as b'" using Suc.IH by blast
    with talk_goes_on [where local = "onChainMessage cp W reset_b" and remote = "onChainMessage cp W reset_a", OF ask ans] show ?thesis by (intro exI [of _ "Suc n"] exI [of _ b']) simp
  qed
qed simp

subsection \<open>Main results\<close>

text \<open>
  C2: forks are resolved. Let a node and a peer have chains with the same first two blocks, the one of the peer being longer,
  with more work and valid from the third block on, and let blocks with the same hash at the same height have the
  same predecessors. The peer is asked for a summary. In the conversation that follows, in which each side handles the texts of the
  other by its code, the node walks back from its last block to the fork one block at a time; the conversation ends after
  fewer questions than the node has blocks and leaves the peer unchanged. A node that is idle then has exactly the chain of the peer, in memory and in
  its file; when it is mining, the callback ends the search, and it has that chain at the end of its round. Its queue is
  what it was, followed by the transactions it was mining.
\<close>

theorem fork_resolves:
  assumes lib: "json_library W" and A: "chain_ok cp W (blockchain a)"
      "list_all (\<lambda>b. ValidHash cp W b \<and> block_storable b) (drop 2 (blocks (blockchain a)))"
    and B: "node_inv cp W (b, p)" "in_round b p txs" "tempchain b = None" "1 < length (blocks (blockchain b))"
    and len: "length (blocks (blockchain b)) < length (blocks (blockchain a))"
    and fork: "take 2 (blocks (blockchain b)) = take 2 (blocks (blockchain a))" "same_history (blocks (blockchain b)) (blocks (blockchain a))"
    and cum: "cumDifficulty (blockchain b) = Ok cb" "cumDifficulty (blockchain a) = Ok ca" "cb < ca"
    and parse: "j_parse W summary_request = Some (tagged W ''summary'' ''request'' (j_null W))"
    and reads: "reads_back W (summary_body W (blocks (blockchain a)) ca)"
      "reads_back W (tagged W ''summary'' ''response'' (summary_body W (blocks (blockchain a)) ca))"
      "\<forall>k \<in> {2..length (blocks (blockchain b))}. range_reads W (blocks (blockchain a)) k
        \<and> (\<forall>j \<in> set (slice_texts W (blocks (blockchain a)) k). reads_back W j)"
  shows "\<exists>raw n b'. onChainMessage cp W reset_a summary_request a = Ok ([raw], a)
    \<and> talk (onChainMessage cp W reset_b) (onChainMessage cp W reset_a) a raw b n b' \<and> n < length (blocks (blockchain b))
    \<and> adopts cp W p (txQueue (blockchain b) @ requeued p txs) (blocks (blockchain a)) b'"
proof -
  let ?as = "blocks (blockchain a)" and ?bs = "blocks (blockchain b)" and ?k = "length (blocks (blockchain b))"
  let ?raw = "j_dump W (tagged W ''summary'' ''response'' (summary_body W ?as ca))"
    and ?q = "j_dump W (tagged W ''chain'' ''request'' (range_body W (of_nat ?k) (index (last ?as))))"
    and ?raw' = "j_dump W (tagged W ''chain'' ''response'' (chain_body W (drop ?k ?as)))"
  have ok: "chain_ok cp W (blockchain b)" using B(1) by (simp add: node_inv_def)
  have ne: "?bs \<noteq> []" "?as \<noteq> []" using B(4) len by auto
  have hd: "hd ?bs = hd ?as" using arg_cong [OF fork(1), of hd] ne by simp
  have next_: "index (last ?bs) + 1 = of_nat ?k" using chain_ok_last(3) [OF ok] by (metis of_nat_unat ucast_id)
  have rd: "range_reads W ?as ?k" "\<forall>j \<in> set (slice_texts W ?as ?k). reads_back W j" using reads(3) B(4) by auto
  have "onChainMessage cp W reset_a summary_request a = Ok ([?raw], a)" by (rule answer_summary [OF lib ne(2) cum(2) parse reads(1)])
  moreover have ask: "onChainMessage cp W reset_b ?raw b = Ok ([?q], b)"
    using ask_for_blocks [OF lib ne B(3) hd cum(1,3)] reads(2) rd(1) by (simp add: next_ reads_back_def range_reads_def)
  have ans: "onChainMessage cp W reset_a ?q a = Ok ([?raw'], a)"
    using rd(2) len by (intro answer_blocks [OF lib A(1) append_take_drop_id [symmetric]]) (simp_all add: slice_texts_def reads_back_def last_drop)
  from fork_walk [OF lib A(1) B(1-3) len fork(2,1) A(2) B(4) _ reads(3)] obtain n b' where
    w: "talk (onChainMessage cp W reset_b) (onChainMessage cp W reset_a) a ?raw' b n b'" "n + 2 \<le> ?k"
      "adopts cp W p (txQueue (blockchain b) @ requeued p txs) ?as b'"
    by blast
  moreover note talk_goes_on [where local = "onChainMessage cp W reset_b" and remote = "onChainMessage cp W reset_a", OF ask ans w(1)]
  ultimately show ?thesis by (intro exI [of _ ?raw] exI [of _ "Suc n"] exI [of _ b']) simp
qed

text \<open>
  A chain with more work that is not longer cannot be adopted: the node asks for the blocks after its own last one, which the peer does not
  have, and the answer is an error object without blocks.
\<close>

lemma heavier_fork_refused:
  assumes lib: "json_library W" and A: "chain_ok cp W (blockchain a)" "length (blocks (blockchain a)) \<le> n" "n < 2 ^ 32"
    and parse: "j_parse W raw = Some (tagged W ''chain'' ''request'' (range_body W (of_nat n) id2))"
    and reads: "reads_back W (jerror W ''could not find id1 in chain'')"
  defines "answer \<equiv> tagged W ''chain'' ''response'' (jerror W ''could not find id1 in chain'')"
  shows "onChainMessage cp W reset_a raw a = Ok ([j_dump W answer], a)" and "\<not> j_contains W answer ''blocks''"
proof -
  let ?j = "tagged W ''chain'' ''request'' (range_body W (of_nat n) id2)" and ?e = "jerror W ''could not find id1 in chain''"
  have at: "j_at W ?j ''message'' = Ok (j_of_string W ''chain'')" "j_at W ?j ''message-type'' = Ok (j_of_string W ''request'')"
    "j_contains W ?j ''message''" "j_contains W ?j ''message-type''"
    unfolding range_body_def using json_library.tagged_at [OF lib json_library.set_all_type [OF lib]] by simp_all
  have ids: "j_at W ?j ''id1'' = Ok (j_of_u64 W (of_nat n))" "j_at W ?j ''id2'' = Ok (j_of_u64 W id2)" "j_contains W ?j ''id1''"
    unfolding range_body_def using json_library.tagged_set_all [OF lib] by simp_all
  have "index b \<noteq> of_nat n" if b: "b \<in> set (blocks (blockchain a))" for b
  proof -
    obtain i where "i < length (blocks (blockchain a))" "index b = of_nat i"
      using b chain_ok_index [OF A(1)] by (metis in_set_conv_nth)
    then show ?thesis using A(2,3) unat_of_nat64 [of i] unat_of_nat64 [of n] by fastforce
  qed
  then have resp: "chain_response W (blockchain a) ?j = Ok ?e"
    by (auto simp: chain_response_def ids j_is_number_def json_library.type_u64 [OF lib] json_library.get_u64 [OF lib] dropWhile_eq_Nil_conv)
  have "sendResponse W ''chain'' (j_dump W ?e) = Ok (j_dump W answer)"
    using reads unfolding sendResponse_def reads_back_def answer_def by (intro sendMessage_eq) simp_all
  then show "onChainMessage cp W reset_a raw a = Ok ([j_dump W answer], a)"
    by (simp add: onChainMessage_def parse at at_get_def json_library.get_string [OF lib] dispatchRequest_def resp Let_def)
  show "\<not> j_contains W answer ''blocks''"
    unfolding answer_def jerror_def using json_library.tagged_at(1) [OF lib json_library.set_all_type [OF lib]] json_library.contains_set_all [OF lib] by simp
qed

subsection \<open>An example\<close>

text \<open>
  A fork of two sample nodes at height 2. The hash is the first four characters of the text, so that blocks of different times
  have different hashes.
\<close>

definition fork_cp :: cryptopp where
  "fork_cp = sample_cp\<lparr>cp_sha256 := take 4\<rparr>"

definition fork_block :: "u64 \<Rightarrow> BlockTime \<Rightarrow> string \<Rightarrow> string \<Rightarrow> Block" where
  "fork_block i t prev h = \<lparr>hashed = \<lparr>hd_index = i, hd_nonce = 0, hd_difficulty = 0, hd_data = [], hd_time = t, hd_prev = prev, hd_txs = []\<rparr>,
     block_hash = h, block_miner = []\<rparr>"

definition fork_local :: "Block list" where
  "fork_local = [fork_block 0 1 ''aaaa'' ''0001'', fork_block 1 2 ''0001'' ''1002'', fork_block 2 3 ''1002'' ''2003'']"

definition fork_remote :: "Block list" where
  "fork_remote = [fork_block 0 1 ''aaaa'' ''0001'', fork_block 1 2 ''0001'' ''1002'', fork_block 2 4 ''1002'' ''2004'',
     fork_block 3 5 ''2004'' ''3005'']"

definition fork_node :: "Block list \<Rightarrow> MinerApp" where
  "fork_node bs = sample_node\<lparr>database := db_writeChain (empty_Blockchain\<lparr>blocks := bs\<rparr>) \<lparr>dbfile = None\<rparr>,
     blockchain := empty_Blockchain\<lparr>blocks := bs\<rparr>\<rparr>"

definition fork_new :: Block where
  "fork_new = setTransactions [CreateCoinbaseTransaction fork_cp 3 ''w''] (fork_block 3 6 ''2003'' [])"

lemma fork_block_simps [simp]:
  "index (fork_block i t prev h) = i" "hash (fork_block i t prev h) = h" "previousHash (fork_block i t prev h) = prev"
  "difficulty (fork_block i t prev h) = 0"
  by (simp_all add: fork_block_def)

lemma show_digit: "n < 10 \<Longrightarrow> show_nat n = [digit_char n]"
  by (subst show_nat.simps) simp

lemma fork_hash:
  assumes "unat i < 10" and "0 \<le> sint t" and "sint t < 10"
  shows "CalculateBlockHash fork_cp J (fork_block i t prev h) = digit_char (unat i) # ''00'' @ [digit_char (nat (sint t))]"
  using assms by (simp add: CalculateBlockHash_def CalculateBlockHash_fields_def SHA256_def fork_cp_def sample_cp_def fork_block_def
      show_int_def show_digit digit_char_table)

lemma fork_ValidHash: "list_all (\<lambda>b. CalculateBlockHash fork_cp J b = hash b) (fork_local @ fork_remote)"
  by (simp add: fork_local_def fork_remote_def fork_hash digit_char_table)

lemma fork_chain_ok:
  "chain_ok fork_cp J (blockchain (fork_node fork_local))" "chain_ok fork_cp J (blockchain (fork_node fork_remote))"
  using fork_ValidHash [of J] by (simp_all add: chain_ok_def fork_node_def fork_local_def fork_remote_def linked_def)

lemma fork_good:
  "list_all (\<lambda>b. ValidHash fork_cp J b \<and> block_storable b) (fork_local @ fork_remote)"
  using fork_ValidHash [of J]
  by (simp add: ValidHash_iff zeros_prefix_def fork_local_def fork_remote_def block_storable_def short_def fork_block_def)

lemma fork_in_step: "in_step (fork_node fork_local)"
proof -
  have st: "list_all block_storable fork_local" using fork_good [of jval_lib] by (auto simp: list_all_iff)
  moreover have "fork_local \<noteq> []" by (simp add: fork_local_def)
  ultimately show ?thesis
    using store.stored_writeChain [of "empty_Blockchain\<lparr>blocks := fork_local\<rparr>" "\<lparr>dbfile = None\<rparr>" "[]"]
    by (simp add: in_step_def fork_node_def db_stored_def)
qed

lemma fork_mining: "node_inv fork_cp J (fork_node fork_local, Some fork_new)" "in_round (fork_node fork_local) (Some fork_new) []"
proof -
  have "built_on (fork_node fork_local) fork_new"
    by (simp add: built_on_def fork_node_def fork_local_def fork_new_def fork_block_def setTransactions_def chain_size_def vec_size_def)
  moreover have "tempchain (fork_node fork_local) = None" by (simp add: fork_node_def)
  ultimately show "node_inv fork_cp J (fork_node fork_local, Some fork_new)"
    using fork_chain_ok(1) fork_in_step by (simp add: node_inv_def temp_links_def)
  show "in_round (fork_node fork_local) (Some fork_new) []"
    by (simp add: in_round_def fork_node_def fork_new_def setTransactions_def)
qed

lemma fork_history: "same_history fork_local fork_remote" "take 2 fork_local = take 2 fork_remote"
  by (simp_all add: same_history_def fork_local_def fork_remote_def upt_rec numeral_2_eq_2)

lemma fork_work: "cumDifficulty (blockchain (fork_node fork_local)) = Ok 2" "cumDifficulty (blockchain (fork_node fork_remote)) = Ok 3"
  by (simp_all add: cumDifficulty_def cumDifficulty_to_def chain_size_def vec_size_def pow2_u64_def fork_node_def fork_local_def fork_remote_def)

theorem fork_resolves_witness:
  "\<exists>(W :: jval json_wire) raw n b'. onChainMessage fork_cp W False summary_request (fork_node fork_remote) = Ok ([raw], fork_node fork_remote)
     \<and> talk (onChainMessage fork_cp W False) (onChainMessage fork_cp W False) (fork_node fork_remote) raw (fork_node fork_local) n b'
     \<and> n < 3 \<and> keepMiningCallback b' 3 = Ok False
     \<and> (\<exists>b''. mine_end fork_cp W MINE_ABORT fork_new b' = Ok ([], b'') \<and> blocks (blockchain b'') = fork_remote \<and> in_step b'')"
proof -
  let ?J = jval_lib and ?a = "fork_node fork_remote" and ?b = "fork_node fork_local"
  define p where "p = [summary_request \<mapsto> tagged ?J ''summary'' ''request'' (j_null ?J), range_payload 2 3 \<mapsto> range_body ?J 2 3,
    range_payload 3 3 \<mapsto> range_body ?J 3 3]"
  define vs where "vs = [summary_body ?J fork_remote 3, tagged ?J ''summary'' ''response'' (summary_body ?J fork_remote 3)]
    @ slice_texts ?J fork_remote 2 @ slice_texts ?J fork_remote 3"
  define W where "W = listed_wire p vs"
  have lib: "json_library W" unfolding W_def by (rule json_library_listed)
  have "p (show_nat n) = None" for n
    using show_nat_not_brace [of n] by (auto simp: p_def summary_request_def range_payload_def)
  then have reads: "reads_back W j" if "j \<in> set vs" for j unfolding W_def using that by (intro reads_back_listed)
  have ne: "range_payload 2 3 \<noteq> summary_request" "range_payload 3 3 \<noteq> summary_request" "range_payload 2 3 \<noteq> range_payload 3 3"
    by (simp_all add: range_payload_def summary_request_def quoted_def show_digit digit_char_table)
  have parse: "j_parse W summary_request = Some (tagged W ''summary'' ''request'' (j_null W))"
    using ne by (auto simp: W_def listed_fields(7) listed_eq listed_fields(1) p_def)
  have bs: "blocks (blockchain ?a) = fork_remote" "blocks (blockchain ?b) = fork_local" "length fork_local = 3" "length fork_remote = 4"
    "index (last fork_remote) = 3" "tempchain ?b = None" "index fork_new = 3"
    by (simp_all add: fork_node_def fork_local_def fork_remote_def fork_new_def setTransactions_def fork_block_def)
  have rg: "range_reads W fork_remote 2" "range_reads W fork_remote 3"
    using ne by (auto simp: range_reads_def bs W_def listed_fields(7) listed_eq p_def)
  have sl: "slice_texts W = slice_texts ?J" by (simp add: fun_eq_iff slice_texts_def W_def listed_eq)
  have "{2..3 :: nat} = {2, 3}" by auto
  then have slices: "\<forall>k \<in> {2..length (blocks (blockchain ?b))}. range_reads W (blocks (blockchain ?a)) k
      \<and> (\<forall>j \<in> set (slice_texts W (blocks (blockchain ?a)) k). reads_back W j)"
    using rg reads by (simp add: bs sl vs_def)
  have sums: "reads_back W (summary_body W (blocks (blockchain ?a)) 3)"
      "reads_back W (tagged W ''summary'' ''response'' (summary_body W (blocks (blockchain ?a)) 3))"
    using reads by (simp_all add: bs W_def listed_eq vs_def)
  have good: "list_all (\<lambda>b. ValidHash fork_cp W b \<and> block_storable b) (drop 2 (blocks (blockchain ?a)))"
    using fork_good [of W] by (auto simp: bs list_all_iff dest: in_set_dropD)
  have len: "1 < length (blocks (blockchain ?b))" "length (blocks (blockchain ?b)) < length (blocks (blockchain ?a))"
    and hist: "take 2 (blocks (blockchain ?b)) = take 2 (blocks (blockchain ?a))" "same_history (blocks (blockchain ?b)) (blocks (blockchain ?a))"
    using fork_history by (simp_all add: bs)
  from fork_resolves [OF lib fork_chain_ok(2) good fork_mining bs(6) len hist fork_work _ parse sums slices, of False False]
  show ?thesis unfolding adopts_def bs option.case by (intro exI [of _ W]) auto
qed

end
