(* ===== verification/Ash_System.thy ===== *)
theory Ash_System
  imports Ash_Main
begin

section \<open>The running program: all threads together\<close>

text \<open>
  Once \<open>run\<close> has started everything, five kinds of threads act on the same object: the mining thread, the thread of the HTTP
  server, the websocket server, one thread for every peer the program connects to and the thread that reconnects. This theory
  puts the models of \<open>Ash_Node\<close>, \<open>Ash_Rest\<close> and \<open>Ash_Peers\<close> together: a state is the application object with the block
  that is being mined and the request that waits for the mining thread, a step is one handler, and every step has the
  texts it sends, each with its connection.

  The program refines its parts: seen from the node, every step is a sequence of steps of \<open>Ash_Run\<close>; seen from the table of
  peers, a sequence of steps of \<open>Ash_Peers\<close>. Both are instances of one locale of simulations, which carries the
  invariants of the parts over to the program.
\<close>

subsection \<open>Simulations\<close>

text \<open>The runs of a labelled step relation, with everything that was sent.\<close>

inductive traces :: "('c \<Rightarrow> 'o list \<Rightarrow> 'c \<Rightarrow> bool) \<Rightarrow> 'c \<Rightarrow> 'o list \<Rightarrow> 'c \<Rightarrow> bool"
  for step :: "'c \<Rightarrow> 'o list \<Rightarrow> 'c \<Rightarrow> bool" where
  traces_refl [intro!, simp]: "traces step x [] x"
| traces_step: "traces step x outs y \<Longrightarrow> step y out z \<Longrightarrow> traces step x (outs @ out) z"

lemma traces_single: "step x out y \<Longrightarrow> traces step x out y"
  using traces_step [OF traces_refl, of step x out y] by simp

lemma traces_trans:
  assumes "traces step x out1 y" and "traces step y out2 z"
  shows "traces step x (out1 @ out2) z"
  using assms(2,1)
proof (induction rule: traces.induct)
  case (traces_step y outs y' out z)
  then show ?case using traces.traces_step [of step x "out1 @ outs" y' out z] by simp
qed simp

text \<open>
  A labelled relation with an invariant, a relation that is to describe it and a view: every step that starts in the
  invariant keeps it and is, in the view, a sequence of steps.
\<close>

locale step_simulation =
  fixes concrete :: "'c \<Rightarrow> 'o list \<Rightarrow> 'c \<Rightarrow> bool" and abstract :: "'a \<Rightarrow> 'a \<Rightarrow> bool"
    and view :: "'c \<Rightarrow> 'a" and inv :: "'c \<Rightarrow> bool"
  assumes step_inv: "concrete x out y \<Longrightarrow> inv x \<Longrightarrow> inv y"
    and step_view: "concrete x out y \<Longrightarrow> inv x \<Longrightarrow> abstract\<^sup>*\<^sup>* (view x) (view y)"
begin

lemma run_inv:
  assumes "traces concrete x outs y" and "inv x"
  shows "inv y"
  using assms by (induction rule: traces.induct) (auto intro: step_inv)

lemma run_view:
  assumes "traces concrete x outs y" and "inv x"
  shows "abstract\<^sup>*\<^sup>* (view x) (view y)"
  using assms
proof (induction rule: traces.induct)
  case (traces_step x outs y out z)
  then have "inv y" by (blast intro: run_inv)
  with traces_step show ?case by (blast intro: step_view rtranclp_trans)
qed simp

end

subsection \<open>State and handlers\<close>

text \<open>
  \<open>sys_round\<close>: the block the mining thread searches a nonce for. \<open>sys_joining\<close>: the HTTP thread waits in the handler of
  \<^verbatim>\<open>/rest/stopMining\<close> for the mining thread; the server has one thread, so no other request is handled meanwhile.
\<close>

record 'j System =
  sys_app :: "'j AshApp"
  sys_round :: "Block option"
  sys_joining :: bool

abbreviation sys_node :: "'j System \<Rightarrow> MinerApp" where
  "sys_node y \<equiv> wa_node (app_web (sys_app y))"

abbreviation sys_thread :: "'j System \<Rightarrow> bool" where
  "sys_thread y \<equiv> wa_mineThread (app_web (sys_app y))"

definition started_system :: "'j AshApp \<Rightarrow> 'j System" where
  "started_system a = \<lparr>sys_app = a, sys_round = None, sys_joining = False\<rparr>"

definition put_node :: "MinerApp \<Rightarrow> 'j System \<Rightarrow> 'j System" where
  "put_node s y = y\<lparr>sys_app := with_node s (sys_app y)\<rparr>"

definition put_web :: "'j WebApp \<Rightarrow> 'j System \<Rightarrow> 'j System" where
  "put_web w y = y\<lparr>sys_app := (sys_app y)\<lparr>app_web := w\<rparr>\<rparr>"

definition put_peers :: "PeerManager \<Rightarrow> 'j System \<Rightarrow> 'j System" where
  "put_peers m y = y\<lparr>sys_app := (sys_app y)\<lparr>app_peers := m\<rparr>\<rparr>"

lemma put_simps [simp]:
  "sys_node (put_node s y) = s" "sys_thread (put_node s y) = sys_thread y" "app_peers (sys_app (put_node s y)) = app_peers (sys_app y)"
  "sys_round (put_node s y) = sys_round y" "sys_joining (put_node s y) = sys_joining y"
  "app_web (sys_app (put_web w y)) = w" "app_peers (sys_app (put_web w y)) = app_peers (sys_app y)"
  "sys_round (put_web w y) = sys_round y" "sys_joining (put_web w y) = sys_joining y"
  "app_web (sys_app (put_peers m y)) = app_web (sys_app y)" "app_peers (sys_app (put_peers m y)) = m"
  "sys_round (put_peers m y) = sys_round y" "sys_joining (put_peers m y) = sys_joining y"
  by (simp_all add: put_node_def put_web_def put_peers_def)

text \<open>A message on the chain endpoint: what the handler answers goes out on the connection of its proxy.\<close>

definition chain_handler ::
  "cryptopp \<Rightarrow> ('j, 'b) json_wire_scheme \<Rightarrow> bool \<Rightarrow> MinerApp \<Rightarrow> ConnectionProxy \<Rightarrow> string \<Rightarrow> (sent \<times> MinerApp) result" where
  "chain_handler cp W reset_enable s proxy raw =
     rbind (onChainMessage cp W reset_enable raw s) (\<lambda>(texts, s').
     rbind (rmap (proxy_send proxy) texts) (\<lambda>outs. Ok (concat outs, s')))"

text \<open>The end of a round with the broadcast of the announcement.\<close>

definition finish_round ::
  "cryptopp \<Rightarrow> ('j, 'b) json_lib_scheme \<Rightarrow> ResultType \<Rightarrow> Block \<Rightarrow> PeerManager \<Rightarrow> MinerApp \<Rightarrow> (sent \<times> MinerApp) result" where
  "finish_round cp J r b m s =
     rbind (mine_end cp J r b s) (\<lambda>(texts, s').
     rbind (rmap (\<lambda>msg. broadcast msg m) texts) (\<lambda>outs. Ok (concat outs, s')))"

text \<open>The two halves of the handler of \<^verbatim>\<open>/rest/stopMining\<close>: the request to stop, and what follows the join.\<close>

definition stop_asked :: "'j WebApp \<Rightarrow> 'j WebApp" where
  "stop_asked w = w\<lparr>wa_node := stopMining (wa_node w)\<rparr>"

definition stop_joined :: "'j WebApp \<Rightarrow> HttpResponse list \<times> 'j WebApp" where
  "stop_joined w = ([write_both 200 ''OK''], w\<lparr>wa_mineThread := False\<rparr>)"

text \<open>Together they are the handler; the steps of the other threads between them are what \<open>ends\<close> stands for.\<close>

lemma stop_halves:
  "\<not> miningDone (wa_node w) \<Longrightarrow> wa_mineThread w
    \<Longrightarrow> get_stopMining ends w = map_option (\<lambda>s. stop_joined ((stop_asked w)\<lparr>wa_node := s\<rparr>)) (ends (wa_node (stop_asked w)))"
  by (simp add: stop_joined_def stop_asked_def get_stopMining_def join_mining_def option.map_comp comp_def)

subsection \<open>Steps\<close>

text \<open>
  The guards of the rounds and of the messages are those of \<open>Ash_Run\<close>. The setting \<^verbatim>\<open>chain.reset.enable\<close> is
  registered as a boolean, so reading it succeeds. Requests that only read are no steps.
\<close>

inductive sys_step ::
  "cryptopp \<Rightarrow> hash_lib \<Rightarrow> boost_lib \<Rightarrow> ('j, 'b) json_rest_scheme \<Rightarrow> bool \<Rightarrow> 'j System \<Rightarrow> (nat \<times> string) list \<Rightarrow> 'j System \<Rightarrow> bool"
  for cp :: cryptopp and H :: hash_lib and B :: boost_lib and W :: "('j, 'b) json_rest_scheme" and release :: bool where
  round_begins: "sys_thread y \<Longrightarrow> \<not> miningDone (sys_node y) \<Longrightarrow> \<not> app_done (sys_node y) \<Longrightarrow> sys_round y = None
    \<Longrightarrow> mine_begin cp W release now (sys_node y) = Ok (nb, s')
    \<Longrightarrow> sys_step cp H B W release y [] ((put_node s' y)\<lparr>sys_round := Some nb\<rparr>)"
| round_ends: "sys_round y = Some nb \<Longrightarrow> mineBlock cp W (app_miner (sys_node y)) env nb = Some (Ok (r, b)) \<Longrightarrow> keep_stable env
    \<Longrightarrow> block_storable b \<Longrightarrow> no_collision (sys_node y) nb \<Longrightarrow> finish_round cp W r b (app_peers (sys_app y)) (sys_node y) = Ok (out, s')
    \<Longrightarrow> length (blocks (blockchain (sys_node y))) + 1 < 2 ^ 32 \<Longrightarrow> length (blocks (blockchain s')) < 2 ^ 32
    \<Longrightarrow> sys_step cp H B W release y out ((put_node s' y)\<lparr>sys_round := None\<rparr>)"
| server_message: "value_bool W ''chain.reset.enable'' False (wa_settings (app_web (sys_app y))) = Ok reset_enable
    \<Longrightarrow> server_on_message (chain_handler cp W reset_enable (sys_node y)) c raw = Ok (out, s') \<Longrightarrow> sound_message cp W raw
    \<Longrightarrow> length (blocks (blockchain s')) < 2 ^ 32
    \<Longrightarrow> sys_step cp H B W release y out (put_node s' y)"
| client_message: "map_of (pm_peers (app_peers (sys_app y))) peer = Some pd \<Longrightarrow> pd_worker pd
    \<Longrightarrow> value_bool W ''chain.reset.enable'' False (wa_settings (app_web (sys_app y))) = Ok reset_enable
    \<Longrightarrow> client_on_message (chain_handler cp W reset_enable (sys_node y)) c raw = Ok (out, s') \<Longrightarrow> sound_message cp W raw
    \<Longrightarrow> length (blocks (blockchain s')) < 2 ^ 32
    \<Longrightarrow> sys_step cp H B W release y out (put_node s' y)"
| payment: "\<not> sys_joining y \<Longrightarrow> post_createtx cp H B W rq (app_web (sys_app y)) = Ok (resp, w)
    \<Longrightarrow> sys_step cp H B W release y [] (put_web w y)"
| start_request: "\<not> sys_joining y \<Longrightarrow> get_startMining (app_web (sys_app y)) = Ok (resp, w)
    \<Longrightarrow> sys_step cp H B W release y [] (put_web w y)"
| stop_request: "\<not> sys_joining y \<Longrightarrow> \<not> miningDone (sys_node y)
    \<Longrightarrow> sys_step cp H B W release y [] ((put_web (stop_asked (app_web (sys_app y))) y)\<lparr>sys_joining := True\<rparr>)"
| stop_returns: "sys_joining y \<Longrightarrow> sys_round y = None \<Longrightarrow> stop_joined (app_web (sys_app y)) = (resp, w)
    \<Longrightarrow> sys_step cp H B W release y [] ((put_web w y)\<lparr>sys_joining := False\<rparr>)"
| shutdown_request: "\<not> sys_joining y \<Longrightarrow> get_shutdown (app_web (sys_app y)) = (resp, w)
    \<Longrightarrow> sys_step cp H B W release y [] (put_web w y)"
| peer_opened: "map_of (pm_peers (app_peers (sys_app y))) peer = Some pd \<Longrightarrow> pd_worker pd
    \<Longrightarrow> on_open peer c (app_peers (sys_app y)) = Ok (out, m) \<Longrightarrow> sys_step cp H B W release y out (put_peers m y)"
| peer_failed: "map_of (pm_peers (app_peers (sys_app y))) peer = Some pd \<Longrightarrow> pd_worker pd
    \<Longrightarrow> on_error peer (app_peers (sys_app y)) = Ok m \<Longrightarrow> sys_step cp H B W release y [] (put_peers m y)"
| peer_closed: "map_of (pm_peers (app_peers (sys_app y))) peer = Some pd \<Longrightarrow> pd_worker pd
    \<Longrightarrow> on_close peer (app_peers (sys_app y)) = Ok m \<Longrightarrow> sys_step cp H B W release y [] (put_peers m y)"
| peer_timer: "pm_started (app_peers (sys_app y)) \<Longrightarrow> privateRun release ec elapsed (app_peers (sys_app y)) = Some (delay, m)
    \<Longrightarrow> sys_step cp H B W release y [] (put_peers m y)"

text \<open>
  The threads: the mining thread exists while mining is not marked as done and while there is a round; a request waits
  for it only after it has been told to stop.
\<close>

definition threads_ok :: "'j System \<Rightarrow> bool" where
  "threads_ok y \<longleftrightarrow> (\<not> miningDone (sys_node y) \<or> sys_round y \<noteq> None \<or> sys_joining y \<longrightarrow> sys_thread y)
     \<and> (sys_joining y \<longrightarrow> miningDone (sys_node y))"

subsection \<open>The view of the node\<close>

lemma mine_begin_done: "mine_begin cp J release now s = Ok (nb, s') \<Longrightarrow> miningDone s' = miningDone s"
  by (auto simp: mine_begin_def Let_def rbind_Ok_iff)

lemma mine_end_done: "mine_end cp J r b s = Ok (sent, s') \<Longrightarrow> miningDone s \<longrightarrow> miningDone s'"
  by (auto simp: mine_end_def Let_def rbind_Ok_iff dest: sync_done split: if_splits)

lemma mine_end_exit: "mine_end cp J r b s = Ok (sent, s') \<Longrightarrow> app_done s' = app_done s"
  by (auto simp: mine_end_def Let_def rbind_Ok_iff dest: sync_exit split: if_splits)

lemma message_done:
  assumes "onChainMessage cp W reset_enable raw s = Ok (sent, s')"
  shows "miningDone s' = miningDone s"
proof -
  have "handleChainResponse W temp s = Ok (ts, s1) \<Longrightarrow> miningDone s1 = miningDone s" for temp ts s1
    by (auto simp: handleChainResponse_def Let_def rbind_Ok_iff split: if_splits)
  then show ?thesis using onChainMessage_cases [OF assms] by (auto simp: caches_def dest!: sync_done)
qed

lemma chain_handler_message:
  "chain_handler cp W reset_enable s proxy raw = Ok (out, s') \<Longrightarrow> \<exists>texts. onChainMessage cp W reset_enable raw s = Ok (texts, s')"
  by (auto simp: chain_handler_def rbind_Ok_iff)

lemma finish_round_end:
  "finish_round cp J r b m s = Ok (out, s') \<Longrightarrow> \<exists>texts. mine_end cp J r b s = Ok (texts, s')"
  by (auto simp: finish_round_def rbind_Ok_iff)

text \<open>A payment queues a transaction or changes nothing.\<close>

lemma post_createtx_effect:
  assumes "post_createtx cp H B W rq w = Ok (resp, w')"
  shows "w' = w \<or> (\<exists>tx. w' = w\<lparr>wa_node := (wa_node w)\<lparr>blockchain := queueTransaction tx (blockchain (wa_node w))\<rparr>\<rparr>)"
  using assms by (auto simp: post_createtx_def rbind_Ok_iff Let_def split: option.splits if_splits)

lemmas request_defs = get_startMining_def get_shutdown_def stop_asked_def stop_joined_def stopMining_def signalExit_def

lemma threads_step:
  assumes "sys_step cp H B W release y out y'" and "threads_ok y"
  shows "threads_ok y'"
  using assms
proof (induction rule: sys_step.induct)
  case (round_begins y now nb s')
  then show ?case by (auto simp: threads_ok_def dest: mine_begin_done)
next
  case (round_ends y nb env r b out s')
  then show ?case by (auto simp: threads_ok_def dest!: finish_round_end mine_end_done)
next
  case (server_message y reset_enable c raw out s')
  then show ?case by (auto simp: threads_ok_def server_on_message_def dest!: chain_handler_message message_done)
next
  case (client_message y peer pd reset_enable c raw out s')
  then show ?case by (auto simp: threads_ok_def client_on_message_def dest!: chain_handler_message message_done)
next
  case (payment y rq resp w)
  then show ?case by (auto simp: threads_ok_def dest!: post_createtx_effect)
qed (auto simp: threads_ok_def request_defs split: if_splits)

lemma node_view:
  assumes "sys_step cp H B W release y out y'" and "threads_ok y"
  shows "node_steps cp W release (sys_node y, sys_round y) (sys_node y', sys_round y')"
  using assms
proof (induction rule: sys_step.induct)
  case (round_begins y now nb s')
  then show ?case by (simp add: r_into_rtranclp node_step.begin_round)
next
  case (round_ends y nb env r b out s')
  then obtain texts where "mine_end cp W r b (sys_node y) = Ok (texts, s')" using finish_round_end by blast
  with round_ends have "node_step cp W release (sys_node y, Some nb) (s', None)" by (blast intro: node_step.end_round)
  with round_ends show ?case by (simp add: r_into_rtranclp)
next
  case (server_message y reset_enable c raw out s')
  then obtain texts where "onChainMessage cp W reset_enable raw (sys_node y) = Ok (texts, s')"
    unfolding server_on_message_def using chain_handler_message by blast
  then have "node_step cp W release (sys_node y, sys_round y) (s', sys_round y)"
    using server_message by (intro node_step.message)
  then show ?case by (simp add: r_into_rtranclp)
next
  case (client_message y peer pd reset_enable c raw out s')
  then obtain texts where "onChainMessage cp W reset_enable raw (sys_node y) = Ok (texts, s')"
    unfolding client_on_message_def using chain_handler_message by blast
  then have "node_step cp W release (sys_node y, sys_round y) (s', sys_round y)"
    using client_message by (intro node_step.message)
  then show ?case by (simp add: r_into_rtranclp)
next
  case (payment y rq resp w)
  from post_createtx_effect [OF payment(2)] show ?case
  proof (elim disjE exE)
    fix tx assume "w = (app_web (sys_app y))\<lparr>wa_node := (sys_node y)\<lparr>blockchain := queueTransaction tx (blockchain (sys_node y))\<rparr>\<rparr>"
    then show ?thesis using node_step.queue_tx [of cp W release "sys_node y" "sys_round y" tx] by (simp add: r_into_rtranclp)
  qed simp
next
  case (start_request y resp w)
  then show ?case
    by (auto simp: get_startMining_def threads_ok_def intro!: r_into_rtranclp node_step.start split: if_splits)
next
  case (stop_request y)
  then show ?case by (simp add: stop_asked_def r_into_rtranclp node_step.stop)
next
  case (stop_returns y resp w)
  then show ?case by (auto simp: stop_joined_def)
next
  case (shutdown_request y resp w)
  then show ?case
    using node_step.exit [of cp W release "sys_node y" "sys_round y"] by (auto simp: get_shutdown_def dest: r_into_rtranclp)
qed simp_all

subsection \<open>The view of the peers\<close>

lemma peers_view:
  assumes "sys_step cp H B W release y out y'"
  shows "(peer_step B release)\<^sup>*\<^sup>* (app_peers (sys_app y)) (app_peers (sys_app y'))"
  using assms
proof (induction rule: sys_step.induct)
  case (peer_opened y peer pd c out m)
  then show ?case by (auto intro: r_into_rtranclp opened)
next
  case (peer_failed y peer pd m)
  then show ?case by (auto intro: r_into_rtranclp failed)
next
  case (peer_closed y peer pd m)
  then show ?case by (auto intro: r_into_rtranclp closed)
next
  case (peer_timer y ec elapsed delay m)
  then show ?case by (auto intro: r_into_rtranclp timer)
qed simp_all

interpretation nodes: step_simulation "sys_step cp H B W release" "node_step cp W release" "\<lambda>y. (sys_node y, sys_round y)" threads_ok
  for cp :: cryptopp and H :: hash_lib and B :: boost_lib and W :: "('j, 'b) json_rest_scheme" and release :: bool
  by unfold_locales (blast intro: threads_step node_view)+

interpretation tables: step_simulation "sys_step cp H B W release" "peer_step B release" "\<lambda>y. app_peers (sys_app y)" "\<lambda>y. True"
  for cp :: cryptopp and H :: hash_lib and B :: boost_lib and W :: "('j, 'b) json_rest_scheme" and release :: bool
  by unfold_locales (auto intro: peers_view)

subsection \<open>The start\<close>

text \<open>The table of peers after the start is one the peer manager can reach, and the threads are as they should be.\<close>

lemma setup_peers:
  assumes "setup_servers B J E files a = Some (Ok a1)" and "\<not> pm_started (app_peers a)"
  shows "(peer_step B (se_release E))\<^sup>*\<^sup>* (app_peers a) (app_peers a1)"
proof -
  from assms(1) obtain hp port where
    i: "initPeers B J E files (a\<lparr>app_http_port := hp, app_peers := initWebSocketServer port (app_peers a)\<rparr>) = Some (Ok a1)"
    by (auto simp: setup_servers_def obind_Ok_iff initHttp_def initWebSocket_def rbind_Ok_iff)
  have l: "peer_step B (se_release E) (app_peers a) (initWebSocketServer port (app_peers a))" by (rule listen)
  have ns: "\<not> pm_started (initWebSocketServer port (app_peers a))" using assms(2) by (simp add: initWebSocketServer_def)
  obtain pf where pf: "value_string J ''peers.file'' [] (wa_settings (app_web a)) = Ok pf"
    using i by (auto simp: initPeers_def obind_Ok_iff)
  show ?thesis
  proof (cases "pf = []")
    case True
    with i pf l show ?thesis by (auto simp: initPeers_def)
  next
    case False
    with i pf obtain ps where ps: "loadPeers B (files pf) (initWebSocketServer port (app_peers a)) = Ok ps"
      and "\<exists>m. connectAll (se_release E) ask_summary ps = Some m \<and> app_peers a1 = m"
      by (auto simp: initPeers_def obind_Ok_iff)
    then have co: "connectAll (se_release E) ask_summary ps = Some (app_peers a1)" by blast
    have "\<not> pm_started ps" using ns ps by (auto simp: loadPeers_def rbind_Ok_iff split: option.splits)
    then have c: "peer_step B (se_release E) ps (app_peers a1)" using co by (rule connect)
    have "peer_step B (se_release E) (initWebSocketServer port (app_peers a)) ps" by (rule load [OF ns ps])
    with l c show ?thesis using rtranclp.rtrancl_into_rtrancl [OF rtranclp.rtrancl_into_rtrancl [OF r_into_rtranclp]] by metis
  qed
qed

lemma run_peers:
  assumes "run cp B J E files (fresh_app E S uid db) = Some (Ok (Running a))"
  shows "(peer_step B (se_release E))\<^sup>*\<^sup>* (new_PeerManager (se_release E)) (app_peers a)" and "threads_ok (started_system a)"
proof -
  let ?f = "fresh_app E S uid db"
  obtain addr a1 c db' where a1: "setup_servers B J E files (with_node ((wa_node (app_web ?f))\<lparr>rewardAddress := addr\<rparr>) ?f) = Some (Ok a1)"
    and a: "start_threads J E (with_node ((wa_node (app_web ?f))\<lparr>rewardAddress := addr, blockchain := c, database := db'\<rparr>) a1) = Ok a"
    by (rule run_Running [OF assms]) simp
  have "app_peers a = app_peers a1" by (rule start_threads_Ok [OF a]) simp
  moreover have "app_peers ?f = new_PeerManager (se_release E)" "\<not> pm_started (app_peers ?f)"
    by (simp_all add: fresh_app_def new_PeerManager_def)
  ultimately show "(peer_step B (se_release E))\<^sup>*\<^sup>* (new_PeerManager (se_release E)) (app_peers a)"
    using setup_peers [OF a1] by simp
  show "threads_ok (started_system a)"
    using run_node [OF assms] by (auto simp: threads_ok_def started_system_def)
qed

lemma system_inv:
  assumes start: "run cp B J E files (fresh_app E S uid db) = Some (Ok (Running a))"
    and gen: "sound_file (genesisBlock cp J (se_now E) (se_gendata E) (wa_node (app_web a))) (dbfile db)"
    and tr: "traces (sys_step cp H B J (se_release E)) (started_system a) outs y"
  shows "node_inv cp J (sys_node y, sys_round y)" and "threads_ok y" and "peers_ok (app_peers (sys_app y))"
proof -
  have th: "threads_ok (started_system a)" by (rule run_peers(2) [OF start])
  have "node_steps cp J (se_release E) (wa_node (app_web a), None) (sys_node y, sys_round y)"
    using nodes.run_view [OF tr th] by (simp add: started_system_def)
  then show "node_inv cp J (sys_node y, sys_round y)" by (rule node_steps_inv) (rule started_inv(1) [OF start gen])
  show "threads_ok y" by (rule nodes.run_inv [OF tr th])
  have "(peer_step B (se_release E))\<^sup>*\<^sup>* (app_peers a) (app_peers (sys_app y))"
    using tables.run_view [OF tr] by (simp add: started_system_def)
  with run_peers(1) [OF start] have "(peer_step B (se_release E))\<^sup>*\<^sup>* (new_PeerManager (se_release E)) (app_peers (sys_app y))" by simp
  then show "peers_ok (app_peers (sys_app y))" by (rule reachable_ok)
qed

text \<open>What a broadcast sends when the table of peers is in order.\<close>

definition connected_sends :: "string \<Rightarrow> PeerManager \<Rightarrow> sent" where
  "connected_sends msg m = map (\<lambda>(name, pd). (the (pd_connection pd), msg)) (filter (\<lambda>(name, pd). pd_state pd = CONNECTED) (pm_peers m))"

lemma broadcast_ok: "peers_ok m \<Longrightarrow> broadcast msg m = Ok (connected_sends msg m)"
  using broadcast_fold [OF peers_ok_all, of m msg "[]"] by (simp add: broadcast_def connected_sends_def)

subsection \<open>The end\<close>

text \<open>
  Once the program has been told to exit, it stays so, and no round begins: the mining thread finishes at most the round it is in.
\<close>

lemma message_exit:
  assumes "onChainMessage cp W reset_enable raw s = Ok (sent, s')"
  shows "app_done s' = app_done s"
proof -
  have "handleChainResponse W temp s = Ok (ts, s1) \<Longrightarrow> app_done s1 = app_done s" for temp ts s1
    by (auto simp: handleChainResponse_def Let_def rbind_Ok_iff split: if_splits)
  then show ?thesis using onChainMessage_cases [OF assms] by (auto simp: caches_def dest!: sync_exit)
qed

lemma exit_step:
  assumes "sys_step cp H B W release y out y'" and "app_done (sys_node y)"
  shows "app_done (sys_node y') \<and> sys_round y' \<in> {None, sys_round y}"
  using assms
proof (induction rule: sys_step.induct)
  case (round_ends y nb env r b out s')
  then show ?case by (auto dest!: finish_round_end mine_end_exit)
next
  case (server_message y reset_enable c raw out s')
  then show ?case by (auto simp: server_on_message_def dest!: chain_handler_message message_exit)
next
  case (client_message y peer pd reset_enable c raw out s')
  then show ?case by (auto simp: client_on_message_def dest!: chain_handler_message message_exit)
next
  case (payment y rq resp w)
  then show ?case by (auto dest!: post_createtx_effect)
qed (auto simp: request_defs split: if_splits)

lemma exit_run:
  assumes "traces (sys_step cp H B W release) y outs z" and "app_done (sys_node y)"
  shows "app_done (sys_node z) \<and> sys_round z \<in> {None, sys_round y}"
  using assms by (induction rule: traces.induct) (auto dest: exit_step)

text \<open>
  The destructor waits for the mining thread. Whatever steps the node takes until the round in progress has ended, the destructor
  then returns, no thread is left, and the chain is linked and stored.
\<close>

lemma shutdown_waits:
  assumes inv: "node_inv cp J (sys_node y, sys_round y)" "peers_ok (app_peers (sys_app y))"
    and waits: "ends (sys_node y) = Some s'" "node_steps cp J release (sys_node y, sys_round y) (s', None)"
  obtains a' where "destroy_MinerApp ends (sys_app y) = Some a'" and "\<not> wa_mineThread (app_web a')" and "\<not> app_http_running a'"
    and "\<forall>(name, pd) \<in> set (pm_peers (app_peers a')). \<not> pd_worker pd"
    and "wa_node (app_web a') = (if sys_thread y then s' else sys_node y)" and "\<exists>p. node_inv cp J (wa_node (app_web a'), p)"
proof -
  obtain a' where a': "destroy_MinerApp ends (sys_app y) = Some a'" using destroys(1) [OF inv(2), of ends] waits(1) by auto
  have node: "wa_node (app_web a') = (if sys_thread y then s' else sys_node y)"
    using destroys(2) [OF inv(2) a'] waits(1) by (auto split: if_splits)
  then have "\<exists>p. node_inv cp J (wa_node (app_web a'), p)" using inv(1) node_steps_inv [OF waits(2) inv(1)] by auto
  with that a' node destroys(2) [OF inv(2) a'] show ?thesis by blast
qed

subsection \<open>The loop of the mining thread\<close>

text \<open>
  What the \<open>k\<close>-th round sees: the clock, the search, and whether a request to stop the miner has arrived by its end.
  The loop is partial, since a search may not return.
\<close>

record round_env =
  re_now :: BlockTime
  re_search :: mine_env
  re_stop :: bool

partial_function (option) runMineThread ::
  "cryptopp \<Rightarrow> ('j, 'b) json_lib_scheme \<Rightarrow> bool \<Rightarrow> (nat \<Rightarrow> round_env) \<Rightarrow> nat \<Rightarrow> MinerApp \<Rightarrow> (string list \<times> MinerApp) result option" where
  "runMineThread cp J release rounds k s =
     (if miningDone s \<or> app_done s then Some (Ok ([], s))
      else Option.bind (mine_iteration cp J release (re_now (rounds k)) (re_search (rounds k)) s) (\<lambda>r.
           case r of Inl e \<Rightarrow> Some (Inl e)
           | Inr (out, s) \<Rightarrow>
               Option.bind (runMineThread cp J release rounds (Suc k) (if re_stop (rounds k) then stopMining s else s)) (\<lambda>r.
                 Some (rbind r (\<lambda>(outs, s). Ok (out @ outs, s))))))"

text \<open>
  Waiting for the mining thread at a time when no round is in progress. An exception in the thread ends the program, so that \<^verbatim>\<open>join\<close> does not
  return then either.
\<close>

definition loop_ends ::
  "cryptopp \<Rightarrow> ('j, 'b) json_lib_scheme \<Rightarrow> bool \<Rightarrow> (nat \<Rightarrow> round_env) \<Rightarrow> MinerApp \<Rightarrow> MinerApp option" where
  "loop_ends cp J release rounds s = (case runMineThread cp J release rounds 0 s of
       Some (Inr (out, s')) \<Rightarrow> Some s' | _ \<Rightarrow> None)"

lemma loop_ends_exit: "miningDone s \<or> app_done s \<Longrightarrow> loop_ends cp J release rounds s = Some s"
  by (simp add: loop_ends_def runMineThread.simps)

lemma mine_loop_returns: "\<not> env_keep env (k + d) \<Longrightarrow> \<exists>r. mine_loop cp J diff env b k non t h = Some r"
proof (induction d arbitrary: k non t h)
  case (Suc d)
  then have "\<exists>r. mine_loop cp J diff env b (Suc k) non t h = Some r" for non t h by simp
  then show ?case by (subst mine_loop.simps) (simp add: Let_def)
next
  case 0
  then show ?case by (subst mine_loop.simps) simp
qed

lemma mineBlock_returns: "\<not> env_keep env d \<Longrightarrow> mineBlock cp J m env b \<noteq> None"
  using mine_loop_returns [of env 0 d cp J "m_difficulty m" b 0 "env_start env" "attempt_hash cp J (m_difficulty m) b 0 (env_start env)"]
  by (auto simp: mineBlock_def Let_def split: option.splits)

lemma mine_iteration_returns:
  assumes "\<forall>m nb. mineBlock cp J m env nb \<noteq> None"
  obtains r where "mine_iteration cp J release now env s = Some r"
proof (cases "miningDone s \<or> app_done s")
  case False
  show ?thesis
  proof (cases "mine_begin cp J release now s")
    case (Inr x)
    obtain nb s1 where x: "x = (nb, s1)" by (cases x)
    obtain r where "mineBlock cp J (app_miner s1) env nb = Some r" using assms by blast
    with False Inr x that show ?thesis by (cases r) (auto simp: mine_iteration_def)
  qed (use False that in \<open>simp add: mine_iteration_def\<close>)
qed (use that in \<open>simp add: mine_iteration_def\<close>)

definition thread_ends :: "cryptopp \<Rightarrow> ('j, 'b) json_lib_scheme \<Rightarrow> bool \<Rightarrow> (nat \<Rightarrow> round_env) \<Rightarrow> nat \<Rightarrow> MinerApp \<Rightarrow> bool" where
  "thread_ends cp J release rounds k s \<longleftrightarrow> (case runMineThread cp J release rounds k s of
       None \<Rightarrow> False | Some (Inl e) \<Rightarrow> True | Some (Inr (out, s')) \<Rightarrow> miningDone s' \<or> app_done s')"

lemma thread_ended: "miningDone s \<or> app_done s \<Longrightarrow> thread_ends cp J release rounds k s"
  by (simp add: thread_ends_def runMineThread.simps)

lemma thread_ends_step:
  assumes "\<forall>m nb. mineBlock cp J m (re_search (rounds k)) nb \<noteq> None"
    and "\<And>s'. thread_ends cp J release rounds (Suc k) (if re_stop (rounds k) then stopMining s' else s')"
  shows "thread_ends cp J release rounds k s"
proof -
  obtain r where r: "mine_iteration cp J release (re_now (rounds k)) (re_search (rounds k)) s = Some r"
    by (rule mine_iteration_returns [OF assms(1)])
  show ?thesis
  proof (cases "miningDone s \<or> app_done s")
    case True
    then show ?thesis by (rule thread_ended)
  next
    case False
    show ?thesis
    proof (cases r)
      case (Inr x)
      obtain out s1 where x: "x = (out, s1)" by (cases x)
      define s2 where "s2 = (if re_stop (rounds k) then stopMining s1 else s1)"
      have "thread_ends cp J release rounds (Suc k) s2" unfolding s2_def by (rule assms(2))
      with False r Inr x show ?thesis
        unfolding thread_ends_def
        by (subst runMineThread.simps) (simp add: s2_def [symmetric] rbind_def split: option.splits sum.splits prod.splits)
    qed (use False r in \<open>simp add: thread_ends_def runMineThread.simps\<close>)
  qed
qed

lemma thread_ends_from:
  assumes "\<forall>i \<le> d. \<forall>m nb. mineBlock cp J m (re_search (rounds (k + i))) nb \<noteq> None" and "re_stop (rounds (k + d))"
  shows "thread_ends cp J release rounds k s"
  using assms
proof (induction d arbitrary: k s)
  case 0
  have "thread_ends cp J release rounds (Suc k) (stopMining s')" for s' by (rule thread_ended) (simp add: stopMining_def)
  moreover have "\<forall>m nb. mineBlock cp J m (re_search (rounds k)) nb \<noteq> None" and st: "re_stop (rounds k)"
    using 0 by (metis add.right_neutral le0)+
  ultimately show ?case by - (rule thread_ends_step, assumption, simp only: st if_True)
next
  case (Suc d)
  have "thread_ends cp J release rounds (Suc k) s'" for s'
  proof (rule Suc.IH)
    show "\<forall>i \<le> d. \<forall>m nb. mineBlock cp J m (re_search (rounds (Suc k + i))) nb \<noteq> None"
      using Suc.prems(1) by (metis add_Suc add_Suc_right Suc_le_mono)
  qed (use Suc.prems(2) in simp)
  moreover have "\<forall>m nb. mineBlock cp J m (re_search (rounds k)) nb \<noteq> None"
    using Suc.prems(1) by (metis add.right_neutral le0)
  ultimately show ?case by - (rule thread_ends_step)
qed

text \<open>
  C27: the mining thread can be joined. Whatever state it starts in, if a request to stop arrives in round \<open>n\<close>, the searches of
  the rounds before return, and in round \<open>n\<close> some load of the flag sees that it was cleared, then the loop ends: with an
  exception of one of its steps, or with mining marked as done or the program told to exit.
\<close>

theorem mining_thread_stops:
  assumes "\<forall>i < n. \<forall>m nb. mineBlock cp J m (re_search (rounds i)) nb \<noteq> None"
    and "re_stop (rounds n)" and "\<not> env_keep (re_search (rounds n)) d"
  shows "\<exists>r. runMineThread cp J release rounds 0 s = Some r \<and> (\<forall>out s'. r = Ok (out, s') \<longrightarrow> miningDone s' \<or> app_done s')"
proof -
  have "mineBlock cp J m (re_search (rounds i)) nb \<noteq> None" if "i \<le> n" for i m nb
    using assms(1) mineBlock_returns [OF assms(3)] that by (cases "i = n") auto
  then have "thread_ends cp J release rounds 0 s" using assms(2) by (intro thread_ends_from [of n]) simp_all
  then show ?thesis by (auto simp: thread_ends_def split: option.splits sum.splits)
qed

theorem mining_thread_stops_witness:
  "\<exists>r. runMineThread sample_cp jval_lib False (\<lambda>k. \<lparr>re_now = 7, re_search = sample_env\<lparr>env_keep := \<lambda>j. j < 3\<rparr>, re_stop = True\<rparr>) 0 sample_node = Some r
     \<and> (\<forall>out s'. r = Ok (out, s') \<longrightarrow> miningDone s' \<or> app_done s')"
  by (rule mining_thread_stops [where n = 0 and d = 3]) simp_all

subsection \<open>A request to stop that gets lost\<close>

text \<open>
  \<^verbatim>\<open>mineBlock\<close> sets its flag before the loop. A request to stop that clears the flag between the test of the mining
  thread and that assignment has no effect: every load yields true. If no attempt succeeds, the search does not return,
  the mining thread does not see that mining is done, and the request waits for it forever.
\<close>

lemma mine_loop_diverges:
  assumes "\<forall>k. env_keep env k \<and> env_callback env k" and "\<forall>non t. \<not> zeros_prefix diff (attempt_hash cp J diff b non t)"
    and "\<not> zeros_prefix diff h"
  shows "mine_loop cp J diff env b k non t h = None"
proof (cases "mine_loop cp J diff env b k non t h")
  case (Some r)
  have "(\<forall>k. env_keep env k \<and> env_callback env k) \<longrightarrow> (\<forall>non t. \<not> zeros_prefix diff (attempt_hash cp J diff b non t))
      \<longrightarrow> zeros_prefix diff h"
  proof (rule mine_loop.raw_induct [where P = "\<lambda>cp J diff env b k non t h r. (\<forall>k. env_keep env k \<and> env_callback env k)
      \<longrightarrow> (\<forall>non t. \<not> zeros_prefix diff (attempt_hash cp J diff b non t)) \<longrightarrow> zeros_prefix diff h", OF _ Some], goal_cases)
    case (1 f cp J diff env b k non t h r)
    let ?t' = "if non AND 0x3ffff = 0 then env_clock env k else t"
    show ?case
    proof (intro impI, rule ccontr)
      assume go: "\<forall>k. env_keep env k \<and> env_callback env k" and hard: "\<forall>non t. \<not> zeros_prefix diff (attempt_hash cp J diff b non t)"
        and "\<not> zeros_prefix diff h"
      with 1(2) have "f cp J diff env b (Suc k) (non + 1) ?t' (attempt_hash cp J diff b (non + 1) ?t') = Some r"
        by (simp add: Let_def)
      from 1(1) [OF this] go hard show False by blast
    qed
  qed
  with assms show ?thesis by blast
qed simp

theorem lost_abort:
  assumes "\<forall>k. env_keep env k \<and> env_callback env k"
    and "\<forall>non t. \<not> zeros_prefix (m_difficulty m) (attempt_hash cp J (m_difficulty m) nb non t)"
    and "index nb > 0" and "previousHash nb \<noteq> []"
  shows "mineBlock cp J m env nb = None"
  using assms mine_loop_diverges [OF assms(1,2)] by (simp add: mineBlock_def Let_def)

end
