(* ===== verification/Ash_Network.thy ===== *)
theory Ash_Network
  imports Ash_System Ash_Forks
begin

section \<open>How a new block travels\<close>

text \<open>
  Several nodes composed: a node mines a block and announces it to its connected peers; a peer that hears of it asks for a
  summary and then for the blocks it lacks. An idle peer adopts them at once; a peer that is mining keeps them, its search is
  told to stop, and it adopts them at the end of its round without losing the transactions it was about to mine.
  As in \<open>Ash_Protocol\<close>, the JSON library is assumed to read back the texts of the exchange.
\<close>

subsection \<open>The announcement\<close>

definition announce_body :: "('j, 'b) json_lib_scheme \<Rightarrow> Block \<Rightarrow> u64 \<Rightarrow> 'j" where
  "announce_body J b cum = set_all J [(''message'', j_of_string J ''newblock''), (''message-type'', j_of_string J ''request''),
     (''block'', Block_to_json J b), (''cumdiff'', j_of_u64 J cum)]"

lemma announce_eq:
  "blocks (blockchain s) \<noteq> [] \<Longrightarrow> cumDifficulty (blockchain s) = Ok cum
    \<Longrightarrow> broadcastNewBlock J s = Ok (j_dump J (announce_body J (last (blocks (blockchain s))) cum))"
  by (simp add: broadcastNewBlock_def announce_body_def chain_back_def vec_back_def)

text \<open>A node with less work that hears of a block asks for a summary.\<close>

lemma hear_announcement:
  assumes lib: "json_library W" and cum: "cumDifficulty (blockchain s) = Ok d" "d < cum"
    and parse: "j_parse W raw = Some (announce_body W b cum)"
  shows "onChainMessage cp W reset_enable raw s = Ok ([j_dump W (tagged W ''summary'' ''request'' (j_null W))], s)"
proof -
  let ?j = "announce_body W b cum"
  have at: "j_at W ?j ''message'' = Ok (j_of_string W ''newblock'')" "j_at W ?j ''message-type'' = Ok (j_of_string W ''request'')"
    "j_at W ?j ''block'' = Ok (Block_to_json W b)" "j_at W ?j ''cumdiff'' = Ok (j_of_u64 W cum)"
    "j_contains W ?j ''message''" "j_contains W ?j ''message-type''"
    unfolding announce_body_def by (simp_all add: json_library.at_set_all [OF lib] json_library.contains_set_all [OF lib])
  have "sendRequest W ''summary'' = Ok (j_dump W (tagged W ''summary'' ''request'' (j_null W)))"
    by (simp add: sendRequest_def sendMessage_def tagged_def Let_def)
  then show ?thesis
    using cum(2)
    by (simp add: onChainMessage_def parse at at_get_def json_library.get_string [OF lib] dispatchRequest_def
        json_library.Block_json [OF lib] json_library.get_u64 [OF lib] cum(1) Let_def)
qed

subsection \<open>Work\<close>

text \<open>A longer chain has more work, as long as the sum fits 64 bits.\<close>

definition work_fits :: "Block list \<Rightarrow> bool" where
  "work_fits bs \<longleftrightarrow> length bs < 2 ^ 64 \<and> list_all (\<lambda>b. unat (difficulty b) < 64) (butlast bs)
     \<and> (\<Sum>b\<leftarrow>butlast bs. 2 ^ unat (difficulty b)) < (2::nat) ^ 64"

lemma work_fits_prefix: "work_fits (bs @ ext) \<Longrightarrow> work_fits bs"
  by (cases "ext = []"; cases bs rule: rev_cases) (auto simp: work_fits_def butlast_append)

lemma work_grows:
  assumes "work_fits (bs @ ext)" and "bs \<noteq> []" and "ext \<noteq> []" and "blocks c = bs" and "blocks c' = bs @ ext"
  obtains w w' where "cumDifficulty c = Ok w" and "cumDifficulty c' = Ok w'" and "w < w'"
proof -
  obtain w where w: "cumDifficulty c = Ok w" "unat w = (\<Sum>b\<leftarrow>butlast bs. 2 ^ unat (difficulty b))"
    using cumDifficulty_exact [of c] work_fits_prefix [OF assms(1)] assms(2,4) by (auto simp: work_fits_def list_all_iff)
  obtain w' where w': "cumDifficulty c' = Ok w'" "unat w' = (\<Sum>b\<leftarrow>butlast (bs @ ext). 2 ^ unat (difficulty b))"
    using cumDifficulty_exact [of c'] assms(1,2,5) by (auto simp: work_fits_def list_all_iff)
  have "butlast (bs @ ext) = butlast bs @ last bs # butlast ext" using assms(2,3) by (simp add: butlast_append)
  then have "unat w < unat w'" unfolding w(2) w'(2) by simp
  with w w' that show ?thesis by (simp add: word_less_nat_alt)
qed

subsection \<open>The end of a successful round\<close>

lemma cumDifficulty_cong: "blocks c = blocks c' \<Longrightarrow> cumDifficulty c = cumDifficulty c'"
  by (simp add: cumDifficulty_def cumDifficulty_to_def chain_size_def)

text \<open>The block is appended and stored, and every connected peer is told about it.\<close>

lemma round_announces:
  assumes inv: "node_inv cp J (s, Some nb)" and go: "\<not> miningDone s" and none: "tempchain s = None"
    and mined: "mineBlock cp J (app_miner s) env nb = Some (Ok (MINE_SUCCESS, b))" "keep_stable env" "block_storable b"
    and len: "length (blocks (blockchain s)) + 1 < 2 ^ 32"
    and cum: "cumDifficulty (empty_Blockchain\<lparr>blocks := blocks (blockchain s) @ [b]\<rparr>) = Ok cum" and m: "peers_ok m"
  obtains s' where "finish_round cp J MINE_SUCCESS b m s = Ok (connected_sends (j_dump J (announce_body J b cum)) m, s')"
    and "blocks (blockchain s') = blocks (blockchain s) @ [b]" and "node_inv cp J (s', None)" and "ValidHash cp J b"
proof -
  let ?s = "s\<lparr>blockchain := (blockchain s)\<lparr>blocks := blocks (blockchain s) @ [b]\<rparr>, database := db_write b (database s)\<rparr>"
  note ms = mineBlock_success [OF mined(1,2)]
  then have "built_on s b" using inv go by (auto simp: setMinedData_def node_inv_def built_on_def)
  note app = appended_inv [OF inv this ms(1) mined(3) len]
  have "cumDifficulty (blockchain ?s) = Ok cum" using cum by (subst cumDifficulty_cong) simp_all
  then have ann: "broadcastNewBlock J ?s = Ok (j_dump J (announce_body J b cum))" by (simp add: announce_eq)
  have "mine_end cp J MINE_SUCCESS b s = Ok ([j_dump J (announce_body J b cum)], ?s)"
    using app(1) none ann by (simp add: mine_end_def sync_none)
  then have "finish_round cp J MINE_SUCCESS b m s = Ok (connected_sends (j_dump J (announce_body J b cum)) m, ?s)"
    by (simp add: finish_round_def broadcast_ok [OF m])
  then show ?thesis using that app(2) ms(1) by simp
qed

text \<open>A node that was sent the blocks it lacks takes them over, at once or at the end of its round.\<close>

lemma appends_received:
  assumes inv: "node_inv cp J (s, p)" "in_round s p txs" and lk: "chain_linked cp J (blocks (blockchain s) @ ext)"
    and ext: "ext \<noteq> []" "list_all (\<lambda>b. ValidHash cp J b \<and> block_storable b) ext" and len: "length (blocks (blockchain s) @ ext) < 2 ^ 32"
  obtains s' where "sync_if_idle cp J ([], received ext s) = Ok ([], s')"
    and "adopts cp J p (txQueue (blockchain s) @ requeued p txs) (blocks (blockchain s) @ ext) s'"
proof -
  let ?bs = "blocks (blockchain s)"
  have ok: "chain_ok cp J (blockchain s)" and ne: "?bs \<noteq> []" using inv(1) by (simp_all add: node_inv_def chain_ok_def)
  have links: "linked cp J (last ?bs) (hd ext)" "chain_linked cp J ext" using lk by (simp_all add: chain_linked_append [OF ne ext(1)])
  then have "index (hd ext) = index (last ?bs) + 1" and prev: "previousHash (hd ext) = hash (?bs ! (length ?bs - 1))"
    using ne by (simp_all add: linked_def last_conv_nth)
  then have idx: "index (hd ext) = of_nat (length ?bs)" using chain_ok_last(3) [OF ok] by (metis of_nat_unat ucast_id)
  have "0 < length ?bs" "length ?bs < length ?bs + length ext" "length ?bs + length ext < 2 ^ 32" using ne ext(1) len by simp_all
  from takes_over [OF inv links(2) ext idx this(1) le_refl prev this(2,3)] that show ?thesis by (metis take_all le_refl)
qed

subsection \<open>From the miner to its peers\<close>

text \<open>The whole exchange, up to what the peer does with the blocks.\<close>

lemma announcement_exchange:
  assumes lib: "json_library W" and A: "node_inv cp W (a, None)" "blocks (blockchain a) = blocks (blockchain b) @ ext" "ext \<noteq> []"
    and B: "chain_ok cp W (blockchain b)" "tempchain b = None" "1 < length (blocks (blockchain b))"
    and work: "work_fits (blocks (blockchain a))" and cum: "cumDifficulty (blockchain a) = Ok cum"
    and id1: "id1 = of_nat (length (blocks (blockchain b)))"
    and range: "j_parse W (range_payload id1 (index (last (blocks (blockchain a))))) = Some (range_body W id1 (index (last (blocks (blockchain a)))))"
    and reads: "\<forall>j \<in> set (exchange_texts W (blocks (blockchain a)) ext cum id1). reads_back W j"
      "reads_back W (announce_body W (last (blocks (blockchain a))) cum)" "reads_back W (tagged W ''summary'' ''request'' (j_null W))"
  shows "\<exists>t0 t1 t2 t3. onChainMessage cp W reset_b (j_dump W (announce_body W (last (blocks (blockchain a))) cum)) b = Ok ([t0], b)
    \<and> onChainMessage cp W reset_a t0 a = Ok ([t1], a)
    \<and> onChainMessage cp W reset_b t1 b = Ok ([t2], b)
    \<and> onChainMessage cp W reset_a t2 a = Ok ([t3], a)
    \<and> onChainMessage cp W reset_b t3 b = sync_if_idle cp W ([], received ext b)"
proof -
  have a: "chain_ok cp W (blockchain a)" using A(1) by (simp add: node_inv_def)
  have ne: "blocks (blockchain b) \<noteq> []" using B(3) by auto
  obtain cb w' where "cumDifficulty (blockchain b) = Ok cb" "cumDifficulty (blockchain a) = Ok w'" "cb < w'"
    by (rule work_grows [OF work [unfolded A(2)] ne A(3) refl A(2)])
  then have cb: "cumDifficulty (blockchain b) = Ok cb" "cb < cum" using cum by simp_all
  let ?t0 = "j_dump W (tagged W ''summary'' ''request'' (j_null W))"
  have "onChainMessage cp W reset_b (j_dump W (announce_body W (last (blocks (blockchain a))) cum)) b = Ok ([?t0], b)"
    using reads(2) by (intro hear_announcement [OF lib cb]) (simp add: reads_back_def)
  moreover have "j_parse W ?t0 = Some (tagged W ''summary'' ''request'' (j_null W))" using reads(3) by (simp add: reads_back_def)
  note exchange_messages [OF lib B(1,2) a A(2,3) B(3) cb(1) cum cb(2) id1 this range reads(1), of reset_a reset_b]
  ultimately show ?thesis by blast
qed

text \<open>
  C4: a block that is mined reaches the peers. Let a node find a block while no other chain is waiting. Then the block is
  appended and the announcement goes out on the connection of every connected peer. Let such a peer have a part of the
  miner's chain of at least two blocks, the rest of which is valid. Handling the announcement and the four messages that follow, each by
  the code of the receiver, leaves the miner unchanged and hands over the missing blocks: a peer that is idle has the
  chain of the miner at once, in memory and in its file; for a peer that is mining, the callback ends the search, and at the end
  of its round it has the chain of the miner, in memory and in its file, and its queue holds the transactions it was mining.
\<close>

theorem new_block_propagates:
  assumes lib: "json_library W"
    and A: "node_inv cp W (a, Some nb)" "tempchain a = None" "peers_ok m" "\<not> miningDone a"
    and mined: "mineBlock cp W (app_miner a) env nb = Some (Ok (MINE_SUCCESS, blk))" "keep_stable env" "block_storable blk"
    and sizes: "length (blocks (blockchain a)) + 1 < 2 ^ 32" "work_fits (blocks (blockchain a) @ [blk])"
    and cum: "cumDifficulty (empty_Blockchain\<lparr>blocks := blocks (blockchain a) @ [blk]\<rparr>) = Ok cum"
    and conn: "(name, pd) \<in> set (pm_peers m)" "pd_state pd = CONNECTED" "pd_connection pd = Some c"
    and B: "node_inv cp W (b, p)" "tempchain b = None" "1 < length (blocks (blockchain b))"
      "blocks (blockchain a) = blocks (blockchain b) @ missing" "list_all (\<lambda>b. ValidHash cp W b \<and> block_storable b) missing"
      "in_round b p txs"
    and id1: "id1 = of_nat (length (blocks (blockchain b)))"
    and range: "j_parse W (range_payload id1 (index blk)) = Some (range_body W id1 (index blk))"
    and reads: "\<forall>j \<in> set (exchange_texts W (blocks (blockchain a) @ [blk]) (missing @ [blk]) cum id1). reads_back W j"
      "reads_back W (announce_body W blk cum)" "reads_back W (tagged W ''summary'' ''request'' (j_null W))"
  shows "\<exists>out a' msg t0 t1 t2 t3 b1. finish_round cp W MINE_SUCCESS blk m a = Ok (out, a')
    \<and> out = connected_sends msg m \<and> (c, msg) \<in> set out \<and> blocks (blockchain a') = blocks (blockchain a) @ [blk]
    \<and> onChainMessage cp W reset_b msg b = Ok ([t0], b) \<and> onChainMessage cp W reset_a t0 a' = Ok ([t1], a')
    \<and> onChainMessage cp W reset_b t1 b = Ok ([t2], b) \<and> onChainMessage cp W reset_a t2 a' = Ok ([t3], a')
    \<and> onChainMessage cp W reset_b t3 b = Ok ([], b1)
    \<and> adopts cp W p (txQueue (blockchain b) @ requeued p txs) (blocks (blockchain a')) b1"
proof -
  let ?ext = "missing @ [blk]" and ?msg = "j_dump W (announce_body W blk cum)"
  obtain a' where fin: "finish_round cp W MINE_SUCCESS blk m a = Ok (connected_sends ?msg m, a')"
    and a': "blocks (blockchain a') = blocks (blockchain a) @ [blk]" "node_inv cp W (a', None)" and v: "ValidHash cp W blk"
    by (rule round_announces [OF A(1,4,2) mined sizes(1) cum A(3)])
  have sent: "(c, ?msg) \<in> set (connected_sends ?msg m)"
    using conn by (force simp: connected_sends_def)
  have ok: "chain_ok cp W (blockchain b)" "in_step b" using B(1) by (simp_all add: node_inv_def)
  have ba: "blocks (blockchain a') = blocks (blockchain b) @ ?ext" by (simp add: a'(1) B(4))
  then have lk: "chain_linked cp W (blocks (blockchain b) @ ?ext)" and len: "length (blocks (blockchain b) @ ?ext) < 2 ^ 32"
    using a'(2) by (simp_all add: node_inv_def chain_ok_def)
  have good: "?ext \<noteq> []" "list_all (\<lambda>b. ValidHash cp W b \<and> block_storable b) ?ext" using B(5) v mined(3) by simp_all
  have "cumDifficulty (blockchain a') = Ok cum" using cum a'(1) by (subst cumDifficulty_cong) simp_all
  then obtain t0 t1 t2 t3 where ex: "onChainMessage cp W reset_b ?msg b = Ok ([t0], b)" "onChainMessage cp W reset_a t0 a' = Ok ([t1], a')"
    "onChainMessage cp W reset_b t1 b = Ok ([t2], b)" "onChainMessage cp W reset_a t2 a' = Ok ([t3], a')"
    and fin_b: "onChainMessage cp W reset_b t3 b = sync_if_idle cp W ([], received ?ext b)"
    using announcement_exchange [OF lib a'(2) ba good(1) ok(1) B(2,3) _ _ id1, of cum reset_b reset_a] sizes(2) range reads
    by (auto simp: a'(1))
  obtain b1 where "sync_if_idle cp W ([], received ?ext b) = Ok ([], b1)"
    "adopts cp W p (txQueue (blockchain b) @ requeued p txs) (blocks (blockchain b) @ ?ext) b1"
    by (rule appends_received [OF B(1,6) lk good len])
  with fin sent a'(1) ex fin_b ba show ?thesis
    by (intro exI [of _ "connected_sends ?msg m"] exI [of _ a'] exI [of _ ?msg] exI [of _ t0] exI [of _ t1] exI [of _ t2] exI [of _ t3]
        exI [of _ b1]) simp
qed

subsection \<open>An example\<close>

lemma listed_announce:
  "announce_body (listed_wire p vs) = announce_body jval_lib" "exchange_texts (listed_wire p vs) = exchange_texts jval_lib"
  by (simp_all add: fun_eq_iff listed_fields listed_eq announce_body_def exchange_texts_def set_all_def
      push_all_def Block_to_json_def Transactions_to_json_def Transaction_to_json_def TxIns_to_json_def TxOuts_to_json_def
      TxIn_to_json_def TxOut_to_json_def TxOutPoint_to_json_def cong: option.case_cong)

definition sample_table :: PeerManager where
  "sample_table = (new_PeerManager False)\<lparr>pm_started := True, pm_peers := [(''ws://b'',
     (connecting False ''ws://b'' new_PeerData)\<lparr>pd_connection := Some 7, pd_state := CONNECTED\<rparr>)]\<rparr>"

lemma sample_table_ok: "peers_ok sample_table"
  by (simp add: peers_ok_def smap_ok_def sample_table_def new_PeerManager_def peer_ok_def connecting_def fresh_client_def)

definition sample_found :: Block where
  "sample_found = setMinedData 0 1 100 sample_hash sample_new"

lemma sample_search:
  "mineBlock sample_cp J \<lparr>m_difficulty = 1\<rparr> sample_env sample_new = Some (Ok (MINE_SUCCESS, sample_found))"
  using mine_from_sample [of 1 J sample_new]
  by (subst mineBlock_eq)
    (simp_all add: sample_env_def try_hash_def attempt_hash_def CalculateBlockHash_fields_def sample_hash_def sample_new_def sample_found_def)

lemma sample_found_facts:
  "block_storable sample_found" "index sample_found = 2" "keep_stable sample_env" "difficulty sample_found = 1"
  by (simp_all add: sample_found_def keep_stable_def setMinedData_def block_storable_def tx_storable_def txin_storable_def
      txout_storable_def point_storable_def short_def mk_TxIn_def mk_TxOut_def CreateCoinbaseTransaction_def empty_Transaction_def
      GetTransactionId_def sample_cp_def Let_def sample_new_def sample_hash_def sample_env_def)

lemma sample_mining: "node_inv sample_cp J (sample_node, Some sample_new)"
  using sample_node_ok [of J] sample_node_in_step
  by (simp add: node_inv_def temp_links_def built_on_def sample_new_def chain_size_def vec_size_def)

theorem new_block_propagates_witness:
  "\<exists>(W :: jval json_wire) a' msg b1 b2. finish_round sample_cp W MINE_SUCCESS sample_found sample_table sample_node = Ok ([(7, msg)], a')
     \<and> keepMiningCallback b1 2 = Ok False \<and> mine_end sample_cp W MINE_ABORT sample_new b1 = Ok ([], b2)
     \<and> blocks (blockchain b2) = blocks (blockchain a') \<and> length (blocks (blockchain b2)) = 3"
proof -
  let ?J = jval_lib and ?bs = "blocks (blockchain sample_node) @ [sample_found]"
  define p where "p = [range_payload 2 2 \<mapsto> range_body ?J 2 2]"
  define vs where "vs = exchange_texts ?J ?bs [sample_found] 4 2 @ [announce_body ?J sample_found 4, tagged ?J ''summary'' ''request'' (j_null ?J)]"
  define W where "W = listed_wire p vs"
  have lib: "json_library W" unfolding W_def by (rule json_library_listed)
  have "p (show_nat n) = None" for n using show_nat_not_brace [of n] by (auto simp: p_def range_payload_def)
  then have reads: "reads_back W j" if "j \<in> set vs" for j unfolding W_def using that by (intro reads_back_listed)
  have range: "j_parse W (range_payload 2 (index sample_found)) = Some (range_body W 2 (index sample_found))"
    by (simp add: W_def listed_fields(7) listed_eq p_def sample_found_facts)
  have cum: "cumDifficulty (empty_Blockchain\<lparr>blocks := ?bs\<rparr>) = Ok 4"
    by (simp add: cumDifficulty_def cumDifficulty_to_def chain_size_def vec_size_def pow2_u64_def)
  have fits: "work_fits ?bs" by (simp add: work_fits_def)
  have sent: "connected_sends msg sample_table = [(7, msg)]" for msg by (simp add: connected_sends_def sample_table_def)
  have round: "in_round sample_node (Some sample_new) []"
    by (simp add: in_round_def sample_new_def)
  have search: "mineBlock sample_cp W (app_miner sample_node) sample_env sample_new = Some (Ok (MINE_SUCCESS, sample_found))"
    using sample_search [of W] by (simp add: sample_node_def)
  have len: "length (blocks (blockchain sample_node)) + 1 < 2 ^ 32" "1 < length (blocks (blockchain sample_node))"
    "blocks (blockchain sample_node) = blocks (blockchain sample_node) @ []" "(2 :: u64) = of_nat (length (blocks (blockchain sample_node)))" by simp_all
  let ?pd = "(connecting False ''ws://b'' new_PeerData)\<lparr>pd_connection := Some 7, pd_state := CONNECTED\<rparr>"
  have conn: "(''ws://b'', ?pd) \<in> set (pm_peers sample_table)" "pd_state ?pd = CONNECTED" "pd_connection ?pd = Some 7"
    by (simp_all add: sample_table_def)
  have rb: "\<forall>j \<in> set (exchange_texts W ?bs ([] @ [sample_found]) 4 2). reads_back W j" "reads_back W (announce_body W sample_found 4)"
    "reads_back W (tagged W ''summary'' ''request'' (j_null W))"
    using reads by (simp_all add: vs_def W_def listed_announce listed_eq listed_fields(1))
  have none: "tempchain sample_node = None" "\<not> miningDone sample_node" and all: "list_all (\<lambda>b. ValidHash sample_cp W b \<and> block_storable b) []" by simp_all
  from new_block_propagates [OF lib sample_mining none(1) sample_table_ok none(2) search sample_found_facts(3,1) len(1) fits cum conn sample_mining none(1)
      len(2,3) all round len(4) range rb, of False False]
  obtain a' msg b1 b2 where r: "finish_round sample_cp W MINE_SUCCESS sample_found sample_table sample_node = Ok (connected_sends msg sample_table, a')"
    "blocks (blockchain a') = ?bs" "keepMiningCallback b1 (index sample_new) = Ok False"
    "mine_end sample_cp W MINE_ABORT sample_new b1 = Ok ([], b2)" "blocks (blockchain b2) = blocks (blockchain a')"
    unfolding adopts_def option.case by blast
  have "index sample_new = 2" by (simp add: sample_new_def)
  with r show ?thesis
    unfolding sent by (intro exI [of _ W] exI [of _ a'] exI [of _ msg] exI [of _ b1] exI [of _ b2]) simp
qed

subsection \<open>Messages before the chain is loaded\<close>

text \<open>
  The web socket server runs and the peers are asked for their summary before \<^verbatim>\<open>run\<close> has loaded the chain. As long as the chain is
  empty, a request for a summary and the answer of a peer to that question both read outside an empty vector.
\<close>

lemma early_request:
  assumes lib: "json_library W" and "blocks (blockchain s) = []"
    and parse: "j_parse W raw = Some (tagged W ''summary'' ''request'' (j_null W))"
  shows "onChainMessage cp W reset_enable raw s = Err UndefinedBehaviour"
proof -
  have null: "j_type W (j_null W) \<in> {JT_null, JT_object}" by (simp add: json_library.type_null [OF lib])
  show ?thesis
    by (simp add: onChainMessage_def parse json_library.tagged_at [OF lib null] at_get_def json_library.get_string [OF lib]
        dispatchRequest_def chain_front_def vec_front_def assms(2) Let_def)
qed

lemma early_response:
  assumes lib: "json_library W" and "blocks (blockchain s) = []" and none: "tempchain s = None" and "bs \<noteq> []"
    and parse: "j_parse W raw = Some (tagged W ''summary'' ''response'' (summary_body W bs cum))"
  shows "onChainMessage cp W reset_enable raw s = Err UndefinedBehaviour"
proof -
  let ?j = "tagged W ''summary'' ''response'' (summary_body W bs cum)"
  have at: "j_at W ?j ''message'' = Ok (j_of_string W ''summary'')" "j_at W ?j ''message-type'' = Ok (j_of_string W ''response'')"
    "j_contains W ?j ''message''" "j_contains W ?j ''message-type''"
    unfolding summary_body_def using json_library.tagged_at [OF lib json_library.set_all_type [OF lib]] by simp_all
  have bl: "j_at W ?j ''blocks'' = Ok (push_all W (Block_to_json W) [hd bs, last bs])" "j_contains W ?j ''blocks''"
    and cu: "j_at W ?j ''cumdiff'' = Ok (j_of_u64 W cum)" "j_contains W ?j ''cumdiff''"
    unfolding summary_body_def using json_library.tagged_set_all [OF lib] by simp_all
  have "cumDifficulty (blockchain s) = Err UndefinedBehaviour"
    by (simp add: cumDifficulty_def cumDifficulty_to_def chain_size_def vec_size_def assms(2) unat_gt_0)
  then show ?thesis
    by (simp add: onChainMessage_def parse at at_get_def json_library.get_string [OF lib] handleResponse_def bl cu
        json_library.type_push_all [OF lib] json_library.items_push_all [OF lib] summary_response_def
        json_library.Block_json [OF lib] json_library.get_u64 [OF lib] none assms(2) Let_def)
qed

end
