(* ===== verification/Ash_Routes.thy ===== *)
theory Ash_Routes
  imports Ash_System
begin

section \<open>The routes of the web service\<close>

text \<open>
  The table of resources that \<^verbatim>\<open>initWebService\<close>, \<^verbatim>\<open>initRestService\<close> and \<^verbatim>\<open>initHttp\<close> of \<^verbatim>\<open>src/src/MinerApp.cpp\<close> register
  with the HTTP server: each has a regular expression for the path and a method. The server belongs to a
  library: it is only assumed to call the handler of some resource whose method fits and whose pattern matches the whole path, if
  there is one, with the groups of the match. The regular expressions are modelled with the backtracking of ECMAScript, so that a
  request goes all the way from its path to the handlers of \<open>Ash_Rest\<close>.
\<close>

subsection \<open>Regular expressions\<close>

text \<open>A set of characters: any but a line terminator, or some ranges.\<close>

datatype charset = AnyChar | Ranges "(char \<times> char) list"

fun in_charset :: "charset \<Rightarrow> char \<Rightarrow> bool" where
  "in_charset AnyChar c = (c \<noteq> CHR 0x0A \<and> c \<noteq> CHR 0x0D)"
| "in_charset (Ranges rs) c = list_ex (\<lambda>(lo, hi). lo \<le> c \<and> c \<le> hi) rs"

text \<open>
  The constructs the patterns use: literal text, a character of a set, repetition of a set (greedy or not, with a lower bound), sequence,
  alternative, option and numbered group. A pattern yields, in the order in which backtracking tries them, the groups and the
  rest of the text.
\<close>

datatype rx = Lit string | OneOf charset | Many bool nat charset | Cat rx rx | Alt rx rx | Maybe rx | Group nat rx

fun rx_run :: "rx \<Rightarrow> string \<Rightarrow> ((nat \<times> string) list \<times> string) list" where
  "rx_run (Lit l) s = (if take (length l) s = l then [([], drop (length l) s)] else [])"
| "rx_run (OneOf C) s = (case s of [] \<Rightarrow> [] | c # cs \<Rightarrow> if in_charset C c then [([], cs)] else [])"
| "rx_run (Many greedy m C) s =
     (let ns = [m ..< Suc (length (takeWhile (in_charset C) s))]
      in map (\<lambda>n. ([], drop n s)) (if greedy then rev ns else ns))"
| "rx_run (Cat r1 r2) s = concat (map (\<lambda>(g1, s1). map (\<lambda>(g2, s2). (g1 @ g2, s2)) (rx_run r2 s1)) (rx_run r1 s))"
| "rx_run (Alt r1 r2) s = rx_run r1 s @ rx_run r2 s"
| "rx_run (Maybe r) s = rx_run r s @ [([], s)]"
| "rx_run (Group i r) s = map (\<lambda>(g, s1). ((i, take (length s - length s1) s) # g, s1)) (rx_run r s)"

fun rx_groups :: "rx \<Rightarrow> nat" where
  "rx_groups (Cat r1 r2) = rx_groups r1 + rx_groups r2"
| "rx_groups (Alt r1 r2) = rx_groups r1 + rx_groups r2"
| "rx_groups (Maybe r) = rx_groups r"
| "rx_groups (Group i r) = Suc (rx_groups r)"
| "rx_groups r = 0"

text \<open>
  \<^verbatim>\<open>regex_match\<close>: the first way to match the whole text. The result has the text itself and every group, empty when it took
  no part in the match.
\<close>

definition rx_match :: "rx \<Rightarrow> string \<Rightarrow> string list option" where
  "rx_match r s = (case filter (\<lambda>(g, rest). rest = []) (rx_run r s) of
       [] \<Rightarrow> None
     | (g, rest) # _ \<Rightarrow> Some (s # map (\<lambda>i. case map_of g i of None \<Rightarrow> [] | Some t \<Rightarrow> t) [1 ..< Suc (rx_groups r)]))"

subsection \<open>The table\<close>

datatype route = R_style | R_common | R_index | R_block_idx | R_blocks_last | R_createWallet | R_startMining | R_stopMining
  | R_shutdown | R_post_createtx | R_summary | R_rest_block | R_unspent | R_rest_address | R_rest_tx
  | R_address | R_block | R_tx | R_createtx

definition all_routes :: "route list" where
  "all_routes = [R_style, R_common, R_index, R_block_idx, R_blocks_last, R_createWallet, R_startMining, R_stopMining,
     R_shutdown, R_post_createtx, R_summary, R_rest_block, R_unspent, R_rest_address, R_rest_tx, R_address, R_block, R_tx, R_createtx]"

definition digit_set :: charset where "digit_set = Ranges [(CHR ''0'', CHR ''9'')]"
definition index_set :: charset where "index_set = Ranges [(CHR ''0'', CHR ''9''), (CHR '','', CHR '','')]"
definition alnum_set :: charset where "alnum_set = Ranges [(CHR ''0'', CHR ''9''), (CHR ''a'', CHR ''z''), (CHR ''A'', CHR ''Z'')]"

definition argument :: "string \<Rightarrow> charset \<Rightarrow> rx" where
  "argument p C = Cat (Lit p) (Group 1 (Many True 1 C))"

definition asset :: "string \<Rightarrow> string \<Rightarrow> rx" where
  "asset name ext = Cat (Lit ''/'') (Cat (Many False 0 AnyChar) (Cat (Lit name) (Cat (OneOf AnyChar) (Lit ext))))"

fun route_pattern :: "route \<Rightarrow> rx" where
  "route_pattern R_style = asset ''style'' ''css''"
| "route_pattern R_common = asset ''common'' ''js''"
| "route_pattern R_index = Lit ''/''"
| "route_pattern R_block_idx = argument ''/block-idx/'' digit_set"
| "route_pattern R_blocks_last = argument ''/blocks/last/'' digit_set"
| "route_pattern R_createWallet = Lit ''/rest/createWallet''"
| "route_pattern R_startMining = Lit ''/rest/startMining''"
| "route_pattern R_stopMining = Lit ''/rest/stopMining''"
| "route_pattern R_shutdown = Lit ''/rest/shutdown''"
| "route_pattern R_post_createtx = Lit ''/rest/createtx''"
| "route_pattern R_summary = Lit ''/rest/summary''"
| "route_pattern R_rest_block = argument ''/rest/block/'' index_set"
| "route_pattern R_unspent = Cat (Lit ''/rest/unspent'') (Maybe (Alt (Many True 1 (Ranges [(CHR ''/'', CHR ''/'')]))
     (argument ''/'' alnum_set)))"
| "route_pattern R_rest_address = argument ''/rest/address/'' alnum_set"
| "route_pattern R_rest_tx = argument ''/rest/tx/'' alnum_set"
| "route_pattern R_address = argument ''/address/'' alnum_set"
| "route_pattern R_block = Cat (argument ''/block/'' index_set) (Maybe (Cat (Lit ''/'') (Group 2 (Lit ''json''))))"
| "route_pattern R_tx = argument ''/tx/'' alnum_set"
| "route_pattern R_createtx = Lit ''/createtx''"

definition route_method :: "route \<Rightarrow> string" where
  "route_method r = (if r = R_post_createtx then ''POST'' else ''GET'')"

text \<open>The resources that fit a request.\<close>

definition matching :: "string \<Rightarrow> string \<Rightarrow> route list" where
  "matching verb path = filter (\<lambda>r. route_method r = verb \<and> rx_match (route_pattern r) path \<noteq> None) all_routes"

text \<open>The handlers of \<open>Ash_Rest\<close>; those that only read leave the state alone.\<close>

definition read_only :: "HttpResponse list result \<Rightarrow> 'w \<Rightarrow> (HttpResponse list \<times> 'w) result option" where
  "read_only m w = Some (rbind m (\<lambda>out. Ok (out, w)))"

text \<open>
  What a handler gets from outside: the pages, the random key of a new wallet, and what becomes of the node until the mining thread
  returns.
\<close>

record serve_env =
  sv_pages :: page_env
  sv_exponent :: nat
  sv_validated :: bool
  sv_ends :: "MinerApp \<Rightarrow> MinerApp option"

text \<open>A handler does not return when it waits for a mining thread that never ends.\<close>

definition serve ::
  "cryptopp \<Rightarrow> hash_lib \<Rightarrow> boost_lib \<Rightarrow> ('j, 'b) json_rest_scheme \<Rightarrow> serve_env \<Rightarrow> route \<Rightarrow> HttpRequest \<Rightarrow> 'j WebApp
   \<Rightarrow> (HttpResponse list \<times> 'j WebApp) result option" where
  "serve cp H B J E r rq w = (case r of
       R_style \<Rightarrow> read_only (get_style J (sv_pages E) w) w
     | R_common \<Rightarrow> read_only (get_common_js J (sv_pages E) w) w
     | R_index \<Rightarrow> read_only (get_index B J (sv_pages E) w) w
     | R_block_idx \<Rightarrow> read_only (get_block_idx J rq w) w
     | R_blocks_last \<Rightarrow> read_only (get_blocks_last J rq w) w
     | R_createWallet \<Rightarrow> Some (Ok (get_createWallet cp J (sv_exponent E) (sv_validated E), w))
     | R_startMining \<Rightarrow> Some (get_startMining w)
     | R_stopMining \<Rightarrow> map_option Ok (get_stopMining (sv_ends E) w)
     | R_shutdown \<Rightarrow> Some (Ok (get_shutdown w))
     | R_post_createtx \<Rightarrow> Some (post_createtx cp H B J rq w)
     | R_summary \<Rightarrow> read_only (get_summary J w) w
     | R_rest_block \<Rightarrow> read_only (get_rest_block J rq w) w
     | R_unspent \<Rightarrow> read_only (get_unspent H J rq w) w
     | R_rest_address \<Rightarrow> read_only (get_address J rq w) w
     | R_rest_tx \<Rightarrow> read_only (get_tx J rq w) w
     | R_address \<Rightarrow> read_only (get_address_page B J (sv_pages E) rq w) w
     | R_block \<Rightarrow> read_only (get_block_page B J (sv_pages E) rq w) w
     | R_tx \<Rightarrow> read_only (get_tx_page B J (sv_pages E) rq w) w
     | R_createtx \<Rightarrow> read_only (get_createtx_page B J (sv_pages E) w) w)"

text \<open>
  A request: \<open>pick\<close> is the choice of the server among the resources that fit; without one, no handler is called.
\<close>

definition handle_http ::
  "(route list \<Rightarrow> route option) \<Rightarrow> cryptopp \<Rightarrow> hash_lib \<Rightarrow> boost_lib \<Rightarrow> ('j, 'b) json_rest_scheme \<Rightarrow> serve_env \<Rightarrow> string \<Rightarrow> string
   \<Rightarrow> (string \<Rightarrow> string option) \<Rightarrow> string \<Rightarrow> 'j WebApp \<Rightarrow> (HttpResponse list \<times> 'j WebApp) result option" where
  "handle_http pick cp H B J E verb path query content w = (case pick (matching verb path) of
       None \<Rightarrow> Some (Ok ([], w))
     | Some r \<Rightarrow> serve cp H B J E r
         \<lparr>rq_path = path, rq_match = (case rx_match (route_pattern r) path of None \<Rightarrow> [] | Some ms \<Rightarrow> ms),
          rq_query = query, rq_content = content\<rparr> w)"

text \<open>What is assumed of the server.\<close>

locale http_library =
  fixes pick :: "route list \<Rightarrow> route option"
  assumes pick_member: "pick rs = Some r \<Longrightarrow> r \<in> set rs"
    and pick_some: "rs \<noteq> [] \<Longrightarrow> pick rs \<noteq> None"
begin

lemma pick_none: "pick [] = None"
  using pick_member [of "[]"] by (cases "pick []") auto

lemma pick_single: "pick [r] = Some r"
  using pick_member [of "[r]"] pick_some [of "[r]"] by auto

lemma handle_unique:
  assumes "matching verb path = [r]" and "rx_match (route_pattern r) path = Some ms"
  shows "handle_http pick cp H B J E verb path query content w
    = serve cp H B J E r \<lparr>rq_path = path, rq_match = ms, rq_query = query, rq_content = content\<rparr> w"
  by (simp add: handle_http_def assms pick_single)

end

text \<open>A server that takes the first one.\<close>

definition first_route :: "route list \<Rightarrow> route option" where
  "first_route rs = (case rs of [] \<Rightarrow> None | r # _ \<Rightarrow> Some r)"

interpretation first_http: http_library first_route
  by unfold_locales (auto simp: first_route_def split: list.splits)

subsection \<open>What the patterns match\<close>

lemma take_prefix_iff: "take (length p) s = p \<longleftrightarrow> (\<exists>t. s = p @ t)"
  by (metis append_eq_conv_conj append_take_drop_id)

lemma match_Lit: "rx_match (Lit l) s = (if s = l then Some [s] else None)"
  by (auto simp: rx_match_def take_prefix_iff)

text \<open>Only one number of repetitions consumes a whole text.\<close>

lemma full_many:
  "filter (\<lambda>n. length t \<le> n) [m ..< Suc (length (takeWhile P t))] = (if list_all P t \<and> m \<le> length t then [length t] else [])"
proof (cases "list_all P t")
  case True
  then have len: "length (takeWhile P t) = length t" by (metis list_all_iff takeWhile_eq_all_conv)
  show ?thesis unfolding len using True by (auto simp: filter_empty_conv)
next
  case False
  then have "length (takeWhile P t) < length t"
    by (metis length_takeWhile_le linorder_neqE_nat list_all_iff not_less set_takeWhileD takeWhile_eq_take take_all_iff less_le_not_le)
  then show ?thesis using False by (auto simp: filter_empty_conv)
qed

lemma argument_full:
  "filter (\<lambda>(g, rest). rest = []) (rx_run (argument p C) (p @ t)) = (if t \<noteq> [] \<and> list_all (in_charset C) t then [([(1, t)], [])] else [])"
proof -
  have "filter (\<lambda>(g, rest). rest = []) (rx_run (argument p C) (p @ t))
      = map (\<lambda>n. ([(1, take (length t - length (drop n t)) t)], drop n t)) (filter (\<lambda>n. length t \<le> n) (rev [1 ..< Suc (length (takeWhile (in_charset C) t))]))"
    by (simp add: argument_def filter_map comp_def Let_def)
  also have "\<dots> = (if t \<noteq> [] \<and> list_all (in_charset C) t then [([(1, t)], [])] else [])"
    using full_many [of t 1 "in_charset C"] by (auto simp: rev_filter [symmetric] Suc_le_eq)
  finally show ?thesis .
qed

lemma match_argument:
  "rx_match (argument p C) (p @ t) = (if t \<noteq> [] \<and> list_all (in_charset C) t then Some [p @ t, t] else None)"
  unfolding rx_match_def argument_full by (simp add: argument_def)

lemma match_argument_prefix: "rx_match (argument p C) s = Some ms \<Longrightarrow> \<exists>t. s = p @ t"
  by (auto simp: rx_match_def argument_def take_prefix_iff split: list.splits if_splits)

lemma match_Cat_prefix: "rx_match (Cat (Lit p) r) s \<noteq> None \<Longrightarrow> \<exists>t. s = p @ t"
  by (auto simp: rx_match_def take_prefix_iff split: list.splits if_splits)

text \<open>Sequences: a literal start, and a first part whose first choice leads to a full match.\<close>

abbreviation full :: "((nat \<times> string) list \<times> string) list \<Rightarrow> ((nat \<times> string) list \<times> string) list" where
  "full rs \<equiv> filter (\<lambda>(g, rest). rest = []) rs"

abbreviation groups_of :: "nat \<Rightarrow> (nat \<times> string) list \<Rightarrow> string list" where
  "groups_of n g \<equiv> map (\<lambda>i. case map_of g i of None \<Rightarrow> [] | Some t \<Rightarrow> t) [1 ..< Suc n]"

lemma run_Lit_Cat: "rx_run (Cat (Lit p) r) (p @ t) = rx_run r t"
  by (simp add: case_prod_unfold)

lemma match_first:
  assumes "full (rx_run r s) = (g, []) # rs"
  shows "rx_match r s = Some (s # groups_of (rx_groups r) g)"
  using assms by (simp add: rx_match_def)

lemma full_Cat_first:
  assumes "rx_run a s = (g, u) # gs" and "full (rx_run r u) = (g', []) # hs"
  shows "\<exists>rs. full (rx_run (Cat a r) s) = (g @ g', []) # rs"
proof -
  have "full (map (\<lambda>(g2, s2). (g @ g2, s2)) xs) = map (\<lambda>(g2, s2). (g @ g2, s2)) (full xs)" for xs
    by (induction xs) auto
  with assms show ?thesis by simp
qed

text \<open>The two patterns with an optional part.\<close>

lemma match_unspent:
  "rx_match (route_pattern R_unspent) ''/rest/unspent'' = Some [''/rest/unspent'', []]"
  "t \<noteq> [] \<Longrightarrow> list_all (in_charset alnum_set) t
    \<Longrightarrow> rx_match (route_pattern R_unspent) (''/rest/unspent'' @ ''/'' @ t) = Some [''/rest/unspent'' @ ''/'' @ t, t]"
proof -
  show "rx_match (route_pattern R_unspent) ''/rest/unspent'' = Some [''/rest/unspent'', []]"
    by (simp add: rx_match_def argument_def)
  assume t: "t \<noteq> []" "list_all (in_charset alnum_set) t"
  then have hd: "hd t \<noteq> CHR ''/''" by (cases t) (auto simp: alnum_set_def less_eq_char_def)
  let ?C = "Ranges [(CHR ''/'', CHR ''/'')]" and ?path = "''/rest/unspent'' @ ''/'' @ t"
  have "takeWhile (in_charset ?C) (''/'' @ t) = ''/''" using t(1) hd by (cases t) (auto dest: antisym)
  then have m: "full (rx_run (Many True 1 ?C) (''/'' @ t)) = []" using t(1) by (simp only: rx_run.simps) simp
  have "full (rx_run (Maybe (Alt (Many True 1 ?C) (argument ''/'' alnum_set))) (''/'' @ t)) = [([(1, t)], [])]"
    unfolding rx_run.simps(5,6) filter_append m argument_full using t by simp
  then have "full (rx_run (route_pattern R_unspent) ?path) = [([(1, t)], [])]"
    unfolding route_pattern.simps run_Lit_Cat .
  from match_first [OF this] show "rx_match (route_pattern R_unspent) ?path = Some [?path, t]" by (simp add: argument_def)
qed

lemma match_block:
  assumes t: "t \<noteq> []" "list_all (in_charset index_set) t"
  shows "rx_match (route_pattern R_block) (''/block/'' @ t) = Some [''/block/'' @ t, t, []]"
    and "rx_match (route_pattern R_block) (''/block/'' @ t @ ''/json'') = Some [''/block/'' @ t @ ''/json'', t, ''json'']"
proof -
  let ?json = "Maybe (Cat (Lit ''/'') (Group 2 (Lit ''json'')))"
  have tw: "takeWhile (in_charset index_set) (t @ u) = t" if "u = [] \<or> u = ''/json''" for u
    using t(2) that by (auto simp: list_all_iff index_set_def less_eq_char_def)
  have run: "\<exists>gs. rx_run (argument ''/block/'' index_set) (''/block/'' @ t @ u) = ([(1, t)], u) # gs" if "u = [] \<or> u = ''/json''" for u
    unfolding argument_def run_Lit_Cat using tw [OF that] t(1) by (simp add: Let_def Suc_le_eq)
  obtain gs where gs: "rx_run (argument ''/block/'' index_set) (''/block/'' @ t) = ([(1, t)], []) # gs" using run [of "[]"] by auto
  have "full (rx_run ?json []) = ([], []) # []" by simp
  from full_Cat_first [OF gs this]
  obtain rs where "full (rx_run (route_pattern R_block) (''/block/'' @ t)) = ([(1, t)], []) # rs"
    unfolding route_pattern.simps append_Nil2 by blast
  from match_first [OF this] show "rx_match (route_pattern R_block) (''/block/'' @ t) = Some [''/block/'' @ t, t, []]"
    by (simp add: argument_def upt_rec)
  obtain gs where "rx_run (argument ''/block/'' index_set) (''/block/'' @ t @ ''/json'') = ([(1, t)], ''/json'') # gs" using run by blast
  moreover have "full (rx_run ?json ''/json'') = ([(2, ''json'')], []) # []" by simp
  ultimately have "\<exists>rs. full (rx_run (route_pattern R_block) (''/block/'' @ t @ ''/json'')) = ([(1, t)] @ [(2, ''json'')], []) # rs"
    unfolding route_pattern.simps by (rule full_Cat_first)
  then obtain rs where "full (rx_run (route_pattern R_block) (''/block/'' @ t @ ''/json'')) = ([(1, t)] @ [(2, ''json'')], []) # rs" by blast
  from match_first [OF this] show "rx_match (route_pattern R_block) (''/block/'' @ t @ ''/json'') = Some [''/block/'' @ t @ ''/json'', t, ''json'']"
    by (simp add: argument_def upt_rec)
qed

subsection \<open>No two resources fit\<close>

fun route_prefix :: "route \<Rightarrow> string" where
  "route_prefix R_block_idx = ''/block-idx/''" | "route_prefix R_blocks_last = ''/blocks/last/''"
| "route_prefix R_createWallet = ''/rest/createWallet''" | "route_prefix R_startMining = ''/rest/startMining''"
| "route_prefix R_stopMining = ''/rest/stopMining''" | "route_prefix R_shutdown = ''/rest/shutdown''"
| "route_prefix R_post_createtx = ''/rest/createtx''" | "route_prefix R_summary = ''/rest/summary''"
| "route_prefix R_rest_block = ''/rest/block/''" | "route_prefix R_unspent = ''/rest/unspent''"
| "route_prefix R_rest_address = ''/rest/address/''" | "route_prefix R_rest_tx = ''/rest/tx/''"
| "route_prefix R_address = ''/address/''" | "route_prefix R_block = ''/block/''" | "route_prefix R_tx = ''/tx/''"
| "route_prefix R_createtx = ''/createtx''" | "route_prefix r = ''/''"

lemma match_Cat_run: "rx_match (Cat a r) s \<noteq> None \<Longrightarrow> rx_run a s \<noteq> []"
  by (auto simp: rx_match_def)

lemma argument_run_prefix: "rx_run (argument p C) s \<noteq> [] \<Longrightarrow> \<exists>t. s = p @ t"
  by (auto simp: argument_def take_prefix_iff split: if_splits)

lemma matched_prefix:
  assumes "rx_match (route_pattern r) s \<noteq> None" and "r \<noteq> R_style" and "r \<noteq> R_common"
  shows "(\<exists>t. s = route_prefix r @ t) \<and> (r = R_index \<longrightarrow> s = ''/'')"
proof (cases r)
  case R_block
  from argument_run_prefix [OF match_Cat_run [OF assms(1) [unfolded R_block route_pattern.simps]]] show ?thesis by (simp add: R_block)
next
  case R_unspent
  from match_Cat_prefix [OF assms(1) [unfolded R_unspent route_pattern.simps]] show ?thesis by (simp add: R_unspent)
qed (use assms in \<open>auto simp: match_Lit dest!: match_argument_prefix split: if_splits\<close>)

definition one_prefix :: "route \<Rightarrow> route \<Rightarrow> bool" where
  "one_prefix r r' \<longleftrightarrow> take (min (length (route_prefix r)) (length (route_prefix r'))) (route_prefix r)
     = take (min (length (route_prefix r)) (length (route_prefix r'))) (route_prefix r')"

lemma all_routes_complete: "r \<in> set all_routes" and all_routes_distinct: "distinct all_routes"
  by (cases r) (simp_all add: all_routes_def)

text \<open>No prefix starts another one, but for the page at the root.\<close>

lemma prefixes_differ:
  "list_all (\<lambda>r. list_all (\<lambda>r'. r = r' \<or> \<not> one_prefix r r') (removeAll R_index (removeAll R_common (removeAll R_style all_routes))))
     (removeAll R_index (removeAll R_common (removeAll R_style all_routes)))"
  by (simp add: all_routes_def one_prefix_def)

lemma matched_unique:
  assumes "rx_match (route_pattern r) s \<noteq> None" and "rx_match (route_pattern r') s \<noteq> None"
    and "r \<notin> {R_style, R_common}" and "r' \<notin> {R_style, R_common}"
  shows "r = r'"
proof -
  obtain t t' where t: "s = route_prefix r @ t" "s = route_prefix r' @ t'" "r = R_index \<longrightarrow> s = ''/''" "r' = R_index \<longrightarrow> s = ''/''"
    using matched_prefix [OF assms(1)] matched_prefix [OF assms(2)] assms(3,4) by blast
  consider "r = R_index" | "r' = R_index" | "r \<noteq> R_index" "r' \<noteq> R_index" by blast
  then show ?thesis
  proof cases
    case 1
    with t show ?thesis by (cases r') (use assms(4) in simp_all)
  next
    case 2
    with t show ?thesis by (cases r) (use assms(3) in simp_all)
  next
    case 3
    have "one_prefix r r'"
      unfolding one_prefix_def using t(1,2) by (metis append_eq_append_conv_if min.absorb1 min.absorb2 nat_le_linear take_all_iff order_refl)
    moreover have "r \<in> set (removeAll R_index (removeAll R_common (removeAll R_style all_routes)))"
      "r' \<in> set (removeAll R_index (removeAll R_common (removeAll R_style all_routes)))"
      using 3 assms(3,4) by (simp_all add: all_routes_complete)
    ultimately show ?thesis using prefixes_differ unfolding list_all_iff by blast
  qed
qed

lemma filter_unique:
  assumes "distinct xs" and "r \<in> set xs" and "P r" and "\<forall>r'. P r' \<longrightarrow> r' = r"
  shows "filter P xs = [r]"
proof -
  have "P = (\<lambda>r'. r' = r)" using assms(3,4) by blast
  then show ?thesis using assms(1,2) by (induction xs) (auto simp: filter_empty_conv)
qed

definition asset_path :: "string \<Rightarrow> bool" where
  "asset_path path \<longleftrightarrow> rx_match (route_pattern R_style) path \<noteq> None \<or> rx_match (route_pattern R_common) path \<noteq> None"

lemma unique_matching:
  assumes m: "rx_match (route_pattern r) path = Some ms" and "r \<notin> {R_style, R_common}" and "\<not> asset_path path"
  shows "matching (route_method r) path = [r]"
proof -
  have "r' = r" if "rx_match (route_pattern r') path \<noteq> None" for r'
  proof (rule matched_unique [OF that])
    show "r' \<notin> {R_style, R_common}" using assms(3) that by (auto simp: asset_path_def)
  qed (use assms in simp_all)
  then show ?thesis
    unfolding matching_def using m by (intro filter_unique [OF all_routes_distinct all_routes_complete]) simp_all
qed

text \<open>A path to the style sheet or the script ends in its extension.\<close>

definition ends_with :: "string \<Rightarrow> rx \<Rightarrow> bool" where
  "ends_with ext r \<longleftrightarrow> (\<forall>s g rest. (g, rest) \<in> set (rx_run r s) \<longrightarrow> (\<exists>u. s = u @ ext @ rest))"

lemma ends_Lit: "ends_with ext (Lit ext)"
  by (auto simp: ends_with_def take_prefix_iff)

lemma run_suffix: "(g, rest) \<in> set (rx_run r s) \<Longrightarrow> \<exists>u. s = u @ rest"
proof (induction r arbitrary: g rest s)
  case (Many greedy m C)
  then show ?case by (auto simp: Let_def intro: append_take_drop_id [symmetric])
next
  case (Cat r1 r2)
  then show ?case by (fastforce simp: ends_with_def)
qed (fastforce simp: take_prefix_iff split: if_splits list.splits)+

lemma ends_Cat: "ends_with ext r2 \<Longrightarrow> ends_with ext (Cat r1 r2)"
  unfolding ends_with_def
proof (intro allI impI)
  fix s g rest
  assume r2: "\<forall>s g rest. (g, rest) \<in> set (rx_run r2 s) \<longrightarrow> (\<exists>u. s = u @ ext @ rest)"
  assume "(g, rest) \<in> set (rx_run (Cat r1 r2) s)"
  then obtain g1 s1 g2 where "(g1, s1) \<in> set (rx_run r1 s)" "(g2, rest) \<in> set (rx_run r2 s1)" by auto
  with r2 run_suffix obtain u v where "s = u @ s1" "s1 = v @ ext @ rest" by blast
  then show "\<exists>u. s = u @ ext @ rest" by (metis append.assoc)
qed

lemma asset_ends: "rx_match (asset name ext) s \<noteq> None \<Longrightarrow> \<exists>u. s = u @ ext"
proof -
  assume "rx_match (asset name ext) s \<noteq> None"
  then have "full (rx_run (asset name ext) s) \<noteq> []" by (auto simp: rx_match_def)
  then obtain g where "(g, []) \<in> set (rx_run (asset name ext) s)" by (auto simp: filter_empty_conv)
  moreover have "ends_with ext (asset name ext)" unfolding asset_def by (intro ends_Cat ends_Lit)
  ultimately show ?thesis by (fastforce simp: ends_with_def)
qed

lemma not_asset: "path \<noteq> [] \<Longrightarrow> last path \<noteq> CHR ''s'' \<Longrightarrow> \<not> asset_path path"
  using asset_ends [of _ "''css''"] asset_ends [of _ "''js''"] by (fastforce simp: asset_path_def)

subsection \<open>From the path to the handler\<close>

text \<open>The request a handler sees: the groups follow the path itself.\<close>

definition request :: "string \<Rightarrow> string list \<Rightarrow> (string \<Rightarrow> string option) \<Rightarrow> string \<Rightarrow> HttpRequest" where
  "request path groups query content = \<lparr>rq_path = path, rq_match = path # groups, rq_query = query, rq_content = content\<rparr>"

lemma reach:
  assumes "http_library pick" and "rx_match (route_pattern r) path = Some (path # groups)" and "r \<notin> {R_style, R_common}"
    and "\<not> asset_path path" and "route_method r = verb"
  shows "handle_http pick cp H B J E verb path q c w = serve cp H B J E r (request path groups q c) w"
  using http_library.handle_unique [OF assms(1) unique_matching [OF assms(2-4), unfolded assms(5)] assms(2)] by (simp add: request_def)

lemma show_nat_sets:
  "list_all (in_charset digit_set) (show_nat n)" "list_all (in_charset index_set) (show_nat n)" "last (show_nat n) \<noteq> CHR ''s''"
proof -
  have d: "\<forall>x \<in> set (show_nat n). isdigit x" using digits_show_nat [of n] by (simp add: digits_def list_all_iff)
  then show "list_all (in_charset digit_set) (show_nat n)" "list_all (in_charset index_set) (show_nat n)"
    by (auto simp: list_all_iff digit_set_def index_set_def isdigit_def)
  show "last (show_nat n) \<noteq> CHR ''s''" using bspec [OF d last_in_set [of "show_nat n"]] by (auto simp: isdigit_def less_eq_char_def)
qed

lemma reach_argument:
  assumes "http_library pick" and "route_pattern r = argument p C" and "t \<noteq> []" "list_all (in_charset C) t"
    and "r \<notin> {R_style, R_common}" "\<not> asset_path (p @ t)" "route_method r = verb"
  shows "handle_http pick cp H B J E verb (p @ t) q c w = serve cp H B J E r (request (p @ t) [t] q c) w"
  using assms by (intro reach) (simp_all add: match_argument)

lemma reach_number:
  assumes "http_library pick" and "route_pattern r = argument p C" and "C = digit_set \<or> C = index_set"
    and "r \<notin> {R_style, R_common}" "route_method r = verb"
  shows "handle_http pick cp H B J E verb (p @ show_nat n) q c w = serve cp H B J E r (request (p @ show_nat n) [show_nat n] q c) w"
proof (rule reach_argument [OF assms(1,2) _ _ assms(4) _ assms(5)])
  show "\<not> asset_path (p @ show_nat n)" using show_nat_sets(3) [of n] by (intro not_asset) simp_all
qed (use assms(3) show_nat_sets(1,2) [of n] in auto)

lemma reach_block:
  assumes "http_library pick"
  shows "handle_http pick cp H B J E ''GET'' (''/block/'' @ show_nat n) q c w
      = serve cp H B J E R_block (request (''/block/'' @ show_nat n) [show_nat n, []] q c) w"
    and "handle_http pick cp H B J E ''GET'' (''/block/'' @ show_nat n @ ''/json'') q c w
      = serve cp H B J E R_block (request (''/block/'' @ show_nat n @ ''/json'') [show_nat n, ''json''] q c) w"
proof -
  have t: "show_nat n \<noteq> []" "list_all (in_charset index_set) (show_nat n)" by (simp_all add: show_nat_sets)
  have na: "\<not> asset_path (''/block/'' @ show_nat n)" "\<not> asset_path (''/block/'' @ show_nat n @ ''/json'')"
    using show_nat_sets(3) [of n] by (intro not_asset; simp)+
  have "R_block \<notin> {R_style, R_common}" "route_method R_block = ''GET''" by (simp_all add: route_method_def)
  from reach [OF assms match_block(1) [OF t] this(1) na(1) this(2)] reach [OF assms match_block(2) [OF t] this(1) na(2) this(2)]
  show "handle_http pick cp H B J E ''GET'' (''/block/'' @ show_nat n) q c w
      = serve cp H B J E R_block (request (''/block/'' @ show_nat n) [show_nat n, []] q c) w"
    and "handle_http pick cp H B J E ''GET'' (''/block/'' @ show_nat n @ ''/json'') q c w
      = serve cp H B J E R_block (request (''/block/'' @ show_nat n @ ''/json'') [show_nat n, ''json''] q c) w"
    by this+
qed

lemma reach_unspent:
  assumes "http_library pick" and "t \<noteq> []" "list_all (in_charset alnum_set) t" "\<not> asset_path (''/rest/unspent'' @ ''/'' @ t)"
  shows "handle_http pick cp H B J E ''GET'' (''/rest/unspent'' @ ''/'' @ t) q c w
      = serve cp H B J E R_unspent (request (''/rest/unspent'' @ ''/'' @ t) [t] q c) w"
  by (rule reach [OF assms(1) match_unspent(2) [OF assms(2,3)] _ assms(4)]) (simp_all add: route_method_def)

lemma reach_literal:
  assumes "http_library pick" and "route_pattern r = Lit path" and "r \<notin> {R_style, R_common}" "\<not> asset_path path" "route_method r = verb"
  shows "handle_http pick cp H B J E verb path q c w = serve cp H B J E r (request path [] q c) w"
  using assms by (intro reach) (simp_all add: match_Lit)

text \<open>
  C26: every request reaches its handler. Whatever the server does when several resources fit, a request for a block or for the
  last blocks, for the page of a block or for its JSON, by a number, a payment, the requests that start or stop the miner or shut down the program, and a request for the unspent outputs, an address or a
  transaction by a text of letters and digits are handled by the handler written for them, with the number or
  text as its argument: no other pattern fits such a path. The one exception are paths that look like the style sheet or the
  script, whose patterns accept any character in place of the dot.
\<close>

theorem requests_reach_handlers:
  assumes lib: "http_library pick" and t: "t \<noteq> []" "list_all (in_charset alnum_set) t"
    and plain: "\<not> asset_path (''/rest/unspent'' @ ''/'' @ t)" "\<not> asset_path (''/rest/address/'' @ t)" "\<not> asset_path (''/rest/tx/'' @ t)"
      "\<not> asset_path (''/address/'' @ t)" "\<not> asset_path (''/tx/'' @ t)"
  shows "let ask = (\<lambda>verb path. handle_http pick cp H B J E verb path q c w) in
    ask ''GET'' (''/rest/block/'' @ show_nat n) = read_only (get_rest_block J (request (''/rest/block/'' @ show_nat n) [show_nat n] q c) w) w
    \<and> ask ''GET'' (''/blocks/last/'' @ show_nat n) = read_only (get_blocks_last J (request (''/blocks/last/'' @ show_nat n) [show_nat n] q c) w) w
    \<and> ask ''GET'' (''/block-idx/'' @ show_nat n) = read_only (get_block_idx J (request (''/block-idx/'' @ show_nat n) [show_nat n] q c) w) w
    \<and> ask ''GET'' (''/block/'' @ show_nat n)
        = read_only (get_block_page B J (sv_pages E) (request (''/block/'' @ show_nat n) [show_nat n, []] q c) w) w
    \<and> ask ''GET'' (''/block/'' @ show_nat n @ ''/json'')
        = read_only (get_block_page B J (sv_pages E) (request (''/block/'' @ show_nat n @ ''/json'') [show_nat n, ''json''] q c) w) w
    \<and> ask ''POST'' ''/rest/createtx'' = Some (post_createtx cp H B J (request ''/rest/createtx'' [] q c) w)
    \<and> ask ''GET'' ''/rest/startMining'' = Some (get_startMining w)
    \<and> ask ''GET'' ''/rest/stopMining'' = map_option Ok (get_stopMining (sv_ends E) w)
    \<and> ask ''GET'' ''/rest/shutdown'' = Some (Ok (get_shutdown w))
    \<and> ask ''GET'' (''/rest/unspent'' @ ''/'' @ t) = read_only (get_unspent H J (request (''/rest/unspent'' @ ''/'' @ t) [t] q c) w) w
    \<and> ask ''GET'' (''/rest/address/'' @ t) = read_only (get_address J (request (''/rest/address/'' @ t) [t] q c) w) w
    \<and> ask ''GET'' (''/rest/tx/'' @ t) = read_only (get_tx J (request (''/rest/tx/'' @ t) [t] q c) w) w
    \<and> ask ''GET'' (''/address/'' @ t) = read_only (get_address_page B J (sv_pages E) (request (''/address/'' @ t) [t] q c) w) w
    \<and> ask ''GET'' (''/tx/'' @ t) = read_only (get_tx_page B J (sv_pages E) (request (''/tx/'' @ t) [t] q c) w) w"
proof -
  have gets: "route_method r = ''GET''" if "r \<noteq> R_post_createtx" for r using that by (simp add: route_method_def)
  note num = reach_number [OF lib, where cp = cp and H = H and B = B and J = J and E = E and q = q and c = c and w = w and n = n]
  note arg = reach_argument [OF lib _ t, where cp = cp and H = H and B = B and J = J and E = E and q = q and c = c and w = w]
  note lit = reach_literal [OF lib, where cp = cp and H = H and B = B and J = J and E = E and q = q and c = c and w = w]
  show ?thesis
    unfolding Let_def
    using num [of R_rest_block "''/rest/block/''" index_set "''GET''"] num [of R_blocks_last "''/blocks/last/''" digit_set "''GET''"]
      num [of R_block_idx "''/block-idx/''" digit_set "''GET''"] reach_block [OF lib, of cp H B J E n q c w]
      lit [of R_post_createtx "''/rest/createtx''" "''POST''"] lit [of R_startMining "''/rest/startMining''" "''GET''"]
      lit [of R_stopMining "''/rest/stopMining''" "''GET''"]
      lit [of R_shutdown "''/rest/shutdown''" "''GET''"] reach_unspent [OF lib t plain(1), of cp H B J E q c w]
      arg [of R_rest_address "''/rest/address/''" "''GET''"] arg [of R_rest_tx "''/rest/tx/''" "''GET''"]
      arg [of R_address "''/address/''" "''GET''"] arg [of R_tx "''/tx/''" "''GET''"] plain
    by (simp add: gets route_method_def not_asset serve_def)
qed

definition sample_serve :: serve_env where
  "sample_serve = \<lparr>sv_pages = \<lparr>pg_builtin = \<lambda>f. [], pg_override = \<lambda>d f. None, pg_build = []\<rparr>, sv_exponent = 0, sv_validated = True, sv_ends = Some\<rparr>"

theorem requests_reach_handlers_witness:
  "handle_http first_route sample_cp sample_hashes boost_std (jval_rest Map.empty) sample_serve ''GET'' (''/rest/block/'' @ show_nat 1)
      (\<lambda>k. None) [] (sample_web sample_node)
    = read_only (get_rest_block (jval_rest Map.empty) (request (''/rest/block/'' @ show_nat 1) [show_nat 1] (\<lambda>k. None) []) (sample_web sample_node))
        (sample_web sample_node)"
proof -
  have t: "''x'' \<noteq> []" "list_all (in_charset alnum_set) ''x''" by (simp_all add: alnum_set_def less_eq_char_def)
  have plain: "\<not> asset_path (p @ ''x'')" for p by (rule not_asset) simp_all
  have "\<not> asset_path (''/rest/unspent'' @ ''/'' @ ''x'')" using plain [of "''/rest/unspent/''"] by simp
  from requests_reach_handlers [OF first_http.http_library_axioms t this plain plain plain plain, where n = 1 and cp = sample_cp and H = sample_hashes
      and B = boost_std and J = "jval_rest Map.empty" and E = sample_serve and q = "\<lambda>k. None" and c = "[]" and w = "sample_web sample_node"]
  show ?thesis unfolding Let_def by (rule conjunct1)
qed

text \<open>
  The patterns of the style sheet and the script accept any character for the dot: an address page can be hidden by them.
\<close>

theorem asset_pattern_overlaps: "set (matching ''GET'' ''/address/style1css'') = {R_style, R_address}"
proof -
  have "matching ''GET'' ''/address/style1css'' = [R_style, R_address]"
    by (simp add: matching_def all_routes_def rx_match_def route_method_def argument_def asset_def alnum_set_def digit_set_def index_set_def
        less_eq_char_def Let_def upt_rec)
  then show ?thesis by simp
qed

subsection \<open>The web service as steps of the node\<close>

text \<open>A request to stop: the step of the handler, then those of the threads it waits for.\<close>

lemma stop_effect:
  assumes "get_stopMining ends w = Some (resp, w')"
    and "\<And>s'. ends (stopMining (wa_node w)) = Some s' \<Longrightarrow> node_steps cp J release (stopMining (wa_node w), p) (s', None)"
    and "\<not> miningDone (wa_node w) \<or> p \<noteq> None \<longrightarrow> wa_mineThread w"
  shows "\<exists>p'. node_steps cp J release (wa_node w, p) (wa_node w', p') \<and> (p' = p \<or> p' = None) \<and> wa_settings w' = wa_settings w"
proof (cases "miningDone (wa_node w)")
  case True
  with assms(1) show ?thesis by (auto simp: get_stopMining_def)
next
  case False
  with assms(1,3) obtain s' where s': "ends (stopMining (wa_node w)) = Some s'" "wa_node w' = s'" "wa_settings w' = wa_settings w"
    by (auto simp: get_stopMining_def join_mining_def)
  have "node_step cp J release (wa_node w, p) (stopMining (wa_node w), p)" by (rule node_step.stop)
  with assms(2) [OF s'(1)] s' show ?thesis by (auto intro: converse_rtranclp_into_rtranclp)
qed

text \<open>
  C25: the web service refines the node. Whatever request arrives, whatever resource the server picks, in whatever state between two
  steps of the other threads in which the mining thread exists while mining is not marked as done or a block is being mined: if
  the handler returns, the node has taken a sequence of its steps, the settings are as before, and only a payment and the three
  requests that control the miner and the program can have changed anything at all. A request to stop the miner also waits for the mining
  thread; the steps of the node meanwhile, with which a round in progress ends, are those of the other threads.
\<close>

theorem http_refines_node:
  assumes lib: "http_library pick" and served: "handle_http pick cp H B J E verb path q c w = Some (Ok (resp, w'))"
    and threads: "\<not> miningDone (wa_node w) \<or> p \<noteq> None \<longrightarrow> wa_mineThread w"
    and waits: "\<And>s'. sv_ends E (stopMining (wa_node w)) = Some s' \<Longrightarrow> node_steps cp J release (stopMining (wa_node w), p) (s', None)"
  shows "(\<exists>p'. node_steps cp J release (wa_node w, p) (wa_node w', p')
      \<and> (p' = p \<or> (verb, path) = (''GET'', ''/rest/stopMining'') \<and> p' = None))
    \<and> wa_settings w' = wa_settings w
    \<and> ((verb, path) \<notin> {(''GET'', ''/rest/startMining''), (''GET'', ''/rest/stopMining''), (''GET'', ''/rest/shutdown''),
         (''POST'', ''/rest/createtx'')} \<longrightarrow> w' = w)"
proof (cases "pick (matching verb path)")
  case None
  with served show ?thesis by (auto simp: handle_http_def)
next
  case (Some r)
  define rq where "rq = \<lparr>rq_path = path, rq_match = (case rx_match (route_pattern r) path of None \<Rightarrow> [] | Some ms \<Rightarrow> ms), rq_query = q, rq_content = c\<rparr>"
  have s: "serve cp H B J E r rq w = Some (Ok (resp, w'))" using served Some by (simp add: handle_http_def rq_def)
  have "r \<in> set (matching verb path)" by (rule http_library.pick_member [OF lib Some])
  then have m: "route_method r = verb" "rx_match (route_pattern r) path \<noteq> None" by (simp_all add: matching_def)
  consider (start) "r = R_startMining" | (stop) "r = R_stopMining" | (exit) "r = R_shutdown" | (pay) "r = R_post_createtx"
    | (read) "w' = w"
    using s by (cases r) (auto simp: serve_def read_only_def rbind_Ok_iff)
  then show ?thesis
  proof cases
    case start
    then have "path = ''/rest/startMining''" "verb = ''GET''" using m by (auto simp: match_Lit route_method_def split: if_splits)
    with start s threads show ?thesis
      by (auto simp: serve_def get_startMining_def intro!: r_into_rtranclp node_step.start split: if_splits)
  next
    case stop
    then have pp: "path = ''/rest/stopMining''" "verb = ''GET''" using m by (auto simp: match_Lit route_method_def split: if_splits)
    have "get_stopMining (sv_ends E) w = Some (resp, w')" using stop s by (auto simp: serve_def)
    from stop_effect [OF this waits] threads show ?thesis using pp by blast
  next
    case exit
    then have "path = ''/rest/shutdown''" "verb = ''GET''" using m by (auto simp: match_Lit route_method_def split: if_splits)
    with exit s show ?thesis
      using node_step.exit [of cp J release "wa_node w" p] by (auto simp: serve_def get_shutdown_def dest: r_into_rtranclp)
  next
    case pay
    then have pp: "path = ''/rest/createtx''" "verb = ''POST''" using m by (auto simp: match_Lit route_method_def split: if_splits)
    have "post_createtx cp H B J rq w = Ok (resp, w')" using pay s by (simp add: serve_def)
    from post_createtx_effect [OF this] show ?thesis
    proof (elim disjE exE)
      fix tx assume w': "w' = w\<lparr>wa_node := (wa_node w)\<lparr>blockchain := queueTransaction tx (blockchain (wa_node w))\<rparr>\<rparr>"
      have "node_steps cp J release (wa_node w, p) (wa_node w', p)"
        unfolding w' using node_step.queue_tx [of cp J release "wa_node w" p tx] by (simp add: r_into_rtranclp)
      then show ?thesis using pp by (auto simp: w')
    qed auto
  qed auto
qed

theorem http_refines_node_witness:
  "\<exists>w'. handle_http first_route sample_cp sample_hashes boost_std (jval_rest Map.empty) sample_serve ''GET'' ''/rest/startMining'' (\<lambda>k. None) []
      (sample_web (sample_node\<lparr>miningDone := True\<rparr>)) = Some (Ok ([write_both 200 ''OK''], w'))
    \<and> node_steps sample_cp (jval_rest Map.empty) False (sample_node\<lparr>miningDone := True\<rparr>, None) (wa_node w', None) \<and> \<not> miningDone (wa_node w')"
proof -
  let ?w = "(sample_web (sample_node\<lparr>miningDone := True\<rparr>))\<lparr>wa_mineThread := False\<rparr>"
  let ?w' = "?w\<lparr>wa_node := (wa_node ?w)\<lparr>miningDone := False\<rparr>, wa_mineThread := True\<rparr>"
  have "\<not> asset_path ''/rest/startMining''" by (rule not_asset) simp_all
  from reach_literal [where r = R_startMining, OF first_http.http_library_axioms _ _ this, of "''GET''" sample_cp sample_hashes boost_std
      "jval_rest Map.empty" sample_serve "\<lambda>k. None" "[]" ?w]
  have h: "handle_http first_route sample_cp sample_hashes boost_std (jval_rest Map.empty) sample_serve ''GET'' ''/rest/startMining'' (\<lambda>k. None) [] ?w
      = Some (Ok ([write_both 200 ''OK''], ?w'))"
    by (simp add: route_method_def serve_def get_startMining_def sample_web_def)
  have "\<not> miningDone (wa_node ?w) \<or> (None :: Block option) \<noteq> None \<longrightarrow> wa_mineThread ?w" by (simp add: sample_web_def)
  moreover have "node_steps sample_cp (jval_rest Map.empty) False (stopMining (wa_node ?w), None) (s', None)"
    if "sv_ends sample_serve (stopMining (wa_node ?w)) = Some s'" for s'
    using that by (simp add: sample_serve_def)
  ultimately show ?thesis
    using http_refines_node [OF first_http.http_library_axioms h, where p = None and release = False] h
    by (intro exI [of _ ?w']) (auto simp: sample_web_def)
qed

end
