(* ===== verification/Spec2Isabelle.thy ===== *)
theory Spec2Isabelle
  imports Ash_Logger Ash_Forks Ash_Network Ash_Routes
begin

text \<open>
  \<^bold>\<open>AshCoin: a verification development\<close>

  AshCoin is a small proof-of-work block chain in C++ (\<^verbatim>\<open>src/src/\<close>). A node keeps a chain of
  blocks in memory and in a file, mines new blocks in a thread, exchanges chains with peers
  over web sockets and offers web pages and a REST service. This development models the program as executable
  HOL functions, one theory per component, and proves the properties that make each
  component correct, and some that show where it is not.

  \<^bold>\<open>Parts and theories.\<close>

  \<^item> \<open>Ash_Prelude\<close>: machine integers (\<^verbatim>\<open>std::uint64_t\<close> is \<open>u64\<close>), the result type with one error
    value for every exception, failed assertion, termination and undefined operation, vectors, decimal output.
  \<^item> \<open>Ash_Double\<close>: the C++ type \<^verbatim>\<open>double\<close> as IEEE 754 bit patterns: addition, subtraction,
    comparison, output with six digits; exactness of sums on a binary grid.
  \<^item> \<open>Ash_Json\<close>: the interface of the JSON library (a parameter, locale \<open>json_library\<close>) and the
    contract of a pair of conversions (locale \<open>json_pair\<close>); a concrete instance.
  \<^item> \<open>Ash_Crypto\<close>: \<^verbatim>\<open>CryptoUtils.cpp\<close>. Hashes and the elliptic curve of Crypto++ are a parameter
    (record \<open>cryptopp\<close>); Base58 and the address are modelled.
  \<^item> \<open>Ash_Transactions\<close>: \<^verbatim>\<open>Transactions.h\<close>, \<^verbatim>\<open>Transactions.cpp\<close>: inputs, outputs, ids, coinbase, JSON.
  \<^item> \<open>Ash_Block\<close>: \<^verbatim>\<open>Block.h\<close>, \<^verbatim>\<open>Block.cpp\<close>: blocks, their hash and proof of work, JSON.
  \<^item> \<open>Ash_Blockchain\<close>: the class \<^verbatim>\<open>Blockchain\<close>: validation, cumulative and adjusted difficulty, the
    queue of transactions, new blocks, JSON.
  \<^item> \<open>Ash_Ledger\<close>: the free functions of \<^verbatim>\<open>Blockchain.cpp\<close>: unspent outputs (over the contract
    \<open>keyed_set\<close> of the ordered set), block details, ledger and balance, new transactions, search.
  \<^item> \<open>Ash_Database\<close>: \<^verbatim>\<open>ChainDatabase.h\<close>, \<^verbatim>\<open>ChainDatabase.cpp\<close>: the binary format, one locale \<open>codec\<close>
    with an instance per type, and the file operations with the contract \<open>chain_store\<close>.
  \<^item> \<open>Ash_Miner\<close>: \<^verbatim>\<open>Miner.h\<close>: the search for a nonce.
  \<^item> \<open>Ash_Node\<close>: \<^verbatim>\<open>MinerApp.cpp\<close>: rounds of the mining thread, peer messages and the adoption of
    received chains, with the texts of the message layer of \<^verbatim>\<open>PeerManager.h\<close>.
  \<^item> \<open>Ash_Run\<close>: the running node as a step relation: mining rounds, messages, payments, start, stop and exit in any order.
  \<^item> \<open>Ash_Utils\<close>: \<^verbatim>\<open>AshUtils.cpp\<close>: text conversions, filling in of templates, default folders; ordered maps; the
    interface of Boost (record \<open>boost_lib\<close>, locale \<open>boost_library\<close>).
  \<^item> \<open>Ash_Settings\<close>: \<^verbatim>\<open>Settings.h\<close>, \<^verbatim>\<open>Settings.cpp\<close> and the registration in \<^verbatim>\<open>main.cpp\<close>: validators (locale
    \<open>validator_contract\<close>), typed settings, the configuration file.
  \<^item> \<open>Ash_Peers\<close>: \<^verbatim>\<open>PeerManager.h\<close>, \<^verbatim>\<open>PeerManager.cpp\<close>: the table of peers and its connection states as a
    step relation, the reconnecting worker, broadcast, shutdown.
  \<^item> \<open>Ash_Protocol\<close>: the exchange of messages between two nodes.
  \<^item> \<open>Ash_Rest\<close>: the HTTP handlers and pages of \<^verbatim>\<open>MinerApp.cpp\<close>, \<^verbatim>\<open>ProblemDetails.h\<close>, \<^verbatim>\<open>core.h\<close>.
  \<^item> \<open>Ash_Computer\<close>: \<^verbatim>\<open>ComputerID.h\<close> and its three implementations.
  \<^item> \<open>Ash_Main\<close>: \<^verbatim>\<open>main.cpp\<close>, and the constructor, the destructor, the setup of the servers and \<^verbatim>\<open>run\<close> of \<^verbatim>\<open>MinerApp.cpp\<close>.
  \<^item> \<open>Ash_Logger\<close>: \<^verbatim>\<open>AshLogger.cpp\<close> and the setup of the logs in \<^verbatim>\<open>main.cpp\<close>, over the contract of the logging library's registry
    (locale \<open>spdlog_registry\<close>).
  \<^item> \<open>Ash_System\<close>: the running program with all its threads as one step relation with the texts it sends, and the loop of the
    mining thread; the node and the table of peers as its views (locale \<open>step_simulation\<close>).
  \<^item> \<open>Ash_Forks\<close>: the conversation of two nodes whose chains part, and what a node, idle or mining, does with the blocks it is sent.
  \<^item> \<open>Ash_Network\<close>: a new block on its way from the miner to its peers.
  \<^item> \<open>Ash_Routes\<close>: the table of resources of the HTTP server with its regular expressions, and a request from its path to
    its handler (locale \<open>http_library\<close>).
  \<^item> this theory: properties of the whole program.

  State is passed explicitly: a class is a record, a method a function on it that returns the
  new record, and a method that can fail returns \<open>error + result\<close>; where a call may also not
  return (joining a thread, a loop without end) the result is optional. Definitions keep the names of
  the source, with a prefix (\<open>chain_\<close>, \<open>db_\<close>, \<open>conf_\<close>, \<open>get_\<close>) where a name is too general.

  \<^bold>\<open>What is shown.\<close> Validation accepts exactly the linked chains; appending and mining keep a
  chain linked; the database format and every JSON conversion round-trip; in every state a
  running node can reach, with or without a chain file at the start and whatever its peers send, but for updates that claim a wrong or
  repeated hash, the file holds the chain in memory and a restart, of the node and of the
  whole program, loads exactly it; the same holds for the whole program with web requests, connections and shutdown, and for the chain that
  the destructor leaves when it has waited for the mining thread;
  a node whose chain is a part of a longer one with more work, or forks off it, ends up with that chain, idle or mining, and a mined block reaches the connected peers, idle or mining;
  unspent outputs are exactly the outputs nobody spent; payments conserve money and
  balances are exact sums, for amounts on a common binary grid and transactions like those the program builds; difficulty and its sum are computed as
  intended within their ranges. Settings keep their types and ranges, and the configuration file reads back;
  templates, and pages with their header and footer, are filled in as if at once, percent signs of style attributes notwithstanding; broadcasts reach exactly the connected peers and
  lost ones are tried again; requests reach the handlers written for them, which answer with what the ledger functions define and change the node only by its own
  steps; the mining thread ends when it is asked to in time; the log file gets what every component logs. Other theorems state defects: validation without proof of
  work, a received chain that corrupts the local one, an assertion that stops
  a new node, balances that miss outputs, double spending within a block, ports outside their range, an endless loop while reading network
  interfaces, a start request that ends the program, a request to stop that is lost, a fork with more work
  that is not adopted because it is not longer, messages that are handled before the chain is loaded.

  \<^bold>\<open>Bounds and loops.\<close> Sizes of vectors are taken to fit 64 bits (32 bits for lengths in the
  file and for the counter of \<^verbatim>\<open>isValidChain\<close>, which is 32 bits wide in the source); theorems state these bounds. All
  loops but four are total functions. The nonce search, the loop of the mining thread, the thread that reconnects and the loop over the network
  interfaces of a Mac may run forever and are partial functions into \<open>option\<close>; theorems show when they return.
  Amounts are exact when they are multiples of \<open>2^g\<close> units of \<open>2^-1074\<close> with a total below \<open>2^(g+53)\<close>; whole coins
  up to \<open>2^53\<close> are the case \<open>g = 1074\<close>.

  \<^bold>\<open>Parameters.\<close> Crypto++, the JSON library, Boost, hashing of integers, the HTTP and web socket
  libraries, the operating system, the clock, the contents of files, the embedded pages,
  what other threads do to the miner, and what becomes of the node until the mining thread has ended (which may be never) are arguments, with laws as hypotheses where
  a theorem needs them. Network events and timers are steps that may happen at any time.

  \<^bold>\<open>Not modelled.\<close> What is logged, and the inside of the logging library; the parsing of the
  command line, whose outcome is a record; the choice of the HTTP server among several resources that fit; the LevelDB index that is opened but
  never used; the unused struct of \<^verbatim>\<open>BlockInfo.h\<close>; allocation failure; how messages that arrive before \<^verbatim>\<open>run\<close> has loaded the
  chain interleave with the start. Races on the chain outside the mutex are left out: a mining
  round is modelled in two steps around the search, each of them without interruption. Two guards of the step relations exclude that a
  block is mined on a chain that was replaced meanwhile by one of another length whose last block has the same hash, and messages with an update,
  not starting at index 0, whose first block has not the hash it claims or in which two blocks have the same hash; \<open>unchecked_first_block\<close> shows
  what such an update does. What two threads do that join the mining thread at the same time is not modelled.

  \<^bold>\<open>Plan.\<close> Next: convergence of more than two nodes; the start as steps that messages interleave with.
\<close>

section \<open>Properties of the whole program\<close>

text \<open>
  C6: the first real start. With a configuration file that sets nothing but the address for the rewards and
  without a chain file, the program reaches the running state: the chain consists of the genesis block,
  which is also what the chain file holds; the node waits without mining, and the thread for it does not run; both
  servers have their default ports; the table of peers has exactly the trimmed lines of the peers file, each being
  connected to; a peer that opens its connection is sent the request for a summary. With the
  default configuration instead, without a file, the program writes the file and stops.
\<close>

theorem program_starts:
  assumes lib: "json_conf_library J" "boost_library B" and opts: "\<not> opt_help vm" "\<not> opt_createwallet vm"
    and cf: "config_path (se_os E) vm = Ok cf"
    and conf: "j_parse J content = Some conf" "j_entries J conf = [(''mining.miner.address'', j_of_string J addr)]"
    and addr: "addr \<noteq> []" "addr \<noteq> ''<CHANGE ME>''"
    and dirs: "getDefaultDatabaseFolder (se_os E) = Ok db" "getDefaultPeersFile (se_os E) = Ok peers"
    and uid: "getUUID cp (se_os E) (se_machine E) (setCustomData db new_ComputerID) = Some (Ok uid)"
    and gen: "uuid n = uid" "rewardAddress n = addr" "block_storable (genesisBlock cp J (se_now E) (se_gendata E) n)"
    and start: "se_index E = None" "files (path_append (se_os E) db DatabaseFile) = None" "path_append (se_os E) db DatabaseFile \<noteq> cf"
  shows "(files cf = Some content \<longrightarrow>
      (\<exists>a. main_program cp B J E desc k v vm files = Some (Ok (Running a, files))
        \<and> blocks (blockchain (wa_node (app_web a))) = [genesisBlock cp J (se_now E) (se_gendata E) n]
        \<and> db_stored (database (wa_node (app_web a))) = Ok (blocks (blockchain (wa_node (app_web a))))
        \<and> uuid (wa_node (app_web a)) = uid \<and> rewardAddress (wa_node (app_web a)) = addr
        \<and> miningDone (wa_node (app_web a)) \<and> \<not> wa_mineThread (app_web a)
        \<and> app_http_port a = Some (se_http_port E HTTPServerPortDefault) \<and> pm_port (app_peers a) = Some WebSocketServerPorDefault
        \<and> (\<forall>name. map_option pd_state (map_of (pm_peers (app_peers a)) name) =
             (if listed_peer B (files peers) name then Some CONNECTING else None))
        \<and> (\<forall>name conn. listed_peer B (files peers) name \<longrightarrow>
             (\<exists>m'. on_open name conn (app_peers a) = Ok ([(conn, summary_request)], m')))))
    \<and> (files cf = None \<longrightarrow>
        (\<exists>a. main_program cp B J E desc k v vm files = Some (Ok (Stopped a, files(cf \<mapsto> conf_save J (wa_settings (app_web a)))))
          \<and> dbfile (database (wa_node (app_web a))) = None))"
    (is "(_ \<longrightarrow> ?run) \<and> (_ \<longrightarrow> ?stop)")
proof (intro conjI impI)
  let ?g = "genesisBlock cp J (se_now E) (se_gendata E) n" and ?chain = "path_append (se_os E) db DatabaseFile"
  assume found: "files cf = Some content"
  note ne = default_dirs(1) [OF dirs(1)] default_dirs(2) [OF dirs(2)]
  have ld: "load_blocks (write_block ?g) = Ok [?g]" using load_blocks_write [of "[?g]" "[]"] gen(3) by simp
  have "db_initialize cp J ?g (se_index E) empty_Blockchain \<lparr>dbfile = files ?chain\<rparr>
      = Ok (empty_Blockchain\<lparr>blocks := [?g]\<rparr>, \<lparr>dbfile = Some (write_block ?g)\<rparr>)"
    using first_initialize [OF gen(3)] start(1,2) by simp
  from address_start [OF lib opts cf found conf addr dirs ne uid gen(1,2) this refl]
  obtain a where a: "main_program cp B J E desc k v vm files = Some (Ok (Running a, files))"
    "app_web a = \<lparr>wa_node = (wa_node (app_web (fresh_app E (address_set J db peers addr) uid \<lparr>dbfile = Some (write_block ?g)\<rparr>)))
       \<lparr>rewardAddress := addr, blockchain := empty_Blockchain\<lparr>blocks := [?g]\<rparr>, miningDone := True\<rparr>,
       wa_mineThread = False, wa_settings = address_set J db peers addr\<rparr>"
    "app_http_port a = Some (se_http_port E HTTPServerPortDefault)" "pm_port (app_peers a) = Some WebSocketServerPorDefault"
    "pm_callback (app_peers a) = Some ask_summary"
    "\<And>name. map_of (pm_peers (app_peers a)) name =
         (if listed_peer B (files peers) name then Some (connecting (se_release E) name new_PeerData) else None)"
    by blast
  have "\<exists>m'. on_open name conn (app_peers a) = Ok ([(conn, summary_request)], m')" if "listed_peer B (files peers) name" for name conn
    using that by (simp add: on_open_def a(5,6) ask_summary_def)
  with a show ?run
    by (intro exI [of _ a]) (simp add: db_stored_def ld connecting_def)
next
  assume "files cf = None"
  moreover note ne = default_dirs(1) [OF dirs(1)] default_dirs(2) [OF dirs(2)]
  ultimately obtain a where a: "main_program cp B J E desc k v vm files = Some (Ok (Stopped a, files(cf \<mapsto> conf_save J (registered J db peers))))"
    "wa_settings (app_web a) = registered J db peers"
    "database (wa_node (app_web a)) = \<lparr>dbfile = (files(cf \<mapsto> conf_save J (registered J db peers))) (path_append (se_os E) db DatabaseFile)\<rparr>"
    using default_start [OF lib opts cf _ dirs _ _ uid] by blast
  show ?stop
    using a start by auto
qed

text \<open>
  C5: the program can be stopped and started again at any time. Let the program be started with a
  configuration file, and without a chain file or with one whose chain begins with a block of index 0, and let the node take any sequence
  of steps; of the messages it gets, only updates that claim a wrong or repeated hash are excluded, as in \<open>node_lifecycle\<close>. A second
  start, at another time, with the same configuration on the disk as it then is, reaches the running state again, with exactly the
  blocks that the node had in memory, the same identity, the same ports and the same peers to connect
  to, and leaves the chain file unchanged.
\<close>

theorem program_restart:
  assumes cf: "config_path (se_os E) vm = Ok cf" "files cf = Some content"
    and first: "main_program cp B J E desc k v vm files = Some (Ok (Running a, files1))"
    and folder: "value_string J ''database.folder'' [] (wa_settings (app_web a)) = Ok folder"
    and chain: "chainfile = path_append (se_os E) folder DatabaseFile" "cf \<noteq> chainfile"
    and genesis: "sound_file (genesisBlock cp J (se_now E) (se_gendata E) (wa_node (app_web a))) (files chainfile)"
    and pf: "value_string J ''peers.file'' [] (wa_settings (app_web a)) = Ok pf" "pf \<noteq> chainfile"
    and steps: "node_steps cp J (se_release E) (wa_node (app_web a), None) (s', p)"
    and files2: "files2 = files1(chainfile := dbfile (database s'))"
  shows "\<exists>a2. main_program cp B J (E\<lparr>se_now := now, se_gendata := g\<rparr>) desc k v vm files2 = Some (Ok (Running a2, files2))
    \<and> blocks (blockchain (wa_node (app_web a2))) = blocks (blockchain s')
    \<and> dbfile (database (wa_node (app_web a2))) = files2 chainfile
    \<and> uuid (wa_node (app_web a2)) = uuid (wa_node (app_web a))
    \<and> app_peers a2 = app_peers a \<and> app_http_port a2 = app_http_port a"
proof -
  let ?E = "E\<lparr>se_now := now, se_gendata := g\<rparr>"
  obtain S logs fo uid where opts: "\<not> opt_help vm" "\<not> opt_createwallet vm"
    and S: "initSettings B J (se_os E) (Some content) = Ok (S, content)" "initializeLogs J (se_os E) S = Ok logs"
    and fo: "value_string J ''database.folder'' [] S = Ok fo"
    and uid: "getUUID cp (se_os E) (se_machine E) (setCustomData fo new_ComputerID) = Some (Ok uid)"
    and run1: "run cp B J E files (fresh_app E S uid \<lparr>dbfile = files (path_append (se_os E) fo DatabaseFile)\<rparr>) = Some (Ok (Running a))"
    and "files1 = files" and st: "wa_settings (app_web a) = S"
    by (rule main_Running [OF first cf])
  with fo folder have "fo = folder" by simp
  then have file0: "sound_file (genesisBlock cp J (se_now E) (se_gendata E) (wa_node (app_web a)))
      (dbfile \<lparr>dbfile = files (path_append (se_os E) fo DatabaseFile)\<rparr>)" using genesis chain(1) by simp
  have "node_inv cp J (wa_node (app_web a), None)" and id: "uuid (wa_node (app_web a)) = uid"
    by (rule started_inv [OF run1 file0])+
  from node_steps_inv [OF steps this(1)]
  have inv: "in_step s'" "chain_linked cp J (blocks (blockchain s'))" "length (blocks (blockchain s')) < 2 ^ 32"
    by (simp_all add: node_inv_def chain_ok_def)
  have "files2 pf = files pf" using pf(2) files2 \<open>files1 = files\<close> by simp
  from restart_run [where files' = files2 and now = now and g = g, OF run1 pf(1) [unfolded st] this inv] obtain a2 where
    a2: "run cp B J ?E files2 (fresh_app E S uid (database s')) = Some (Ok (Running a2))"
    "blocks (blockchain (wa_node (app_web a2))) = blocks (blockchain s')" "database (wa_node (app_web a2)) = database s'"
    "uuid (wa_node (app_web a2)) = uid" "app_peers a2 = app_peers a" "app_http_port a2 = app_http_port a" by blast
  have cf2: "files2 cf = Some content" "files2(cf \<mapsto> content) = files2"
    using cf(2) chain(2) files2 \<open>files1 = files\<close> by (simp_all add: fun_upd_idem)
  have "new_MinerApp cp J ?E files2 S = Some (Ok (fresh_app ?E S uid \<lparr>dbfile = files2 chainfile\<rparr>))"
    using new_MinerApp_eq [of J S folder cp ?E uid files2] fo uid by (simp add: \<open>fo = folder\<close> chain(1))
  moreover have "fresh_app ?E S uid \<lparr>dbfile = files2 chainfile\<rparr> = fresh_app E S uid (database s')"
    by (simp add: fresh_app_def files2)
  ultimately have "main_program cp B J ?E desc k v vm files2 = Some (Ok (Running a2, files2))"
    using S cf(1) cf2 a2(1) by (subst main_eq [OF opts, of _ cf _ _ _ S content logs]) simp_all
  with a2 id show ?thesis by (auto simp: files2)
qed

subsection \<open>All threads together\<close>

text \<open>
  C3: the whole program, from its start with or without a chain file on. Take any run of all its threads: rounds of mining, messages of
  peers on either kind of connection, payments, requests to start and to stop the miner and to shut down, connections that
  open, fail, close and are retried, in whatever order; of the messages, only updates that claim a wrong or repeated hash are
  excluded, as in \<open>node_lifecycle\<close>. Then the chain is linked and starts at index 0, a restart from the
  file gives exactly the blocks in memory, the block being mined continues them unless mining was stopped meanwhile, an announcement would reach exactly
  the connected peers, and the mining thread exists whenever mining is not marked as done or a block is being mined. Once
  the program has been told to exit, no round begins any more. The destructor waits for the round that is in progress; if that
  ends, after whatever steps the node takes meanwhile, the destructor returns with every thread
  joined, and the chain it leaves, which the end of the round may have changed, is again linked and exactly what a restart gives. If no round is
  in progress, the loop of the mining thread ends at once and the node is left as it is. That the round ends is an assumption: theorem
  \<open>lost_abort\<close> shows that it may not.
\<close>

theorem system_lifecycle:
  assumes cf: "config_path (se_os E) vm = Ok cf" "files cf = Some content"
    and first: "main_program cp B J E desc k v vm files = Some (Ok (Running a, files1))"
    and folder: "value_string J ''database.folder'' [] (wa_settings (app_web a)) = Ok folder"
    and genesis: "sound_file (genesisBlock cp J (se_now E) (se_gendata E) (wa_node (app_web a)))
      (files (path_append (se_os E) folder DatabaseFile))"
    and steps: "traces (sys_step cp H B J (se_release E)) (started_system a) outs y"
  shows "chain_ok cp J (blockchain (sys_node y))
    \<and> db_initialize cp J gen None empty_Blockchain (database (sys_node y))
        = Ok (empty_Blockchain\<lparr>blocks := blocks (blockchain (sys_node y))\<rparr>, database (sys_node y))
    \<and> (\<forall>nb. sys_round y = Some nb \<longrightarrow> \<not> miningDone (sys_node y) \<longrightarrow> index nb = chain_size (blockchain (sys_node y))
         \<and> previousHash nb = hash (last (blocks (blockchain (sys_node y)))))
    \<and> broadcast msg (app_peers (sys_app y)) = Ok (map (\<lambda>(name, pd). (the (pd_connection pd), msg))
         (filter (\<lambda>(name, pd). pd_state pd = CONNECTED) (pm_peers (app_peers (sys_app y)))))
    \<and> (\<not> miningDone (sys_node y) \<or> sys_round y \<noteq> None \<longrightarrow> wa_mineThread (app_web (sys_app y)))
    \<and> (app_done (sys_node y) \<longrightarrow> (\<forall>outs' z. traces (sys_step cp H B J (se_release E)) y outs' z
         \<longrightarrow> app_done (sys_node z) \<and> sys_round z \<in> {None, sys_round y}))
    \<and> (\<forall>ends s'. ends (sys_node y) = Some s' \<longrightarrow> node_steps cp J (se_release E) (sys_node y, sys_round y) (s', None) \<longrightarrow>
         (\<exists>a'. destroy_MinerApp ends (sys_app y) = Some a'
           \<and> \<not> wa_mineThread (app_web a') \<and> \<not> app_http_running a' \<and> (\<forall>(name, pd) \<in> set (pm_peers (app_peers a')). \<not> pd_worker pd)
           \<and> wa_node (app_web a') = (if wa_mineThread (app_web (sys_app y)) then s' else sys_node y)
           \<and> chain_ok cp J (blockchain (wa_node (app_web a')))
           \<and> db_initialize cp J gen None empty_Blockchain (database (wa_node (app_web a')))
               = Ok (empty_Blockchain\<lparr>blocks := blocks (blockchain (wa_node (app_web a')))\<rparr>, database (wa_node (app_web a')))))
    \<and> (app_done (sys_node y) \<longrightarrow> sys_round y = None \<longrightarrow>
         (\<exists>a'. destroy_MinerApp (loop_ends cp J (se_release E) rounds) (sys_app y) = Some a' \<and> wa_node (app_web a') = sys_node y))"
proof -
  have restart: "chain_ok cp J (blockchain s) \<and> db_initialize cp J gen None empty_Blockchain (database s)
      = Ok (empty_Blockchain\<lparr>blocks := blocks (blockchain s)\<rparr>, database s)" if "node_inv cp J (s, p)" for s p
    using that node_restart [of s cp J gen] by (simp add: node_inv_def chain_ok_def)
  obtain S fo uid where fo: "value_string J ''database.folder'' [] S = Ok fo"
    and run: "run cp B J E files (fresh_app E S uid \<lparr>dbfile = files (path_append (se_os E) fo DatabaseFile)\<rparr>) = Some (Ok (Running a))"
    and "wa_settings (app_web a) = S"
    by (rule main_Running [OF first cf])
  with folder genesis have "sound_file (genesisBlock cp J (se_now E) (se_gendata E) (wa_node (app_web a)))
      (dbfile \<lparr>dbfile = files (path_append (se_os E) fo DatabaseFile)\<rparr>)" by simp
  note inv = system_inv [OF run this steps]
  have waits: "\<exists>a'. destroy_MinerApp ends (sys_app y) = Some a'
      \<and> \<not> wa_mineThread (app_web a') \<and> \<not> app_http_running a' \<and> (\<forall>(name, pd) \<in> set (pm_peers (app_peers a')). \<not> pd_worker pd)
      \<and> wa_node (app_web a') = (if wa_mineThread (app_web (sys_app y)) then s' else sys_node y)
      \<and> chain_ok cp J (blockchain (wa_node (app_web a')))
      \<and> db_initialize cp J gen None empty_Blockchain (database (wa_node (app_web a')))
          = Ok (empty_Blockchain\<lparr>blocks := blocks (blockchain (wa_node (app_web a')))\<rparr>, database (wa_node (app_web a')))"
    if "ends (sys_node y) = Some s'" "node_steps cp J (se_release E) (sys_node y, sys_round y) (s', None)" for ends s'
    by (rule shutdown_waits [where ends = ends, OF inv(1,3) that]) (use restart in blast)
  have idle: "\<exists>a'. destroy_MinerApp (loop_ends cp J (se_release E) rounds) (sys_app y) = Some a' \<and> wa_node (app_web a') = sys_node y"
    if "app_done (sys_node y)" "sys_round y = None"
    using shutdown_waits [where ends = "loop_ends cp J (se_release E) rounds", OF inv(1,3) loop_ends_exit, of "se_release E"] that
    by (metis rtranclp.rtrancl_refl)
  have round_: "\<forall>nb. sys_round y = Some nb \<longrightarrow> \<not> miningDone (sys_node y) \<longrightarrow> built_on (sys_node y) nb"
    using inv(1) by (simp add: node_inv_def)
  have thread: "\<not> miningDone (sys_node y) \<or> sys_round y \<noteq> None \<longrightarrow> wa_mineThread (app_web (sys_app y))"
    using inv(2) by (simp add: threads_ok_def)
  show ?thesis
    using restart [OF inv(1)] round_ [unfolded built_on_def] broadcast_ok [OF inv(3), of msg, unfolded connected_sends_def] thread
      exit_run [of cp H B J "se_release E" y] waits idle
    by (intro conjI) blast+
qed

subsection \<open>Examples\<close>

lemma json_conf_library_rest: "json_conf_library (jval_rest p)"
  unfolding json_conf_library_def json_conf_library_axioms_def
  using jval_conf_laws jval_entries_iff json_library_rest [of p] by (simp add: jval_rest_def)

definition sample_start :: start_env where
  "sample_start = \<lparr>se_os = sample_os, se_machine = sample_machine\<lparr>mc_sha1 := \<lambda>_. ''id''\<rparr>, se_release = False, se_now = 5,
     se_gendata = ''Gensis'', se_index = None, se_http_address = [], se_http_port = unat\<rparr>"

definition sample_options :: options where
  "sample_options = \<lparr>opt_help = False, opt_version = False, opt_config = Some ''conf'', opt_createwallet = False\<rparr>"

definition sample_json :: "jval json_rest" where
  "sample_json = jval_rest (\<lambda>_. Some (JObj [(''mining.miner.address'', JStr ''w'')]))"

definition sample_disk :: disk where
  "sample_disk = [''conf'' \<mapsto> ''c'', ''/home/a/AshChain/peers.txt'' \<mapsto> '' ws://b'']"

lemma sample_start_facts:
  "json_conf_library sample_json" "boost_library boost_std" "\<not> opt_help sample_options" "\<not> opt_createwallet sample_options"
  "config_path (se_os sample_start) sample_options = Ok ''conf''"
  "j_parse sample_json ''c'' = Some (JObj [(''mining.miner.address'', JStr ''w'')])"
  "j_entries sample_json (JObj [(''mining.miner.address'', JStr ''w'')]) = [(''mining.miner.address'', j_of_string sample_json ''w'')]"
  "''w'' \<noteq> []" "''w'' \<noteq> ''<CHANGE ME>''"
  "getDefaultDatabaseFolder (se_os sample_start) = Ok ''/home/a/AshChain''"
  "getDefaultPeersFile (se_os sample_start) = Ok ''/home/a/AshChain/peers.txt''"
  "getUUID sample_cp (se_os sample_start) (se_machine sample_start) (setCustomData ''/home/a/AshChain'' new_ComputerID) = Some (Ok ''id'')"
  "uuid (sample_fresh\<lparr>rewardAddress := ''w''\<rparr>) = ''id''" "rewardAddress (sample_fresh\<lparr>rewardAddress := ''w''\<rparr>) = ''w''"
  "block_storable (genesisBlock sample_cp sample_json (se_now sample_start) (se_gendata sample_start) (sample_fresh\<lparr>rewardAddress := ''w''\<rparr>))"
  "se_index sample_start = None" "sample_disk (path_append (se_os sample_start) ''/home/a/AshChain'' DatabaseFile) = None"
  "path_append (se_os sample_start) ''/home/a/AshChain'' DatabaseFile \<noteq> ''conf''" "sample_disk ''conf'' = Some ''c''"
  using json_conf_library_rest boost_std.boost_library_axioms sample_genesis_storable
  by (simp_all add: sample_start_def sample_options_def sample_json_def sample_disk_def sample_os_def config_path_def
      getDefaultConfigFile_def getUserFolder_def getDefaultDatabaseFolder_def getDefaultPeersFile_def getDataFolder_def
      PATH_SEPERATOR_def getUUID_def getUUID_Posix_def SHA1_def sample_cp_def sample_fresh_def path_append_def is_separator_def
      DatabaseFile_def jval_rest_def)

theorem program_starts_witness:
  "(\<exists>a. main_program sample_cp boost_std sample_json sample_start [] 0 True sample_options sample_disk = Some (Ok (Running a, sample_disk))
      \<and> length (blocks (blockchain (wa_node (app_web a)))) = 1
      \<and> map_option pd_state (map_of (pm_peers (app_peers a)) ''ws://b'') = Some CONNECTING)
   \<and> (\<exists>a files. main_program sample_cp boost_std sample_json sample_start [] 0 True sample_options Map.empty = Some (Ok (Stopped a, files)))"
proof -
  note f = sample_start_facts
  have "listed_peer boost_std (sample_disk ''/home/a/AshChain/peers.txt'') ''ws://b''"
    by (simp add: listed_peer_def sample_disk_def boost_std_def trimmed_def isspace_def)
  moreover obtain a where "main_program sample_cp boost_std sample_json sample_start [] 0 True sample_options sample_disk = Some (Ok (Running a, sample_disk))"
    "blocks (blockchain (wa_node (app_web a))) = [genesisBlock sample_cp sample_json (se_now sample_start) (se_gendata sample_start) (sample_fresh\<lparr>rewardAddress := ''w''\<rparr>)]"
    "\<forall>name. map_option pd_state (map_of (pm_peers (app_peers a)) name) =
      (if listed_peer boost_std (sample_disk ''/home/a/AshChain/peers.txt'') name then Some CONNECTING else None)"
    using program_starts [where files = sample_disk, OF f(1-18), THEN conjunct1, rule_format, OF f(19), of "[]" 0 True] by blast
  moreover have "\<exists>a files. main_program sample_cp boost_std sample_json sample_start [] 0 True sample_options Map.empty = Some (Ok (Stopped a, files))"
    using program_starts [where files = Map.empty, OF f(1-16) _ f(18), THEN conjunct2, rule_format, of "[]" 0 True] by blast
  ultimately show ?thesis by (intro conjI) (rule exI [of _ a], simp, blast)
qed

lemma sample_running:
  "\<exists>a. main_program sample_cp boost_std sample_json sample_start [] 0 True sample_options sample_disk = Some (Ok (Running a, sample_disk))
    \<and> miningDone (wa_node (app_web a)) \<and> uuid (wa_node (app_web a)) = ''id'' \<and> rewardAddress (wa_node (app_web a)) = ''w''
    \<and> wa_settings (app_web a) = address_set sample_json ''/home/a/AshChain'' ''/home/a/AshChain/peers.txt'' ''w''
    \<and> \<not> wa_mineThread (app_web a) \<and> pm_callback (app_peers a) = Some ask_summary
    \<and> map_of (pm_peers (app_peers a)) ''ws://b'' = Some (connecting False ''ws://b'' new_PeerData)"
proof -
  note f = sample_start_facts
  have listed: "listed_peer boost_std (sample_disk ''/home/a/AshChain/peers.txt'') ''ws://b''" "se_release sample_start = False"
    by (simp_all add: listed_peer_def sample_disk_def boost_std_def trimmed_def isspace_def sample_start_def)
  let ?g = "genesisBlock sample_cp sample_json (se_now sample_start) (se_gendata sample_start) (sample_fresh\<lparr>rewardAddress := ''w''\<rparr>)"
  let ?d = "\<lparr>dbfile = sample_disk (path_append (se_os sample_start) ''/home/a/AshChain'' DatabaseFile)\<rparr>"
  have "db_initialize sample_cp sample_json ?g (se_index sample_start) empty_Blockchain ?d
    = Ok (empty_Blockchain\<lparr>blocks := [?g]\<rparr>, \<lparr>dbfile = Some (write_block ?g)\<rparr>)"
    using first_initialize [OF f(15)] f(16,17) by simp
  from address_start [where files = sample_disk and content = "''c''", OF f(1-5,19,6-11) _ _ f(12-14) this refl, of "[]" 0 True] listed
  show ?thesis by auto
qed

lemma sample_sound_file:
  assumes "uuid s = ''id''" and "rewardAddress s = ''w''"
  shows "sound_file (genesisBlock sample_cp sample_json (se_now sample_start) (se_gendata sample_start) s)
    (sample_disk (path_append (se_os sample_start) ''/home/a/AshChain'' DatabaseFile))"
proof -
  note f = sample_start_facts
  have "genesisBlock sample_cp sample_json (se_now sample_start) (se_gendata sample_start) s
      = genesisBlock sample_cp sample_json (se_now sample_start) (se_gendata sample_start) (sample_fresh\<lparr>rewardAddress := ''w''\<rparr>)"
    by (rule genesisBlock_cong) (simp_all add: assms f(13,14))
  with f(15) show ?thesis unfolding f(17) by (simp add: sound_file_def)
qed

theorem program_restart_witness:
  "\<exists>a s' files2 a2. main_program sample_cp boost_std sample_json sample_start [] 0 True sample_options sample_disk = Some (Ok (Running a, sample_disk))
     \<and> node_step sample_cp sample_json False (wa_node (app_web a), None) (s', None)
     \<and> main_program sample_cp boost_std sample_json (sample_start\<lparr>se_now := 9, se_gendata := ''later''\<rparr>) [] 0 True sample_options files2
         = Some (Ok (Running a2, files2))
     \<and> blocks (blockchain (wa_node (app_web a2))) = blocks (blockchain s') \<and> app_peers a2 = app_peers a"
proof -
  note f = sample_start_facts
  let ?db = "''/home/a/AshChain''" and ?pf = "''/home/a/AshChain/peers.txt''"
  let ?chain = "path_append (se_os sample_start) ?db DatabaseFile"
  obtain a where a: "main_program sample_cp boost_std sample_json sample_start [] 0 True sample_options sample_disk = Some (Ok (Running a, sample_disk))"
    "miningDone (wa_node (app_web a))" "uuid (wa_node (app_web a)) = ''id''" "rewardAddress (wa_node (app_web a)) = ''w''"
    "wa_settings (app_web a) = address_set sample_json ?db ?pf ''w''" using sample_running by blast
  let ?s = "(wa_node (app_web a))\<lparr>miningDone := False\<rparr>"
  have step: "node_step sample_cp sample_json False (wa_node (app_web a), None) (?s, None)" using a(2) by (rule node_step.start)
  then have steps: "node_steps sample_cp sample_json (se_release sample_start) (wa_node (app_web a), None) (?s, None)"
    by (simp add: sample_start_def r_into_rtranclp)
  have gen: "sound_file (genesisBlock sample_cp sample_json (se_now sample_start) (se_gendata sample_start) (wa_node (app_web a))) (sample_disk ?chain)"
    by (rule sample_sound_file [OF a(3,4)])
  have "conf_libraries sample_json boost_std" using f(1,2) by (rule conf_libraries.intro)
  then have vals: "value_string sample_json ''database.folder'' [] (wa_settings (app_web a)) = Ok ?db"
    "value_string sample_json ''peers.file'' [] (wa_settings (app_web a)) = Ok ?pf"
    using conf_libraries.address_values(1,2) [of sample_json boost_std ?db ?pf "[]" "''w''"] by (simp_all add: a(5))
  have "?pf \<noteq> ?chain" by (simp add: sample_start_def sample_os_def path_append_def is_separator_def PATH_SEPERATOR_def DatabaseFile_def)
  from program_restart [where now = 9 and g = "''later''", OF f(5,19) a(1) vals(1) refl f(18) [symmetric] gen vals(2) this steps refl] a(1) step
  show ?thesis by blast
qed

text \<open>A run: the miner is started, a connection to the listed peer opens, the program is told to exit.\<close>

lemma sample_trace:
  assumes "miningDone (wa_node (app_web a))" and "\<not> wa_mineThread (app_web a)" and "pm_callback (app_peers a) = Some ask_summary"
    and "map_of (pm_peers (app_peers a)) ''ws://b'' = Some (connecting False ''ws://b'' new_PeerData)"
  shows "\<exists>y. traces (sys_step sample_cp H boost_std J False) (started_system a) [(7, summary_request)] y
    \<and> sys_thread y \<and> app_done (sys_node y) \<and> sys_round y = None"
proof -
  let ?step = "sys_step sample_cp H boost_std J False"
  let ?w = "(app_web a)\<lparr>wa_node := (wa_node (app_web a))\<lparr>miningDone := False\<rparr>, wa_mineThread := True\<rparr>"
  let ?y = "put_web ?w (started_system a)"
  have s1: "?step (started_system a) [] ?y"
    by (rule start_request) (simp_all add: started_system_def get_startMining_def assms(1,2))
  obtain m where m: "on_open ''ws://b'' 7 (app_peers (sys_app ?y)) = Ok ([(7, summary_request)], m)"
    using assms(3,4) by (simp add: on_open_def started_system_def ask_summary_def)
  let ?z = "put_peers m ?y"
  have s2: "?step ?y [(7, summary_request)] ?z"
    using assms(4) m by (intro peer_opened [of _ _ "connecting False ''ws://b'' new_PeerData"]) (simp_all add: started_system_def connecting_def)
  let ?w' = "snd (get_shutdown (app_web (sys_app ?z)))"
  have s3: "?step ?z [] (put_web ?w' ?z)"
    by (rule shutdown_request [OF _ prod.collapse [symmetric]]) (simp add: started_system_def)
  have "traces ?step (started_system a) [(7, summary_request)] (put_web ?w' ?z)"
    using traces_trans [where step = ?step, OF traces_single [where step = ?step, OF s1]
      traces_trans [where step = ?step, OF traces_single [where step = ?step, OF s2] traces_single [where step = ?step, OF s3]]] by simp
  moreover have "sys_thread (put_web ?w' ?z)" "app_done (sys_node (put_web ?w' ?z))" "sys_round (put_web ?w' ?z) = None"
    by (simp_all add: get_shutdown_def signalExit_def stopMining_def started_system_def)
  ultimately show ?thesis by blast
qed

theorem system_lifecycle_witness:
  "\<exists>a y a'. main_program sample_cp boost_std sample_json sample_start [] 0 True sample_options sample_disk = Some (Ok (Running a, sample_disk))
     \<and> traces (sys_step sample_cp sample_hashes boost_std sample_json False) (started_system a) [(7, summary_request)] y
     \<and> chain_ok sample_cp sample_json (blockchain (sys_node y)) \<and> wa_mineThread (app_web (sys_app y))
     \<and> destroy_MinerApp (loop_ends sample_cp sample_json False (\<lambda>k. \<lparr>re_now = 7, re_search = sample_env, re_stop = False\<rparr>)) (sys_app y) = Some a'
     \<and> blockchain (wa_node (app_web a')) = blockchain (sys_node y)"
proof -
  note f = sample_start_facts
  obtain a where a: "main_program sample_cp boost_std sample_json sample_start [] 0 True sample_options sample_disk = Some (Ok (Running a, sample_disk))"
    "miningDone (wa_node (app_web a))" "uuid (wa_node (app_web a)) = ''id''" "rewardAddress (wa_node (app_web a)) = ''w''"
    "wa_settings (app_web a) = address_set sample_json ''/home/a/AshChain'' ''/home/a/AshChain/peers.txt'' ''w''"
    "\<not> wa_mineThread (app_web a)" "pm_callback (app_peers a) = Some ask_summary"
    "map_of (pm_peers (app_peers a)) ''ws://b'' = Some (connecting False ''ws://b'' new_PeerData)" using sample_running by blast
  obtain y where y: "traces (sys_step sample_cp sample_hashes boost_std sample_json False) (started_system a) [(7, summary_request)] y"
    "sys_thread y" "app_done (sys_node y)" "sys_round y = None" using sample_trace [OF a(2,6-8)] by blast
  have rel: "se_release sample_start = False" by (simp add: sample_start_def)
  have gen: "sound_file (genesisBlock sample_cp sample_json (se_now sample_start) (se_gendata sample_start) (wa_node (app_web a)))
      (sample_disk (path_append (se_os sample_start) ''/home/a/AshChain'' DatabaseFile))"
    by (rule sample_sound_file [OF a(3,4)])
  have "conf_libraries sample_json boost_std" using f(1,2) by (rule conf_libraries.intro)
  then have "value_string sample_json ''database.folder'' [] (wa_settings (app_web a)) = Ok ''/home/a/AshChain''"
    using conf_libraries.address_values(1) [of sample_json boost_std "''/home/a/AshChain''" "''/home/a/AshChain/peers.txt''" "[]" "''w''"]
    by (simp add: a(5))
  from system_lifecycle [OF f(5,19) a(1) this gen, unfolded rel, OF y(1), of default_Block "[]" "\<lambda>k. \<lparr>re_now = 7, re_search = sample_env, re_stop = False\<rparr>"]
  have "chain_ok sample_cp sample_json (blockchain (sys_node y))"
    and "\<exists>a'. destroy_MinerApp (loop_ends sample_cp sample_json False (\<lambda>k. \<lparr>re_now = 7, re_search = sample_env, re_stop = False\<rparr>)) (sys_app y) = Some a'
      \<and> wa_node (app_web a') = sys_node y" using y(3,4) by simp_all
  then show ?thesis using a(1) y by auto
qed

end
